(* ===== verification/Prelude.thy ===== *)
theory Prelude
  imports Main "HOL-Library.Word"
begin

text \<open>
  Shared vocabulary of the development: the byte and integer types of the C code, the
  result type that makes undefined behaviour of C a value, the little-endian layout of
  integers in memory, and bounds-checked access to a block of memory.
\<close>

section \<open>Integer types\<close>

type_synonym byte = "8 word"
type_synonym u16 = "16 word"
type_synonym u32 = "32 word"
type_synonym u64 = "64 word"
type_synonym i32 = "32 word" \<comment> \<open>\<open>int32_t\<close>, read with \<open>sint\<close>\<close>
type_synonym i64 = "64 word" \<comment> \<open>\<open>int64_t\<close>, read with \<open>sint\<close>\<close>

section \<open>Results of C code that may go wrong\<close>

text \<open>
  A fault is something the C code may do that has no defined result: the model stops
  there. \<open>Blocked\<close> is a call that never returns when no other thread acts.
\<close>

datatype fault = NullDeref | OutOfBounds | DoubleFree | UseAfterFree | Blocked | DivByZero

type_synonym 'a res = "fault + 'a"

definition andThen :: "'a res \<Rightarrow> ('a \<Rightarrow> 'b res) \<Rightarrow> 'b res" where
  "andThen r f = (case r of Inl e \<Rightarrow> Inl e | Inr x \<Rightarrow> f x)"

named_theorems res_simps \<open>evaluation of results\<close>

lemma andThen_Inl [simp, res_simps]: "andThen (Inl e) f = Inl e"
  by (simp add: andThen_def)

lemma andThen_Inr [simp, res_simps]: "andThen (Inr x) f = f x"
  by (simp add: andThen_def)

lemma andThen_assoc: "andThen (andThen r f) g = andThen r (\<lambda>x. andThen (f x) g)"
  by (cases r) simp_all

lemma andThen_cong [fundef_cong]:
  "r = r' \<Longrightarrow> (\<And>x. r' = Inr x \<Longrightarrow> f x = f' x) \<Longrightarrow> andThen r f = andThen r' f'"
  by (cases r') simp_all

lemma andThen_eq_Inr: "andThen r f = Inr y \<longleftrightarrow> (\<exists>x. r = Inr x \<and> f x = Inr y)"
  by (cases r) simp_all

lemma andThen_eq_InrE [elim?]:
  assumes "andThen r f = Inr y"
  obtains x where "r = Inr x" and "f x = Inr y"
  using assms by (auto simp: andThen_eq_Inr)

lemma andThen_if: "andThen (if b then r else r') f = (if b then andThen r f else andThen r' f)"
  by simp

section \<open>Little-endian layout\<close>

text \<open>
  The structs of \<open>protocol.h\<close> are packed and hold integers in native order; the code
  compares against the byte sequence of a little-endian machine
  (\<open>needle\<close> in \<open>read_header\<close>), so the layout here is little-endian.
\<close>

fun le_bytes :: "nat \<Rightarrow> nat \<Rightarrow> byte list" where
  "le_bytes 0 v = []"
| "le_bytes (Suc n) v = word_of_nat v # le_bytes n (v div 256)"

fun le_val :: "byte list \<Rightarrow> nat" where
  "le_val [] = 0"
| "le_val (b # bs) = unat b + 256 * le_val bs"

lemma le_bytes_numeral:
  "le_bytes (numeral n) v = word_of_nat v # le_bytes (pred_numeral n) (v div 256)"
  by (simp only: numeral_eq_Suc le_bytes.simps(2))

lemma length_le_bytes [simp]: "length (le_bytes n v) = n"
  by (induction n arbitrary: v) simp_all

lemma unat_byte_of_nat: "unat (word_of_nat v :: byte) = v mod 256"
  by (simp add: unat_of_nat)

lemma le_val_le_bytes: "le_val (le_bytes n v) = v mod 256 ^ n"
proof (induction n arbitrary: v)
  case 0
  then show ?case by simp
next
  case (Suc n)
  then show ?case
    by (simp add: unat_byte_of_nat mod_mult2_eq)
qed

lemma unat_byte_bound: "unat (b :: byte) < 256"
  using unsigned_less [of b, where ?'a = nat] by simp

lemma le_val_bound: "le_val bs < 256 ^ length bs"
proof (induction bs)
  case (Cons b bs)
  have "unat b < 256" by (rule unat_byte_bound)
  moreover have "256 * le_val bs + 256 \<le> 256 * 256 ^ length bs"
    using Cons by simp
  ultimately show ?case by simp
qed simp

lemma le_bytes_le_val: "le_bytes (length bs) (le_val bs) = bs"
proof (induction bs)
  case (Cons b bs)
  have b: "unat b < 256" by (rule unat_byte_bound)
  have "unat (word_of_nat (unat b + 256 * le_val bs) :: byte) = unat b"
    by (simp only: unat_byte_of_nat) (simp add: b)
  then have "word_of_nat (unat b + 256 * le_val bs) = b"
    by (simp only: word_unat_eq_iff)
  moreover have "(unat b + 256 * le_val bs) div 256 = le_val bs" using b by simp
  ultimately show ?case using Cons by simp
qed simp

lemma le_val_of_le_bytes_small: "v < 256 ^ n \<Longrightarrow> le_val (le_bytes n v) = v"
  by (simp add: le_val_le_bytes)

definition enc_u16 :: "u16 \<Rightarrow> byte list" where "enc_u16 w = le_bytes 2 (unat w)"
definition enc_u32 :: "u32 \<Rightarrow> byte list" where "enc_u32 w = le_bytes 4 (unat w)"
definition enc_u64 :: "u64 \<Rightarrow> byte list" where "enc_u64 w = le_bytes 8 (unat w)"
definition dec_u16 :: "byte list \<Rightarrow> u16" where "dec_u16 bs = word_of_nat (le_val bs)"
definition dec_u32 :: "byte list \<Rightarrow> u32" where "dec_u32 bs = word_of_nat (le_val bs)"
definition dec_u64 :: "byte list \<Rightarrow> u64" where "dec_u64 bs = word_of_nat (le_val bs)"

lemma length_enc [simp]:
  "length (enc_u16 a) = 2" "length (enc_u32 b) = 4" "length (enc_u64 c) = 8"
  by (simp_all add: enc_u16_def enc_u32_def enc_u64_def)

lemma dec_enc [simp]:
  "dec_u16 (enc_u16 a) = a" "dec_u32 (enc_u32 b) = b" "dec_u64 (enc_u64 c) = c"
  using unsigned_less [of a, where ?'a = nat] unsigned_less [of b, where ?'a = nat]
    unsigned_less [of c, where ?'a = nat]
  by (simp_all add: enc_u16_def enc_u32_def enc_u64_def dec_u16_def dec_u32_def dec_u64_def
      le_val_of_le_bytes_small)

lemma enc_dec_u32: "length bs = 4 \<Longrightarrow> enc_u32 (dec_u32 bs) = bs"
  using le_val_bound [of bs] le_bytes_le_val [of bs]
  by (simp add: enc_u32_def dec_u32_def unat_of_nat)

lemma enc_dec_u16: "length bs = 2 \<Longrightarrow> enc_u16 (dec_u16 bs) = bs"
  using le_val_bound [of bs] le_bytes_le_val [of bs]
  by (simp add: enc_u16_def dec_u16_def unat_of_nat)

lemma enc_dec_u64: "length bs = 8 \<Longrightarrow> enc_u64 (dec_u64 bs) = bs"
  using le_val_bound [of bs] le_bytes_le_val [of bs]
  by (simp add: enc_u64_def dec_u64_def unat_of_nat)

section \<open>Bounds-checked memory\<close>

text \<open>
  A block of memory is a list. \<open>memcpy_to\<close> is a copy of \<open>xs\<close> into \<open>buf\<close> at an offset,
  \<open>memcpy_from\<close> reads \<open>n\<close> elements at an offset: an access that leaves the block is a
  fault, never a silently truncated copy.
\<close>

definition memcpy_to :: "'a list \<Rightarrow> nat \<Rightarrow> 'a list \<Rightarrow> 'a list res" where
  "memcpy_to buf off xs =
     (if off + length xs \<le> length buf
      then Inr (take off buf @ xs @ drop (off + length xs) buf) else Inl OutOfBounds)"

definition memcpy_from :: "'a list \<Rightarrow> nat \<Rightarrow> nat \<Rightarrow> 'a list res" where
  "memcpy_from buf off n =
     (if off + n \<le> length buf then Inr (take n (drop off buf)) else Inl OutOfBounds)"

lemma memcpy_to_ok [res_simps]:
  "off + length xs \<le> length buf \<Longrightarrow>
   memcpy_to buf off xs = Inr (take off buf @ xs @ drop (off + length xs) buf)"
  by (simp add: memcpy_to_def)

lemma memcpy_from_ok [res_simps]:
  "off + n \<le> length buf \<Longrightarrow> memcpy_from buf off n = Inr (take n (drop off buf))"
  by (simp add: memcpy_from_def)

lemma memcpy_to_length: "memcpy_to buf off xs = Inr buf' \<Longrightarrow> length buf' = length buf"
  by (auto simp: memcpy_to_def split: if_splits)

lemma memcpy_from_length: "memcpy_from buf off n = Inr xs \<Longrightarrow> length xs = n"
  by (auto simp: memcpy_from_def split: if_splits)

lemma memcpy_to_from:
  "memcpy_to buf off xs = Inr buf' \<Longrightarrow> memcpy_from buf' off (length xs) = Inr xs"
  by (auto simp: memcpy_to_def memcpy_from_def split: if_splits)

end
