(* ===== verification/Platform.thy ===== *)
theory Platform
  imports Prelude
begin

text \<open>
  The platform layer: \<open>platform_api_posix.c\<close> and \<open>lock_api_posix.c\<close>, thin wrappers around
  the operating system. The operating system is a \<^emph>\<open>world\<close>: the state it keeps for the
  process (heap blocks, semaphores, open descriptors, bytes queued on each socket) and an
  environment that answers every call whose outcome the program does not decide. An answer
  may differ from call to call, so a theorem about all worlds covers every schedule of
  failures. Also here: the log levels, and the record of lines handed to the logger.
\<close>

section \<open>Answers of the environment\<close>

datatype log_level = LOG_CRITICAL | LOG_ERROR | LOG_WARNING | LOG_INFO | LOG_DEBUG

record sockaddr_in =
  sin_family :: u16
  sin_port :: u16     \<comment> \<open>network byte order\<close>
  sin_addr :: u32     \<comment> \<open>network byte order: the four octets in memory order\<close>

abbreviation AF_INET :: u16 where "AF_INET \<equiv> 2"

record timespec =
  tv_sec :: i64
  tv_nsec :: i64

text \<open>An entry of the list \<open>getifaddrs\<close> returns; NULL addresses are \<open>None\<close>.\<close>

record ifaddrs =
  ifa_name :: string
  ifa_flags :: u32
  ifa_family :: "u16 option"           \<comment> \<open>\<open>ifa_addr->sa_family\<close>\<close>
  ifa_broadaddr :: "sockaddr_in option"

text \<open>
  What waits on a socket: segments of bytes, then possibly an error or the end of the
  stream. A receive takes bytes from the first segment only, so every way the kernel may
  cut a stream into short reads is some list of segments.
\<close>

datatype recv_ans = Seg byte "byte list" | RecvErr int | Eof
  \<comment> \<open>\<open>Seg b bs\<close>: the segment \<open>b # bs\<close>, never empty\<close>

datatype select_ans = SelErr int | SelTimeout | SelReady bool bool
  \<comment> \<open>\<open>SelReady l c\<close>: the listening socket, the client socket is readable\<close>

record env =
  e_malloc :: "nat \<Rightarrow> bool"
  e_sem_init :: "nat \<Rightarrow> bool"
  e_sem_wait :: "nat \<Rightarrow> bool"              \<comment> \<open>not interrupted by a signal\<close>
  e_send :: "nat \<Rightarrow> int + nat"             \<comment> \<open>\<open>errno\<close>, or how many bytes fit\<close>
  e_socket :: "nat \<Rightarrow> bool"
  e_bind :: "nat \<Rightarrow> bool"
  e_listen :: "nat \<Rightarrow> bool"
  e_accept :: "nat \<Rightarrow> (sockaddr_in \<times> recv_ans list) option"
  e_select :: "nat \<Rightarrow> select_ans"
  e_thread :: "nat \<Rightarrow> nat"                 \<comment> \<open>identifier stored by \<open>pthread_create\<close>\<close>
  e_spawn :: "nat \<Rightarrow> bool"                 \<comment> \<open>\<open>pthread_create\<close> succeeds, where its result is looked at\<close>
  e_time :: "nat \<Rightarrow> i64"
  e_clock :: "nat \<Rightarrow> timespec"
  e_garbage :: "nat \<Rightarrow> nat \<Rightarrow> byte"       \<comment> \<open>contents of memory not yet written\<close>
  e_setsockopt :: "nat \<Rightarrow> bool"
  e_ifaddrs :: "nat \<Rightarrow> ifaddrs list option"
  e_rand :: "nat \<Rightarrow> nat"

datatype event =
    EvSend int "byte list"
  | EvSendto int "byte list" sockaddr_in
  | EvClose int
  | EvBadClose int
  | EvShutdown int
  | EvJoin nat
  | EvPrint "byte list"

text \<open>The calls of \<open>close\<close> in an output, of open and of other descriptors.\<close>

fun is_close :: "event \<Rightarrow> bool" where
  "is_close (EvClose fd) = True"
| "is_close (EvBadClose fd) = True"
| "is_close _ = False"

section \<open>The world\<close>

record world =
  w_env :: env
  w_calls :: nat                       \<comment> \<open>calls made so far: which answer is next\<close>
  w_errno :: int
  w_next :: nat                        \<comment> \<open>next fresh heap address\<close>
  w_heap :: "nat list"                 \<comment> \<open>live heap blocks\<close>
  w_sems :: "nat \<Rightarrow> nat option"        \<comment> \<open>semaphores by address\<close>
  w_fds :: "int list"                  \<comment> \<open>open descriptors\<close>
  w_inq :: "int \<Rightarrow> recv_ans list"      \<comment> \<open>what waits on each socket\<close>
  w_trace :: "event list"              \<comment> \<open>output, oldest first\<close>
  w_log :: "(log_level \<times> string) list" \<comment> \<open>lines handed to \<open>write_log_message\<close>\<close>

abbreviation closes :: "world \<Rightarrow> event list" where
  "closes w \<equiv> filter is_close (w_trace w)"

abbreviation EINTR :: int where "EINTR \<equiv> 4"
abbreviation EBADF :: int where "EBADF \<equiv> 9"
abbreviation EAGAIN :: int where "EAGAIN \<equiv> 11"
abbreviation EWOULDBLOCK :: int where "EWOULDBLOCK \<equiv> 11"
abbreviation ENOMEM :: int where "ENOMEM \<equiv> 12"

definition tick :: "world \<Rightarrow> world" where
  "tick w = w\<lparr>w_calls := Suc (w_calls w)\<rparr>"

definition emit :: "event \<Rightarrow> world \<Rightarrow> world" where
  "emit ev w = w\<lparr>w_trace := w_trace w @ [ev]\<rparr>"

definition pr :: "log_level \<Rightarrow> string \<Rightarrow> world \<Rightarrow> world" where
  "pr l s w = w\<lparr>w_log := w_log w @ [(l, s)]\<rparr>"

abbreviation pr_error :: "string \<Rightarrow> world \<Rightarrow> world" where "pr_error \<equiv> pr LOG_ERROR"
abbreviation pr_info :: "string \<Rightarrow> world \<Rightarrow> world" where "pr_info \<equiv> pr LOG_INFO"
abbreviation pr_debug :: "string \<Rightarrow> world \<Rightarrow> world" where "pr_debug \<equiv> pr LOG_DEBUG"

section \<open>Memory\<close>

text \<open>
  \<open>platform_malloc\<close> takes an \<open>int\<close>; a negative length becomes a size beyond
  \<open>PTRDIFF_MAX\<close>, which \<open>malloc\<close> refuses. The result is an address or \<open>None\<close> for NULL.
\<close>

definition malloc :: "world \<Rightarrow> nat option \<times> world" where
  "malloc w =
     (let k = w_calls w; w1 = tick w in
      if e_malloc (w_env w) k
      then (Some (w_next w), w1\<lparr>w_next := Suc (w_next w), w_heap := w_next w # w_heap w\<rparr>)
      else (None, w1\<lparr>w_errno := ENOMEM\<rparr>))"

definition platform_malloc :: "32 word \<Rightarrow> world \<Rightarrow> nat option \<times> world" where
  "platform_malloc len w =
     (if sint len < 0 then (None, (tick w)\<lparr>w_errno := ENOMEM\<rparr>) else malloc w)"

definition platform_free :: "nat option \<Rightarrow> world \<Rightarrow> world res" where
  "platform_free p w =
     (case p of
        None \<Rightarrow> Inr w
      | Some a \<Rightarrow> if a \<in> set (w_heap w) then Inr (w\<lparr>w_heap := remove1 a (w_heap w)\<rparr>)
                 else Inl DoubleFree)"

text \<open>What a block or a local variable holds before the program writes to it.\<close>

definition uninit :: "nat \<Rightarrow> nat \<Rightarrow> world \<Rightarrow> byte list" where
  "uninit a n w = map (e_garbage (w_env w) a) [0..<n]"

lemma length_uninit [simp]: "length (uninit a n w) = n"
  by (simp add: uninit_def)

section \<open>Locks\<close>

text \<open>
  \<open>lock_api_posix.c\<close>: a lock is a heap-allocated POSIX semaphore that starts at one. It
  counts: nothing ties a \<open>lock_give\<close> to an earlier \<open>lock_take\<close>.
\<close>

type_synonym LOCK_ID = "nat option"

abbreviation LOCK_SUCCESS :: int where "LOCK_SUCCESS \<equiv> 0"
abbreviation LOCK_ERROR :: int where "LOCK_ERROR \<equiv> -1"
abbreviation SEM_VALUE_MAX :: nat where "SEM_VALUE_MAX \<equiv> 2147483647"

definition lock_create :: "world \<Rightarrow> (LOCK_ID \<times> world) res" where
  "lock_create w =
     (case malloc w of
        (None, w1) \<Rightarrow> Inr (None, w1)
      | (Some a, w1) \<Rightarrow>
          let ok = e_sem_init (w_env w1) (w_calls w1); w2 = tick w1 in
          if \<not> ok then andThen (platform_free (Some a) w2) (\<lambda>w3. Inr (None, w3))
          else Inr (Some a, w2\<lparr>w_sems := (w_sems w2)(a := Some 1)\<rparr>))"

definition lock_take :: "LOCK_ID \<Rightarrow> world \<Rightarrow> (int \<times> world) res" where
  "lock_take l w =
     (case l of
        None \<Rightarrow> Inr (LOCK_ERROR, w)
      | Some a \<Rightarrow>
          (case w_sems w a of
             None \<Rightarrow> Inl UseAfterFree
           | Some n \<Rightarrow>
               if \<not> e_sem_wait (w_env w) (w_calls w)
               then Inr (LOCK_ERROR, (tick w)\<lparr>w_errno := EINTR\<rparr>)
               else if n = 0 then Inl Blocked
               else Inr (LOCK_SUCCESS, (tick w)\<lparr>w_sems := (w_sems w)(a := Some (n - 1))\<rparr>)))"

definition lock_give :: "LOCK_ID \<Rightarrow> world \<Rightarrow> (int \<times> world) res" where
  "lock_give l w =
     (case l of
        None \<Rightarrow> Inr (LOCK_ERROR, w)
      | Some a \<Rightarrow>
          (case w_sems w a of
             None \<Rightarrow> Inl UseAfterFree
           | Some n \<Rightarrow>
               if n < SEM_VALUE_MAX
               then Inr (LOCK_SUCCESS, (tick w)\<lparr>w_sems := (w_sems w)(a := Some (Suc n))\<rparr>)
               else Inr (LOCK_ERROR, tick w)))"

definition lock_destroy :: "LOCK_ID \<Rightarrow> world \<Rightarrow> (int \<times> world) res" where
  "lock_destroy l w =
     (case l of
        None \<Rightarrow> Inr (LOCK_ERROR, w)
      | Some a \<Rightarrow>
          (case w_sems w a of
             None \<Rightarrow> Inl UseAfterFree
           | Some n \<Rightarrow>
               andThen (platform_free (Some a) (w\<lparr>w_sems := (w_sems w)(a := None)\<rparr>))
                 (\<lambda>w1. Inr (LOCK_SUCCESS, w1))))"

section \<open>Descriptors and sockets\<close>

text \<open>
  The kernel hands out the lowest descriptor that is not open (POSIX), which is why closing
  a descriptor twice is dangerous: the number may by then belong to someone else.
\<close>

definition first_free :: "int list \<Rightarrow> int" where
  "first_free fds = int (hd (filter (\<lambda>n. int n \<notin> set fds) [0..<Suc (length fds)]))"

definition platform_socket :: "world \<Rightarrow> int \<times> world" where
  "platform_socket w =
     (let k = w_calls w; w1 = tick w; fd = first_free (w_fds w) in
      if e_socket (w_env w) k then (fd, w1\<lparr>w_fds := fd # w_fds w\<rparr>) else (-1, w1))"

definition platform_bind :: "int \<Rightarrow> world \<Rightarrow> int \<times> world" where
  "platform_bind fd w =
     (if fd \<notin> set (w_fds w) then (-1, (tick w)\<lparr>w_errno := EBADF\<rparr>)
      else (if e_bind (w_env w) (w_calls w) then 0 else -1, tick w))"

definition platform_listen :: "int \<Rightarrow> world \<Rightarrow> int \<times> world" where
  "platform_listen fd w =
     (if fd \<notin> set (w_fds w) then (-1, (tick w)\<lparr>w_errno := EBADF\<rparr>)
      else (if e_listen (w_env w) (w_calls w) then 0 else -1, tick w))"

definition platform_accept :: "int \<Rightarrow> world \<Rightarrow> int \<times> sockaddr_in option \<times> world" where
  "platform_accept fd w =
     (if fd \<notin> set (w_fds w) then (-1, None, (tick w)\<lparr>w_errno := EBADF\<rparr>)
      else (case e_accept (w_env w) (w_calls w) of
              None \<Rightarrow> (-1, None, tick w)
            | Some (a, q) \<Rightarrow>
                let s = first_free (w_fds w) in
                (s, Some a, (tick w)\<lparr>w_fds := s # w_fds w, w_inq := (w_inq w)(s := q)\<rparr>)))"

definition platform_close :: "int \<Rightarrow> world \<Rightarrow> int \<times> world" where
  "platform_close fd w =
     (if fd \<in> set (w_fds w) then (0, emit (EvClose fd) (w\<lparr>w_fds := removeAll fd (w_fds w)\<rparr>))
      else (-1, emit (EvBadClose fd) (w\<lparr>w_errno := EBADF\<rparr>)))"

text \<open>
  \<open>shutdown\<close> in both directions: what has arrived can still be received, behind it the stream
  ends. The descriptor stays open. A send may fail from then on, which the answers of the
  environment cover.
\<close>

definition platform_shutdown :: "int \<Rightarrow> world \<Rightarrow> world" where
  "platform_shutdown fd w = emit (EvShutdown fd) (w\<lparr>w_inq := (w_inq w)(fd := w_inq w fd @ [Eof])\<rparr>)"

text \<open>
  \<open>select\<close> over a set of descriptors: one that is not open makes it fail with \<open>EBADF\<close>.
\<close>

definition platform_select :: "int list \<Rightarrow> world \<Rightarrow> select_ans \<times> world" where
  "platform_select fds w =
     (if \<not> set fds \<subseteq> set (w_fds w) then (SelErr EBADF, (tick w)\<lparr>w_errno := EBADF\<rparr>)
      else (case e_select (w_env w) (w_calls w) of
              SelErr e \<Rightarrow> (SelErr e, (tick w)\<lparr>w_errno := e\<rparr>)
            | a \<Rightarrow> (a, tick w)))"

definition platform_setsockopt :: "int \<Rightarrow> world \<Rightarrow> int \<times> world" where
  "platform_setsockopt fd w =
     (if fd \<notin> set (w_fds w) then (-1, (tick w)\<lparr>w_errno := EBADF\<rparr>)
      else (if e_setsockopt (w_env w) (w_calls w) then 0 else -1, tick w))"

definition getifaddrs :: "world \<Rightarrow> ifaddrs list option \<times> world" where
  "getifaddrs w = (e_ifaddrs (w_env w) (w_calls w), tick w)"

fun seg :: "byte list \<Rightarrow> recv_ans list" where
  "seg [] = []"
| "seg (b # bs) = [Seg b bs]"

text \<open>
  \<open>recv\<close> of at most \<open>len\<close> bytes: the return value, the bytes stored, the world. It sets
  \<open>errno\<close> only when it returns \<open>-1\<close>; end of stream and a zero length return \<open>0\<close>. With
  \<open>MSG_DONTWAIT\<close> an empty queue is \<open>EAGAIN\<close>, without it the call blocks.
\<close>

definition platform_recv :: "int \<Rightarrow> nat \<Rightarrow> bool \<Rightarrow> world \<Rightarrow> (int \<times> byte list \<times> world) res" where
  "platform_recv fd len dontwait w =
     (if fd \<notin> set (w_fds w) then Inr (-1, [], w\<lparr>w_errno := EBADF\<rparr>)
      else if len = 0 then Inr (0, [], w)
      else (case w_inq w fd of
              [] \<Rightarrow> if dontwait then Inr (-1, [], w\<lparr>w_errno := EAGAIN\<rparr>) else Inl Blocked
            | Eof # q \<Rightarrow> Inr (0, [], w)
            | RecvErr e # q \<Rightarrow> Inr (-1, [], w\<lparr>w_errno := e, w_inq := (w_inq w)(fd := q)\<rparr>)
            | Seg b bs # q \<Rightarrow>
                let got = take len (b # bs) in
                Inr (int (length got), got,
                     w\<lparr>w_inq := (w_inq w)(fd := seg (drop len (b # bs)) @ q)\<rparr>)))"

definition platform_send :: "int \<Rightarrow> byte list \<Rightarrow> world \<Rightarrow> int \<times> world" where
  "platform_send fd bs w =
     (if fd \<notin> set (w_fds w) then (-1, (tick w)\<lparr>w_errno := EBADF\<rparr>)
      else (case e_send (w_env w) (w_calls w) of
              Inl e \<Rightarrow> (-1, (tick w)\<lparr>w_errno := e\<rparr>)
            | Inr n \<Rightarrow> let out = take n bs in
                (int (length out), emit (EvSend fd out) (tick w))))"

text \<open>A datagram is sent whole or not at all.\<close>

definition platform_sendto :: "int \<Rightarrow> byte list \<Rightarrow> sockaddr_in \<Rightarrow> world \<Rightarrow> int \<times> world" where
  "platform_sendto fd bs dest w =
     (if fd \<notin> set (w_fds w) then (-1, (tick w)\<lparr>w_errno := EBADF\<rparr>)
      else (case e_send (w_env w) (w_calls w) of
              Inl e \<Rightarrow> (-1, (tick w)\<lparr>w_errno := e\<rparr>)
            | Inr n \<Rightarrow> (int (length bs), emit (EvSendto fd bs dest) (tick w))))"

definition platform_htons :: "u16 \<Rightarrow> u16" where
  "platform_htons h = word_of_nat ((unat h mod 256) * 256 + unat h div 256)"

definition platform_ntohs :: "u16 \<Rightarrow> u16" where
  "platform_ntohs n = word_of_nat ((unat n mod 256) * 256 + unat n div 256)"

definition platform_pthread_create :: "world \<Rightarrow> nat \<times> world" where
  "platform_pthread_create w = (e_thread (w_env w) (w_calls w), tick w)"

text \<open>Joining a thread returns when the thread has ended, and waits for ever when it never does.\<close>

definition platform_pthread_join :: "bool \<Rightarrow> nat \<Rightarrow> world \<Rightarrow> world res" where
  "platform_pthread_join ended t w = (if ended then Inr (emit (EvJoin t) w) else Inl Blocked)"

text \<open>Sleeping changes nothing but the answers that follow.\<close>

definition platform_usleep :: "u32 \<Rightarrow> world \<Rightarrow> world" where
  "platform_usleep microseconds w = tick w"

definition time_now :: "world \<Rightarrow> i64 \<times> world" where
  "time_now w = (e_time (w_env w) (w_calls w), tick w)"

text \<open>\<open>rand\<close> yields a number up to \<open>RAND_MAX\<close>, \<open>2\<^sup>31 - 1\<close>.\<close>

definition rand :: "world \<Rightarrow> nat \<times> world" where
  "rand w = (e_rand (w_env w) (w_calls w) mod 2147483648, tick w)"

definition clock_gettime :: "world \<Rightarrow> timespec \<times> world" where
  "clock_gettime w = (e_clock (w_env w) (w_calls w), tick w)"

section \<open>Facts about the platform layer\<close>

named_theorems platform_frame \<open>what the calls leave unchanged\<close>

lemma tick_sel [simp]:
  "w_env (tick w) = w_env w" "w_errno (tick w) = w_errno w" "w_next (tick w) = w_next w"
  "w_heap (tick w) = w_heap w" "w_sems (tick w) = w_sems w" "w_fds (tick w) = w_fds w"
  "w_inq (tick w) = w_inq w" "w_trace (tick w) = w_trace w" "w_log (tick w) = w_log w"
  "w_calls (tick w) = Suc (w_calls w)"
  by (simp_all add: tick_def)

lemma emit_sel [simp]:
  "w_env (emit e w) = w_env w" "w_errno (emit e w) = w_errno w" "w_next (emit e w) = w_next w"
  "w_heap (emit e w) = w_heap w" "w_sems (emit e w) = w_sems w" "w_fds (emit e w) = w_fds w"
  "w_inq (emit e w) = w_inq w" "w_trace (emit e w) = w_trace w @ [e]" "w_log (emit e w) = w_log w"
  "w_calls (emit e w) = w_calls w"
  by (simp_all add: emit_def)

lemma pr_sel [simp]:
  "w_env (pr l s w) = w_env w" "w_errno (pr l s w) = w_errno w" "w_next (pr l s w) = w_next w"
  "w_heap (pr l s w) = w_heap w" "w_sems (pr l s w) = w_sems w" "w_fds (pr l s w) = w_fds w"
  "w_inq (pr l s w) = w_inq w" "w_trace (pr l s w) = w_trace w"
  "w_log (pr l s w) = w_log w @ [(l, s)]" "w_calls (pr l s w) = w_calls w"
  by (simp_all add: pr_def)

lemma first_free_fresh: "first_free fds \<notin> set fds"
proof -
  have "\<exists>n < Suc (length fds). int n \<notin> set fds"
  proof (rule ccontr)
    assume "\<not> ?thesis"
    then have "int ` {..<Suc (length fds)} \<subseteq> set fds" by auto
    then have "card (int ` {..<Suc (length fds)}) \<le> card (set fds)"
      by (simp add: card_mono)
    then have "Suc (length fds) \<le> length fds"
      using card_length [of fds] by (simp add: card_image)
    then show False by simp
  qed
  then have "filter (\<lambda>n. int n \<notin> set fds) [0..<Suc (length fds)] \<noteq> []"
    by (auto simp: filter_empty_conv simp del: upt_Suc)
  from hd_in_set [OF this] show ?thesis
    by (simp add: first_free_def del: upt_Suc)
qed

lemma first_free_nonneg: "0 \<le> first_free fds"
  by (simp add: first_free_def)

lemma htons_ntohs: "platform_ntohs (platform_htons h) = h"
proof -
  have h: "unat h < 65536" using unsigned_less [of h, where ?'a = nat] by simp
  have "(unat h mod 256) * 256 + unat h div 256 < 65536" using h by linarith
  then have "unat (platform_htons h) = (unat h mod 256) * 256 + unat h div 256"
    by (simp add: platform_htons_def unat_of_nat del: of_nat_add of_nat_mult)
  then have "(unat (platform_htons h) mod 256) * 256 + unat (platform_htons h) div 256 = unat h"
    using h by simp
  then show ?thesis by (simp add: platform_ntohs_def del: of_nat_add of_nat_mult)
qed

section \<open>A world for examples\<close>

text \<open>Every call succeeds; descriptors 0, 1 and 2 are open, nothing else is allocated.\<close>

definition ok_env :: env where
  "ok_env = \<lparr>e_malloc = (\<lambda>_. True), e_sem_init = (\<lambda>_. True), e_sem_wait = (\<lambda>_. True),
     e_send = (\<lambda>_. Inr 1000000), e_socket = (\<lambda>_. True), e_bind = (\<lambda>_. True),
     e_listen = (\<lambda>_. True), e_accept = (\<lambda>_. None), e_select = (\<lambda>_. SelTimeout),
     e_thread = (\<lambda>k. Suc k), e_spawn = (\<lambda>_. True), e_time = (\<lambda>_. 0), e_clock = (\<lambda>_. \<lparr>tv_sec = 0, tv_nsec = 0\<rparr>),
     e_garbage = (\<lambda>_ _. 0xA5), e_setsockopt = (\<lambda>_. True), e_ifaddrs = (\<lambda>_. Some []),
     e_rand = (\<lambda>k. 1000 + k)\<rparr>"

definition ok_world :: world where
  "ok_world = \<lparr>w_env = ok_env, w_calls = 0, w_errno = 0, w_next = 1, w_heap = [],
     w_sems = (\<lambda>_. None), w_fds = [0, 1, 2], w_inq = (\<lambda>_. []), w_trace = [], w_log = []\<rparr>"

lemma ok_world_sel [simp]:
  "w_env ok_world = ok_env" "w_calls ok_world = 0" "w_errno ok_world = 0" "w_next ok_world = 1"
  "w_heap ok_world = []" "w_sems ok_world = (\<lambda>_. None)" "w_fds ok_world = [0, 1, 2]"
  "w_inq ok_world = (\<lambda>_. [])" "w_trace ok_world = []" "w_log ok_world = []"
  by (simp_all add: ok_world_def)

lemma ok_env_sel [simp]:
  "e_malloc ok_env k" "e_sem_init ok_env k" "e_sem_wait ok_env k"
  "e_send ok_env k = Inr 1000000" "e_socket ok_env k" "e_bind ok_env k" "e_listen ok_env k"
  "e_accept ok_env k = None" "e_select ok_env k = SelTimeout" "e_thread ok_env k = Suc k" "e_spawn ok_env k"
  "e_time ok_env k = 0" "e_clock ok_env k = \<lparr>tv_sec = 0, tv_nsec = 0\<rparr>"
  "e_garbage ok_env a i = 0xA5" "e_setsockopt ok_env k" "e_ifaddrs ok_env k = Some []"
  "e_rand ok_env k = 1000 + k"
  by (simp_all add: ok_env_def)

end
