(* ===== verification/Circular.thy ===== *)
theory Circular
  imports Prelude
begin

text \<open>
  Circular storage, on lists and natural numbers only: what the two-part copies of the ring
  buffer read and write, and the list of bytes they stand for. Nothing here mentions the
  C code; the ring buffer theory reduces its word arithmetic to these facts.
\<close>

section \<open>Reading and writing modulo a size\<close>

definition ring_get :: "'a list \<Rightarrow> nat \<Rightarrow> nat \<Rightarrow> nat \<Rightarrow> 'a list" where
  "ring_get buf n t k = map (\<lambda>i. buf ! ((t + i) mod n)) [0..<k]"

definition ring_put :: "'a list \<Rightarrow> nat \<Rightarrow> nat \<Rightarrow> 'a list \<Rightarrow> 'a list" where
  "ring_put buf n h xs =
     (let m = (if h + length xs > n then n - h else length xs);
          buf1 = take h buf @ take m xs @ drop (h + m) buf
      in drop m xs @ drop (length xs - m) buf1)"

lemma length_ring_get [simp]: "length (ring_get buf n t k) = k"
  by (simp add: ring_get_def)

lemma nth_ring_get [simp]: "i < k \<Longrightarrow> ring_get buf n t k ! i = buf ! ((t + i) mod n)"
  by (simp add: ring_get_def)

lemma mod_wrap: "t < n \<Longrightarrow> i < n \<Longrightarrow> (t + i) mod n = (if t + i < n then t + i else t + i - n)"
  for n :: nat
  by (simp add: mod_if)

lemma ring_get_chunks:
  assumes "t < n" "k \<le> n" "n \<le> length buf"
  shows "ring_get buf n t k =
    (let m = (if t + k > n then n - t else k)
     in take m (drop t buf) @ take (k - m) buf)"
  using assms
  by (auto intro!: nth_equalityI simp: Let_def nth_append mod_wrap less_diff_conv add.commute)

lemma ring_get_split: "ring_get buf n t (j + k) = ring_get buf n t j @ ring_get buf n (t + j) k"
  by (rule nth_equalityI) (auto simp: nth_append add.assoc)

lemma ring_get_mod: "ring_get buf n (t mod n) k = ring_get buf n t k"
  by (simp add: ring_get_def mod_add_left_eq)

lemma ring_get_cong:
  "(\<And>i. i < k \<Longrightarrow> buf' ! ((t + i) mod n) = buf ! ((t + i) mod n)) \<Longrightarrow>
   ring_get buf' n t k = ring_get buf n t k"
  by (simp add: ring_get_def)

lemma length_ring_put [simp]:
  assumes "h < n" "length xs \<le> n" "n \<le> length buf"
  shows "length (ring_put buf n h xs) = length buf"
  using assms by (auto simp: ring_put_def Let_def)

lemma nth_ring_put:
  assumes "h < n" "length xs \<le> n" "n \<le> length buf" "j < n"
  shows "ring_put buf n h xs ! j =
    (if h \<le> j \<and> j < h + length xs then xs ! (j - h)
     else if j + n < h + length xs then xs ! (j + n - h) else buf ! j)"
  using assms by (auto simp: ring_put_def Let_def nth_append min_def nth_take add.commute)

lemma ring_put_hit:
  assumes "h < n" "length xs \<le> n" "n \<le> length buf" "i < length xs"
  shows "ring_put buf n h xs ! ((h + i) mod n) = xs ! i"
  using assms by (auto simp: nth_ring_put mod_wrap)

lemma ring_put_miss:
  assumes "h < n" "length xs \<le> n" "n \<le> length buf" "length xs \<le> i" "i < n"
  shows "ring_put buf n h xs ! ((h + i) mod n) = buf ! ((h + i) mod n)"
  using assms by (auto simp: nth_ring_put mod_wrap)

text \<open>
  Writing at the head what fits in the free part extends the stored list at its end.
\<close>

lemma ring_put_get:
  assumes n: "t < n" "n \<le> length buf" and fit: "u + length xs \<le> n" and h: "h = (t + u) mod n"
  shows "ring_get (ring_put buf n h xs) n t (u + length xs) = ring_get buf n t u @ xs"
proof -
  have h_less: "h < n" using n h by simp
  have old: "ring_put buf n h xs ! ((t + i) mod n) = buf ! ((t + i) mod n)" if "i < u" for i
  proof -
    have "(h + (n - u + i)) mod n = (t + i) mod n"
    proof -
      have "(h + (n - u + i)) mod n = (t + u + (n - u + i)) mod n"
        by (simp add: h mod_add_left_eq)
      also have "\<dots> = (t + i + n) mod n" using that fit by (simp add: algebra_simps)
      finally show ?thesis by simp
    qed
    moreover have "length xs \<le> n - u + i" "n - u + i < n" using that fit by auto
    ultimately show ?thesis
      using ring_put_miss [of h n xs buf "n - u + i"] h_less n fit by simp
  qed
  have new: "ring_get (ring_put buf n h xs) n (t + u) (length xs) = xs"
  proof (rule nth_equalityI)
    fix i assume "i < length (ring_get (ring_put buf n h xs) n (t + u) (length xs))"
    then have i: "i < length xs" by simp
    have "(t + u + i) mod n = (h + i) mod n" by (simp add: h mod_add_left_eq)
    then show "ring_get (ring_put buf n h xs) n (t + u) (length xs) ! i = xs ! i"
      using ring_put_hit [of h n xs buf i] h_less n fit i by simp
  qed simp
  show ?thesis
    unfolding ring_get_split new using ring_get_cong [OF old] by simp
qed

text \<open>Writing byte by byte.\<close>

lemma ring_put_Nil [simp]: "h < n \<Longrightarrow> ring_put buf n h [] = buf"
  by (simp add: ring_put_def)

lemma ring_put_outside:
  assumes "h < n" "length xs \<le> n" "n \<le> j" "j < length buf"
  shows "ring_put buf n h xs ! j = buf ! j"
  using assms by (auto simp: ring_put_def Let_def nth_append min_def)

lemma ring_put_snoc:
  assumes "h < n" "length xs < n" "n \<le> length buf"
  shows "ring_put buf n h (xs @ [x]) = (ring_put buf n h xs)[(h + length xs) mod n := x]"
proof (rule nth_equalityI)
  fix j assume "j < length (ring_put buf n h (xs @ [x]))"
  then have j: "j < length buf" using assms by simp
  have m: "(h + length xs) mod n = (if h + length xs < n then h + length xs else h + length xs - n)"
    by (rule mod_wrap [OF assms(1,2)])
  show "ring_put buf n h (xs @ [x]) ! j = (ring_put buf n h xs)[(h + length xs) mod n := x] ! j"
  proof (cases "j < n")
    case True
    then show ?thesis using assms j by (auto simp: m nth_list_update nth_ring_put nth_append)
  next
    case False
    moreover have "(h + length xs) mod n < n" using assms(1) by simp
    ultimately have "(h + length xs) mod n \<noteq> j" by linarith
    then show ?thesis using False assms j by (simp add: ring_put_outside)
  qed
qed (use assms in simp)

end
