(* ===== verification/Channel.thy ===== *)
theory Channel
  imports Prelude
begin

text \<open>
  The interface between the ring buffer and its clients: a bounded channel of bytes. \<open>put\<close>
  appends what fits and says how much, \<open>get\<close> removes the oldest bytes. What clients rely
  on - first in first out, nothing lost while there is room - is proved here once, for any
  provider; the ring buffer theory interprets the locale on the code's operations.
\<close>

datatype chan_op = Put "byte list" | Get nat

text \<open>
  A history of operations: the bytes accepted and the bytes delivered, in order.
\<close>

fun chan_run ::
  "(byte list \<Rightarrow> 's \<Rightarrow> (nat \<times> 's) res) \<Rightarrow> (nat \<Rightarrow> 's \<Rightarrow> (byte list \<times> 's) res) \<Rightarrow>
   chan_op list \<Rightarrow> 's \<Rightarrow> (byte list \<times> byte list \<times> 's) res" where
  "chan_run put get [] s = Inr ([], [], s)"
| "chan_run put get (Put xs # ops) s =
     andThen (put xs s) (\<lambda>(n, s1).
     andThen (chan_run put get ops s1) (\<lambda>(acc, out, s2). Inr (take n xs @ acc, out, s2)))"
| "chan_run put get (Get n # ops) s =
     andThen (get n s) (\<lambda>(ys, s1).
     andThen (chan_run put get ops s1) (\<lambda>(acc, out, s2). Inr (acc, ys @ out, s2)))"

text \<open>Operations whose sizes a \<open>size_t\<close> can hold.\<close>

fun op_fits :: "chan_op \<Rightarrow> bool" where
  "op_fits (Put xs) \<longleftrightarrow> length xs < 2 ^ 64"
| "op_fits (Get n) \<longleftrightarrow> n < 2 ^ 64"

fun op_bytes :: "chan_op \<Rightarrow> byte list" where
  "op_bytes (Put xs) = xs"
| "op_bytes (Get n) = []"

locale byte_channel =
  fixes inv :: "'s \<Rightarrow> bool"
    and queue :: "'s \<Rightarrow> byte list"
    and cap :: "'s \<Rightarrow> nat"
    and put :: "byte list \<Rightarrow> 's \<Rightarrow> (nat \<times> 's) res"
    and get :: "nat \<Rightarrow> 's \<Rightarrow> (byte list \<times> 's) res"
  assumes queue_bound: "inv s \<Longrightarrow> length (queue s) \<le> cap s"
    and put_law: "inv s \<Longrightarrow> length xs < 2 ^ 64 \<Longrightarrow>
      \<exists>s'. put xs s = Inr (min (length xs) (cap s - length (queue s)), s') \<and> inv s' \<and>
           cap s' = cap s \<and> queue s' = queue s @ take (cap s - length (queue s)) xs"
    and get_law: "inv s \<Longrightarrow> n < 2 ^ 64 \<Longrightarrow>
      \<exists>s'. get n s = Inr (take n (queue s), s') \<and> inv s' \<and> cap s' = cap s \<and>
           queue s' = drop n (queue s)"
begin

text \<open>No history of operations goes wrong, and the bytes come out in the order they went in.\<close>

lemma run_fifo:
  assumes "inv s" and "\<forall>c \<in> set ops. op_fits c"
  shows "\<exists>acc out s'. chan_run put get ops s = Inr (acc, out, s') \<and> inv s' \<and> cap s' = cap s \<and>
    queue s @ acc = out @ queue s'"
  using assms
proof (induction ops arbitrary: s)
  case Nil
  then show ?case by simp
next
  case (Cons c ops)
  have rest: "\<forall>c \<in> set ops. op_fits c" using Cons.prems(2) by simp
  show ?case
  proof (cases c)
    case (Put xs)
    let ?room = "cap s - length (queue s)"
    obtain s1 where s1: "put xs s = Inr (min (length xs) ?room, s1)" "inv s1" "cap s1 = cap s"
      "queue s1 = queue s @ take ?room xs"
      using put_law [OF Cons.prems(1), of xs] Cons.prems(2) Put by auto
    obtain acc out s2 where s2: "chan_run put get ops s1 = Inr (acc, out, s2)" "inv s2"
      "cap s2 = cap s1" "queue s1 @ acc = out @ queue s2"
      using Cons.IH [OF s1(2) rest] by auto
    have "take (min (length xs) ?room) xs = take ?room xs" by (simp add: min_def)
    then show ?thesis using s1 s2 by (simp add: Put)
  next
    case (Get n)
    obtain s1 where s1: "get n s = Inr (take n (queue s), s1)" "inv s1" "cap s1 = cap s"
      "queue s1 = drop n (queue s)"
      using get_law [OF Cons.prems(1), of n] Cons.prems(2) Get by auto
    obtain acc out s2 where s2: "chan_run put get ops s1 = Inr (acc, out, s2)" "inv s2"
      "cap s2 = cap s1" "queue s1 @ acc = out @ queue s2"
      using Cons.IH [OF s1(2) rest] by auto
    have "queue s @ acc = take n (queue s) @ (out @ queue s2)"
      using s1(4) s2(4) by (metis append.assoc append_take_drop_id)
    then show ?thesis using s1 s2 by (simp add: Get)
  qed
qed

text \<open>While the bytes put fit beside those already queued, none is dropped.\<close>

lemma run_lossless:
  assumes "inv s" and "\<forall>c \<in> set ops. op_fits c"
    and "length (queue s) + length (concat (map op_bytes ops)) \<le> cap s"
  shows "\<exists>out s'. chan_run put get ops s = Inr (concat (map op_bytes ops), out, s') \<and> inv s' \<and>
    queue s @ concat (map op_bytes ops) = out @ queue s'"
  using assms
proof (induction ops arbitrary: s)
  case Nil
  then show ?case by simp
next
  case (Cons c ops)
  have rest: "\<forall>c \<in> set ops. op_fits c" using Cons.prems(2) by simp
  show ?case
  proof (cases c)
    case (Put xs)
    have fit: "length (queue s) + length xs \<le> cap s" using Cons.prems(3) by (simp add: Put)
    obtain s1 where s1: "put xs s = Inr (length xs, s1)" "inv s1" "cap s1 = cap s"
      "queue s1 = queue s @ xs"
      using put_law [OF Cons.prems(1), of xs] Cons.prems(2) Put fit by auto
    then show ?thesis
      using Cons.IH [OF s1(2) rest] Cons.prems(3) by (auto simp: Put)
  next
    case (Get n)
    obtain s1 where s1: "get n s = Inr (take n (queue s), s1)" "inv s1" "cap s1 = cap s"
      "queue s1 = drop n (queue s)"
      using get_law [OF Cons.prems(1), of n] Cons.prems(2) Get by auto
    have "length (queue s1) + length (concat (map op_bytes ops)) \<le> cap s1"
      using Cons.prems(3) s1 by (simp add: Get)
    then obtain out s2 where s2: "chan_run put get ops s1 = Inr (concat (map op_bytes ops), out, s2)"
      "inv s2" "queue s1 @ concat (map op_bytes ops) = out @ queue s2"
      using Cons.IH [OF s1(2) rest] by auto
    have "queue s @ concat (map op_bytes ops) = take n (queue s) @ (out @ queue s2)"
      using s1(4) s2(3) by (metis append.assoc append_take_drop_id)
    then show ?thesis using s1 s2 by (simp add: Get)
  qed
qed

text \<open>What was put on an empty channel with room is what the next read delivers.\<close>

lemma put_get_roundtrip:
  assumes "inv s" "queue s = []" "length xs \<le> cap s" "length xs < 2 ^ 64"
  shows "\<exists>s1 s2. put xs s = Inr (length xs, s1) \<and> get (length xs) s1 = Inr (xs, s2) \<and>
    queue s2 = [] \<and> inv s2"
proof -
  obtain s1 where s1: "put xs s = Inr (length xs, s1)" "inv s1" "queue s1 = xs"
    using put_law [OF assms(1,4)] assms(2,3) by auto
  obtain s2 where "get (length xs) s1 = Inr (xs, s2)" "inv s2" "queue s2 = []"
    using get_law [OF s1(2) assms(4)] s1(3) by auto
  with s1 show ?thesis by blast
qed

end

end
