(* ===== verification/RingBuffer.thy ===== *)
theory RingBuffer
  imports Platform Circular Channel
begin

text \<open>
  \<open>logging/src/ring_buffer.c\<close>: the byte queue between the logging producers and the one
  consumer. Sizes and positions are 64-bit words as \<open>size_t\<close>; the user-provided buffer is
  a list of bytes behind a pointer that may be NULL; the lock is a semaphore of the world.
  The abstraction \<open>rb_contents\<close> is the queue of bytes written and not yet read.
\<close>

section \<open>Structure and operations\<close>

record ring_buffer =
  rb_buffer :: "byte list option"
  rb_size :: u64
  rb_head :: u64
  rb_tail :: u64
  rb_lock :: LOCK_ID

text \<open>
  A NULL structure pointer is \<open>None\<close>. \<open>lock_create\<close> may fail after the structure has
  been filled in, which the code leaves as it is.
\<close>

definition ring_buffer_initialize ::
  "ring_buffer option \<Rightarrow> byte list option \<Rightarrow> u64 \<Rightarrow> world \<Rightarrow>
   (int \<times> ring_buffer option \<times> world) res" where
  "ring_buffer_initialize rb buffer len w =
     (case (rb, buffer) of
        (Some r, Some buf) \<Rightarrow>
          if len = 0 then Inr (-1, rb, w)
          else andThen (memcpy_to buf 0 (replicate (unat len) 0)) (\<lambda>buf'.
            let r1 = r\<lparr>rb_buffer := Some buf', rb_size := len, rb_head := 0, rb_tail := 0\<rparr> in
            andThen (lock_create w) (\<lambda>(l, w1).
              let r2 = r1\<lparr>rb_lock := l\<rparr> in
              if l = None then Inr (-1, Some r2, w1) else Inr (0, Some r2, w1)))
      | _ \<Rightarrow> Inr (-1, rb, w))"

definition ring_buffer_free_space_internal :: "ring_buffer \<Rightarrow> u64" where
  "ring_buffer_free_space_internal rb =
     (let head = rb_head rb in
      if rb_tail rb \<le> head then rb_size rb - (head - rb_tail rb) - 1
      else rb_tail rb - head - 1)"

definition ring_buffer_used_space_inner :: "ring_buffer \<Rightarrow> u64" where
  "ring_buffer_used_space_inner rb =
     (if rb_tail rb \<le> rb_head rb then rb_head rb - rb_tail rb
      else rb_size rb - rb_tail rb + rb_head rb)"

definition ring_buffer_free_space :: "ring_buffer option \<Rightarrow> world \<Rightarrow> (u64 \<times> world) res" where
  "ring_buffer_free_space rb w =
     (case rb of
        None \<Rightarrow> Inr (0, w)
      | Some r \<Rightarrow> andThen (lock_take (rb_lock r) w) (\<lambda>(rc, w1).
          if rc \<noteq> LOCK_SUCCESS then Inr (0, w1)
          else let free_space = ring_buffer_free_space_internal r in
            andThen (lock_give (rb_lock r) w1) (\<lambda>(_, w2). Inr (free_space, w2))))"

definition ring_buffer_used_space :: "ring_buffer option \<Rightarrow> world \<Rightarrow> (u64 \<times> world) res" where
  "ring_buffer_used_space rb w =
     (case rb of
        None \<Rightarrow> Inr (0, w)
      | Some r \<Rightarrow> andThen (lock_take (rb_lock r) w) (\<lambda>(rc, w1).
          if rc \<noteq> LOCK_SUCCESS then Inr (0, w1)
          else let used_space = ring_buffer_used_space_inner r in
            andThen (lock_give (rb_lock r) w1) (\<lambda>(_, w2). Inr (used_space, w2))))"

text \<open>
  The two-part copies of \<open>ring_buffer_write_inner\<close> and \<open>ring_buffer_read_n\<close>, before either
  moves its position. \<open>data\<close> is the memory behind the caller's pointer.
\<close>

definition ring_buffer_copy_in ::
  "ring_buffer \<Rightarrow> byte list \<Rightarrow> byte list \<Rightarrow> u64 \<Rightarrow> byte list res" where
  "ring_buffer_copy_in rb buf data len =
     (let first_chunk =
        (if rb_head rb + len > rb_size rb then rb_size rb - rb_head rb else len) in
      andThen (memcpy_from data 0 (unat first_chunk)) (\<lambda>d1.
      andThen (memcpy_to buf (unat (rb_head rb)) d1) (\<lambda>buf1.
        if first_chunk < len
        then andThen (memcpy_from data (unat first_chunk) (unat (len - first_chunk)))
               (memcpy_to buf1 0)
        else Inr buf1)))"

definition ring_buffer_copy_out ::
  "ring_buffer \<Rightarrow> byte list \<Rightarrow> byte list \<Rightarrow> u64 \<Rightarrow> byte list res" where
  "ring_buffer_copy_out rb buf data m =
     (let first_chunk =
        (if rb_tail rb + m > rb_size rb then rb_size rb - rb_tail rb else m) in
      andThen (memcpy_from buf (unat (rb_tail rb)) (unat first_chunk)) (\<lambda>c1.
      andThen (memcpy_to data 0 c1) (\<lambda>d1.
        if first_chunk < m
        then andThen (memcpy_from buf 0 (unat (m - first_chunk))) (memcpy_to d1 (unat first_chunk))
        else Inr d1)))"

definition ring_buffer_write_inner ::
  "ring_buffer \<Rightarrow> byte list \<Rightarrow> u64 \<Rightarrow> (u64 \<times> ring_buffer) res" where
  "ring_buffer_write_inner rb data len =
     (case rb_buffer rb of
        None \<Rightarrow> Inl NullDeref
      | Some buf \<Rightarrow>
          andThen (ring_buffer_copy_in rb buf data len) (\<lambda>buf2.
          if rb_size rb = 0 then Inl DivByZero
          else Inr (len, rb\<lparr>rb_buffer := Some buf2,
                            rb_head := (rb_head rb + len) mod rb_size rb\<rparr>)))"

definition ring_buffer_write_exact_n ::
  "ring_buffer option \<Rightarrow> byte list option \<Rightarrow> u64 \<Rightarrow> world \<Rightarrow>
   (u64 \<times> ring_buffer option \<times> world) res" where
  "ring_buffer_write_exact_n rb data len w =
     (case (rb, data) of
        (Some r, Some d) \<Rightarrow>
          if len = 0 then Inr (0, rb, w)
          else andThen (lock_take (rb_lock r) w) (\<lambda>(rc, w1).
            if rc \<noteq> LOCK_SUCCESS then Inr (0, rb, w1)
            else
              let free_space = ring_buffer_free_space_internal r;
                  bytes_to_write = (if len \<le> free_space then len else 0) in
              if bytes_to_write = 0
              then andThen (lock_give (rb_lock r) w1) (\<lambda>(_, w2). Inr (0, rb, w2))
              else andThen (ring_buffer_write_inner r d bytes_to_write) (\<lambda>(written, r').
                andThen (lock_give (rb_lock r') w1) (\<lambda>(_, w2). Inr (written, Some r', w2))))
      | _ \<Rightarrow> Inr (0, rb, w))"

definition ring_buffer_write_n ::
  "ring_buffer option \<Rightarrow> byte list option \<Rightarrow> u64 \<Rightarrow> world \<Rightarrow>
   (u64 \<times> ring_buffer option \<times> world) res" where
  "ring_buffer_write_n rb data len w =
     (case (rb, data) of
        (Some r, Some d) \<Rightarrow>
          if len = 0 then Inr (0, rb, w)
          else andThen (lock_take (rb_lock r) w) (\<lambda>(rc, w1).
            if rc \<noteq> LOCK_SUCCESS then Inr (0, rb, w1)
            else
              let free_space = ring_buffer_free_space_internal r;
                  bytes_to_write = (if len \<le> free_space then len else free_space) in
              if bytes_to_write = 0
              then andThen (lock_give (rb_lock r) w1) (\<lambda>(_, w2). Inr (0, rb, w2))
              else andThen (ring_buffer_write_inner r d bytes_to_write) (\<lambda>(written, r').
                andThen (lock_give (rb_lock r') w1) (\<lambda>(_, w2). Inr (written, Some r', w2))))
      | _ \<Rightarrow> Inr (0, rb, w))"

text \<open>
  The reader: its \<open>lock_take\<close> and the final \<open>lock_give\<close> are commented out in the source,
  the \<open>lock_give\<close> of the empty case is not. The destination \<open>data\<close> is returned updated.
\<close>

definition ring_buffer_read_n ::
  "ring_buffer option \<Rightarrow> byte list option \<Rightarrow> u64 \<Rightarrow> world \<Rightarrow>
   (u64 \<times> ring_buffer option \<times> byte list option \<times> world) res" where
  "ring_buffer_read_n rb data len w =
     (case (rb, data) of
        (Some r, Some d) \<Rightarrow>
          if len = 0 then Inr (0, rb, data, w)
          else
            let used_space = ring_buffer_used_space_inner r;
                bytes_to_read = (if len \<le> used_space then len else used_space) in
            if bytes_to_read = 0
            then andThen (lock_give (rb_lock r) w) (\<lambda>(_, w1). Inr (0, rb, data, w1))
            else
              (case rb_buffer r of
                 None \<Rightarrow> Inl NullDeref
               | Some buf \<Rightarrow>
                   andThen (ring_buffer_copy_out r buf d bytes_to_read) (\<lambda>d2.
                   if rb_size r = 0 then Inl DivByZero
                   else Inr (bytes_to_read,
                             Some (r\<lparr>rb_tail := (rb_tail r + bytes_to_read) mod rb_size r\<rparr>),
                             Some d2, w)))
      | _ \<Rightarrow> Inr (0, rb, data, w))"

definition ring_buffer_destroy ::
  "ring_buffer option \<Rightarrow> world \<Rightarrow> (int \<times> ring_buffer option \<times> byte list option \<times> world) res" where
  \<comment> \<open>also returned: the user's buffer, cleared\<close>
  "ring_buffer_destroy rb w =
     (case rb of
        None \<Rightarrow> Inr (-1, None, None, w)
      | Some r \<Rightarrow>
          andThen
            (case rb_buffer r of
               None \<Rightarrow> Inr None
             | Some buf \<Rightarrow> if 0 < rb_size r
                 then andThen (memcpy_to buf 0 (replicate (unat (rb_size r)) 0)) (\<lambda>b. Inr (Some b))
                 else Inr (Some buf)) (\<lambda>buf'.
          andThen
            (if rb_lock r = None then Inr (0, w) else lock_destroy (rb_lock r) w) (\<lambda>(result, w1).
          Inr (result,
               Some (r\<lparr>rb_buffer := None, rb_size := 0, rb_head := 0, rb_tail := 0,
                       rb_lock := None\<rparr>), buf', w1))))"

section \<open>The queue a ring buffer stands for\<close>

definition rb_cap :: "ring_buffer \<Rightarrow> nat" where
  "rb_cap rb = unat (rb_size rb)"

definition rb_used :: "ring_buffer \<Rightarrow> nat" where
  "rb_used rb =
     (if unat (rb_tail rb) \<le> unat (rb_head rb) then unat (rb_head rb) - unat (rb_tail rb)
      else rb_cap rb - unat (rb_tail rb) + unat (rb_head rb))"

definition rb_contents :: "ring_buffer \<Rightarrow> byte list" where
  "rb_contents rb =
     (case rb_buffer rb of None \<Rightarrow> []
      | Some buf \<Rightarrow> ring_get buf (rb_cap rb) (unat (rb_tail rb)) (rb_used rb))"

text \<open>
  Well-formed: the memory is there and at least as long as announced, both positions are
  inside. \<open>2 ^ 63\<close> is the bound C puts on the size of an object (\<open>PTRDIFF_MAX\<close>).
\<close>

definition rb_inv :: "ring_buffer \<Rightarrow> bool" where
  "rb_inv rb \<longleftrightarrow>
     (\<exists>buf. rb_buffer rb = Some buf \<and> rb_cap rb \<le> length buf) \<and>
     0 < rb_cap rb \<and> rb_cap rb \<le> 2 ^ 63 \<and>
     unat (rb_head rb) < rb_cap rb \<and> unat (rb_tail rb) < rb_cap rb"

lemma rb_invD:
  assumes "rb_inv rb"
  shows "\<exists>buf. rb_buffer rb = Some buf \<and> rb_cap rb \<le> length buf"
    "0 < rb_cap rb" "rb_cap rb \<le> 2 ^ 63"
    "unat (rb_head rb) < rb_cap rb" "unat (rb_tail rb) < rb_cap rb"
  using assms by (simp_all add: rb_inv_def)

lemma rb_used_less: "rb_inv rb \<Longrightarrow> rb_used rb < rb_cap rb"
  by (auto simp: rb_inv_def rb_used_def)

lemma length_rb_contents: "rb_inv rb \<Longrightarrow> length (rb_contents rb) = rb_used rb"
  by (auto simp: rb_inv_def rb_contents_def)

lemma rb_head_eq: "rb_inv rb \<Longrightarrow> unat (rb_head rb) = (unat (rb_tail rb) + rb_used rb) mod rb_cap rb"
  by (auto simp: rb_inv_def rb_used_def)

text \<open>From 64-bit words to natural numbers.\<close>

lemma unat_add64: "unat a + unat b < 2 ^ 64 \<Longrightarrow> unat (a + b) = unat a + unat b" for a b :: u64
  by (simp add: unat_word_ariths)

lemma unat_diff64: "b \<le> a \<Longrightarrow> unat (a - b) = unat a - unat b" for a b :: u64
  by (rule unat_sub)

lemma used_space_inner: "rb_inv rb \<Longrightarrow> unat (ring_buffer_used_space_inner rb) = rb_used rb"
  unfolding ring_buffer_used_space_inner_def rb_used_def
  using rb_invD [of rb]
  by (auto simp: word_le_nat_alt rb_cap_def unat_diff64 unat_add64)

lemma free_space_internal:
  assumes "rb_inv rb"
  shows "unat (ring_buffer_free_space_internal rb) = rb_cap rb - 1 - rb_used rb"
proof (cases "rb_tail rb \<le> rb_head rb")
  case True
  then have d: "unat (rb_head rb - rb_tail rb) = unat (rb_head rb) - unat (rb_tail rb)"
    by (rule unat_diff64)
  have le: "rb_head rb - rb_tail rb \<le> rb_size rb"
    using rb_invD [OF assms] by (simp add: word_le_nat_alt d rb_cap_def)
  have "unat (rb_size rb - (rb_head rb - rb_tail rb)) = rb_cap rb - (unat (rb_head rb) - unat (rb_tail rb))"
    by (simp only: unat_diff64 [OF le] d rb_cap_def)
  moreover from this have "1 \<le> rb_size rb - (rb_head rb - rb_tail rb)"
    using rb_invD [OF assms] by (simp add: word_le_nat_alt)
  ultimately have "unat (rb_size rb - (rb_head rb - rb_tail rb) - 1)
      = rb_cap rb - (unat (rb_head rb) - unat (rb_tail rb)) - 1"
    by (simp only: unat_diff64) simp
  then show ?thesis using True
    by (simp add: ring_buffer_free_space_internal_def rb_used_def word_le_nat_alt Let_def)
next
  case False
  then have le: "rb_head rb \<le> rb_tail rb" by simp
  have d: "unat (rb_tail rb - rb_head rb) = unat (rb_tail rb) - unat (rb_head rb)"
    by (rule unat_diff64 [OF le])
  have "1 \<le> rb_tail rb - rb_head rb" using False by (simp add: word_le_nat_alt d)
  then have "unat (rb_tail rb - rb_head rb - 1) = unat (rb_tail rb) - unat (rb_head rb) - 1"
    by (simp only: unat_diff64 d) simp
  then show ?thesis using False rb_invD [OF assms]
    by (simp add: ring_buffer_free_space_internal_def rb_used_def word_le_nat_alt Let_def)
qed

lemma copy_in_ok:
  assumes inv: "rb_inv rb" and buf: "rb_buffer rb = Some buf"
    and fit: "unat len + rb_used rb < rb_cap rb" and mem: "unat len \<le> length data"
  shows "ring_buffer_copy_in rb buf data len =
    Inr (ring_put buf (rb_cap rb) (unat (rb_head rb)) (take (unat len) data))"
proof -
  note inv' = rb_invD [OF inv]
  have n: "rb_cap rb \<le> length buf" using inv'(1) buf by auto
  have sum: "unat (rb_head rb + len) = unat (rb_head rb) + unat len"
    by (rule unat_add64) (use inv'(3,4) fit in simp)
  show ?thesis
  proof (cases "rb_head rb + len > rb_size rb")
    case True
    then have gt: "rb_cap rb < unat (rb_head rb) + unat len"
      by (simp add: word_less_nat_alt sum rb_cap_def)
    have c: "unat (rb_size rb - rb_head rb) = rb_cap rb - unat (rb_head rb)"
      using inv'(4) by (simp add: unat_diff64 word_le_nat_alt rb_cap_def)
    have lt: "rb_size rb - rb_head rb < len"
      using gt inv'(4) by (simp add: word_less_nat_alt c)
    have d: "unat (len - (rb_size rb - rb_head rb)) = unat len - (rb_cap rb - unat (rb_head rb))"
      using lt c by (simp add: unat_diff64)
    let ?k = "rb_cap rb - unat (rb_head rb)"
    have k: "?k \<le> length data" using gt mem inv'(4) by linarith
    have f1: "memcpy_from data 0 ?k = Inr (take ?k data)" using k by (simp add: memcpy_from_def)
    have t1: "memcpy_to buf (unat (rb_head rb)) (take ?k data) =
        Inr (take (unat (rb_head rb)) buf @ take ?k data @ drop (rb_cap rb) buf)" (is "_ = Inr ?buf1")
      using k n inv'(4) by (simp add: memcpy_to_def)
    have f2: "memcpy_from data ?k (unat len - ?k) = Inr (drop ?k (take (unat len) data))"
      using gt mem inv'(4) by (simp add: memcpy_from_def drop_take)
    have t2: "memcpy_to ?buf1 0 (drop ?k (take (unat len) data)) =
        Inr (ring_put buf (rb_cap rb) (unat (rb_head rb)) (take (unat len) data))"
      using gt mem n k fit inv'(4) by (simp add: memcpy_to_def ring_put_def Let_def min_absorb2)
    have "(if rb_head rb + len > rb_size rb then rb_size rb - rb_head rb else len)
        = rb_size rb - rb_head rb"
      using True by simp
    then show ?thesis
      using lt by (simp add: ring_buffer_copy_in_def Let_def c d f1 t1 f2 t2)
  next
    case False
    then have le: "unat (rb_head rb) + unat len \<le> rb_cap rb"
      by (simp add: word_less_nat_alt sum rb_cap_def)
    have f1: "memcpy_from data 0 (unat len) = Inr (take (unat len) data)"
      using mem by (simp add: memcpy_from_def)
    have t1: "memcpy_to buf (unat (rb_head rb)) (take (unat len) data) =
        Inr (ring_put buf (rb_cap rb) (unat (rb_head rb)) (take (unat len) data))"
      using le mem n by (simp add: memcpy_to_def ring_put_def Let_def)
    show ?thesis
      using False by (simp add: ring_buffer_copy_in_def Let_def f1 t1)
  qed
qed

lemma write_inner_ok:
  assumes inv: "rb_inv rb" and buf: "rb_buffer rb = Some buf"
    and fit: "unat len + rb_used rb < rb_cap rb" and mem: "unat len \<le> length data"
  shows "ring_buffer_write_inner rb data len =
    Inr (len, rb\<lparr>rb_buffer := Some (ring_put buf (rb_cap rb) (unat (rb_head rb)) (take (unat len) data)),
                 rb_head := (rb_head rb + len) mod rb_size rb\<rparr>)"
proof -
  have "rb_size rb \<noteq> 0" using rb_invD(2) [OF inv] by (auto simp: rb_cap_def)
  then show ?thesis by (simp add: ring_buffer_write_inner_def buf copy_in_ok [OF assms])
qed

text \<open>
  The copy leaves the queue alone and puts the bytes just behind it; moving the head makes
  them part of it.
\<close>

lemma copy_in_region:
  assumes inv: "rb_inv rb" and buf: "rb_buffer rb = Some buf"
    and fit: "k + rb_used rb < rb_cap rb" and xs: "length xs = k"
  defines "rb' \<equiv> rb\<lparr>rb_buffer := Some (ring_put buf (rb_cap rb) (unat (rb_head rb)) xs)\<rparr>"
  shows "rb_inv rb'" "rb_contents rb' = rb_contents rb" "rb_used rb' = rb_used rb"
    "rb_cap rb' = rb_cap rb"
    "ring_get (the (rb_buffer rb')) (rb_cap rb') (unat (rb_tail rb') + rb_used rb') k = xs"
proof -
  note inv' = rb_invD [OF inv]
  have n: "rb_cap rb \<le> length buf" using inv'(1) buf by auto
  show cap: "rb_cap rb' = rb_cap rb" and used: "rb_used rb' = rb_used rb"
    by (simp_all add: rb'_def rb_cap_def rb_used_def)
  have "ring_get (the (rb_buffer rb')) (rb_cap rb) (unat (rb_tail rb)) (rb_used rb) @
      ring_get (the (rb_buffer rb')) (rb_cap rb) (unat (rb_tail rb) + rb_used rb) k
      = ring_get buf (rb_cap rb) (unat (rb_tail rb)) (rb_used rb) @ xs"
    using ring_put_get [OF inv'(5) n _ rb_head_eq [OF inv], of xs] fit xs
    by (simp add: rb'_def flip: ring_get_split)
  then have both: "ring_get (the (rb_buffer rb')) (rb_cap rb) (unat (rb_tail rb)) (rb_used rb)
      = ring_get buf (rb_cap rb) (unat (rb_tail rb)) (rb_used rb)"
    "ring_get (the (rb_buffer rb')) (rb_cap rb) (unat (rb_tail rb) + rb_used rb) k = xs"
    by (simp_all add: append_eq_append_conv)
  have same: "rb_tail rb' = rb_tail rb" "rb_head rb' = rb_head rb"
    "rb_buffer rb' = Some (ring_put buf (rb_cap rb) (unat (rb_head rb)) xs)"
    by (simp_all add: rb'_def)
  show "rb_contents rb' = rb_contents rb"
    using both(1) by (simp add: rb_contents_def cap used same buf)
  show "ring_get (the (rb_buffer rb')) (rb_cap rb') (unat (rb_tail rb') + rb_used rb') k = xs"
    using both(2) by (simp add: cap used same)
  show "rb_inv rb'"
    using inv' n fit xs by (simp add: rb_inv_def cap same)
qed

lemma rb_head_advance:
  assumes inv: "rb_inv rb" and fit: "unat len + rb_used rb < rb_cap rb"
  defines "rb' \<equiv> rb\<lparr>rb_head := (rb_head rb + len) mod rb_size rb\<rparr>"
  shows "rb_inv rb'" "rb_cap rb' = rb_cap rb" "rb_lock rb' = rb_lock rb"
    "rb_used rb' = rb_used rb + unat len"
    "rb_contents rb' = rb_contents rb @
       ring_get (the (rb_buffer rb)) (rb_cap rb) (unat (rb_tail rb) + rb_used rb) (unat len)"
proof -
  note inv' = rb_invD [OF inv]
  obtain buf where buf: "rb_buffer rb = Some buf" "rb_cap rb \<le> length buf" using inv'(1) by auto
  have sum: "unat (rb_head rb + len) = unat (rb_head rb) + unat len"
    by (rule unat_add64) (use inv'(3,4) fit in simp)
  show cap: "rb_cap rb' = rb_cap rb" and "rb_lock rb' = rb_lock rb"
    by (simp_all add: rb'_def rb_cap_def)
  have same: "rb_tail rb' = rb_tail rb" "rb_buffer rb' = rb_buffer rb" by (simp_all add: rb'_def)
  have head: "unat (rb_head rb') = (unat (rb_tail rb) + (rb_used rb + unat len)) mod rb_cap rb"
    using rb_head_eq [OF inv]
    by (simp add: rb'_def unat_mod sum flip: rb_cap_def) (metis add.assoc mod_add_left_eq)
  show "rb_inv rb'" using inv' head by (simp add: rb_inv_def cap same)
  show used: "rb_used rb' = rb_used rb + unat len"
    using inv'(4,5) head fit unfolding rb_used_def cap same
    by (simp add: mod_wrap split: if_splits)
  show "rb_contents rb' = rb_contents rb @
       ring_get (the (rb_buffer rb)) (rb_cap rb) (unat (rb_tail rb) + rb_used rb) (unat len)"
    using buf by (simp add: rb_contents_def cap same used ring_get_split)
qed

text \<open>A write that fits extends the queue at its end and keeps the buffer well-formed.\<close>

lemma write_inner_queue:
  assumes inv: "rb_inv rb" and fit: "unat len + rb_used rb < rb_cap rb"
    and mem: "unat len \<le> length data"
  obtains rb' where "ring_buffer_write_inner rb data len = Inr (len, rb')"
    and "rb_inv rb'" and "rb_contents rb' = rb_contents rb @ take (unat len) data"
    and "rb_cap rb' = rb_cap rb" and "rb_lock rb' = rb_lock rb"
    and "rb_used rb' = rb_used rb + unat len"
proof -
  obtain buf where buf: "rb_buffer rb = Some buf" using rb_invD(1) [OF inv] by auto
  let ?xs = "take (unat len) data"
  have xs: "length ?xs = unat len" using mem by simp
  note c = copy_in_region [OF inv buf fit xs]
  let ?rb1 = "rb\<lparr>rb_buffer := Some (ring_put buf (rb_cap rb) (unat (rb_head rb)) ?xs)\<rparr>"
  have fit1: "unat len + rb_used ?rb1 < rb_cap ?rb1" using fit c(3,4) by simp
  note h = rb_head_advance [OF c(1) fit1, unfolded c(2,3,5)]
  show thesis
    by (rule that [OF write_inner_ok [OF inv buf fit mem]])
      (use h c(4) c(5) [unfolded c(3)] in \<open>simp_all add: rb_cap_def\<close>)
qed

text \<open>
  The lock is usable: created, not held, and waiting on it is not interrupted by a signal.
\<close>

definition rb_ready :: "ring_buffer \<Rightarrow> world \<Rightarrow> bool" where
  "rb_ready rb w \<longleftrightarrow>
     (\<exists>a n. rb_lock rb = Some a \<and> w_sems w a = Some n \<and> 0 < n \<and> n \<le> SEM_VALUE_MAX) \<and>
     (\<forall>k. e_sem_wait (w_env w) k)"

lemma lock_cycle:
  assumes "rb_ready rb w"
  obtains w1 w2 where "lock_take (rb_lock rb) w = Inr (LOCK_SUCCESS, w1)"
    and "lock_give (rb_lock rb) w1 = Inr (LOCK_SUCCESS, w2)"
    and "w2 = tick (tick w)"
proof -
  from assms obtain a n where a: "rb_lock rb = Some a" "w_sems w a = Some n" "0 < n" "n \<le> SEM_VALUE_MAX"
    and e: "\<forall>k. e_sem_wait (w_env w) k"
    by (auto simp: rb_ready_def)
  let ?w1 = "(tick w)\<lparr>w_sems := (w_sems w)(a := Some (n - 1))\<rparr>"
  have "lock_take (rb_lock rb) w = Inr (LOCK_SUCCESS, ?w1)"
    using a e by (simp add: lock_take_def)
  moreover have "lock_give (rb_lock rb) ?w1 = Inr (LOCK_SUCCESS, tick (tick w))"
    using a by (simp add: lock_give_def tick_def fun_upd_idem)
  ultimately show thesis by (rule that) simp
qed

lemma rb_ready_tick [simp]: "rb_ready rb (tick w) = rb_ready rb w"
  by (simp add: rb_ready_def)

lemma rb_ready_cong: "rb_lock rb' = rb_lock rb \<Longrightarrow> rb_ready rb' w = rb_ready rb w"
  by (simp add: rb_ready_def)

definition rb_room :: "ring_buffer \<Rightarrow> nat" where
  "rb_room rb = rb_cap rb - 1 - length (rb_contents rb)"

lemma rb_room_used: "rb_inv rb \<Longrightarrow> rb_room rb = rb_cap rb - 1 - rb_used rb"
  by (simp add: rb_room_def length_rb_contents)

lemma unat_of_nat_self: "word_of_nat (unat a) = a" for a :: u64
  by simp

lemma min_word_nat: "unat (if a \<le> b then a else b) = min (unat a) (unat b)" for a b :: u64
  by (simp add: word_le_nat_alt min_def)

text \<open>What a write does to the queue: it appends what fits, and its result is the count.\<close>

lemma write_n_queue:
  assumes inv: "rb_inv rb" and rdy: "rb_ready rb w" and mem: "unat len \<le> length data"
  obtains rb' w' where
    "ring_buffer_write_n (Some rb) (Some data) len w =
       Inr (word_of_nat (min (unat len) (rb_room rb)), Some rb', w')"
    and "rb_inv rb'" and "rb_ready rb' w'" and "rb_cap rb' = rb_cap rb"
    and "rb_contents rb' = rb_contents rb @ take (min (unat len) (rb_room rb)) data"
    and "w_sems w' = w_sems w" and "w_trace w' = w_trace w" and "w_log w' = w_log w"
    and "w_env w' = w_env w" and "w_fds w' = w_fds w"
proof (cases "len = 0")
  case True
  then show thesis
    using that [of rb w] inv rdy by (simp add: ring_buffer_write_n_def)
next
  case False
  obtain w1 where take1: "lock_take (rb_lock rb) w = Inr (LOCK_SUCCESS, w1)"
    and give: "lock_give (rb_lock rb) w1 = Inr (LOCK_SUCCESS, tick (tick w))"
    using lock_cycle [OF rdy] by metis
  let ?free = "ring_buffer_free_space_internal rb"
  let ?m = "if len \<le> ?free then len else ?free"
  have m: "unat ?m = min (unat len) (rb_room rb)"
    by (simp only: min_word_nat free_space_internal [OF inv] rb_room_used [OF inv])
  have word_m: "word_of_nat (min (unat len) (rb_room rb)) = ?m"
    by (simp only: m [symmetric] unat_of_nat_self)
  show thesis
  proof (cases "?m = 0")
    case True
    then have z: "min (unat len) (rb_room rb) = 0" using m by simp
    have "ring_buffer_write_n (Some rb) (Some data) len w = Inr (0, Some rb, tick (tick w))"
      using False True take1 give by (simp add: ring_buffer_write_n_def Let_def)
    then show thesis
      using that [of rb "tick (tick w)"] inv rdy z by simp
  next
    case nz: False
    have fit: "unat ?m + rb_used rb < rb_cap rb"
      using m rb_room_used [OF inv] rb_used_less [OF inv] by linarith
    have mem': "unat ?m \<le> length data" using m mem by linarith
    obtain rb' where w: "ring_buffer_write_inner rb data ?m = Inr (?m, rb')"
      and rest: "rb_inv rb'" "rb_contents rb' = rb_contents rb @ take (unat ?m) data"
        "rb_cap rb' = rb_cap rb" "rb_lock rb' = rb_lock rb"
      using write_inner_queue [OF inv fit mem'] by metis
    have eq: "ring_buffer_write_n (Some rb) (Some data) len w = Inr (?m, Some rb', tick (tick w))"
      using False nz take1 give w rest(4) by (simp add: ring_buffer_write_n_def Let_def)
    show thesis
      by (rule that [of rb' "tick (tick w)"])
        (use eq word_m rest rdy m in \<open>simp_all add: rb_ready_cong [OF rest(4)]\<close>)
  qed
qed

text \<open>The all-or-nothing write.\<close>

lemma write_exact_n_queue:
  assumes inv: "rb_inv rb" and rdy: "rb_ready rb w" and mem: "unat len \<le> length data"
  obtains rb' w' where
    "ring_buffer_write_exact_n (Some rb) (Some data) len w =
       Inr (if unat len \<le> rb_room rb then len else 0, Some rb', w')"
    and "rb_inv rb'" and "rb_ready rb' w'" and "rb_cap rb' = rb_cap rb"
    and "rb_contents rb' =
      (if unat len \<le> rb_room rb then rb_contents rb @ take (unat len) data else rb_contents rb)"
    and "w_sems w' = w_sems w"
proof (cases "len = 0")
  case True
  then show thesis
    using that [of rb w] inv rdy by (simp add: ring_buffer_write_exact_n_def)
next
  case False
  obtain w1 where take1: "lock_take (rb_lock rb) w = Inr (LOCK_SUCCESS, w1)"
    and give: "lock_give (rb_lock rb) w1 = Inr (LOCK_SUCCESS, tick (tick w))"
    using lock_cycle [OF rdy] by metis
  have free: "len \<le> ring_buffer_free_space_internal rb \<longleftrightarrow> unat len \<le> rb_room rb"
    by (simp add: word_le_nat_alt free_space_internal [OF inv] rb_room_used [OF inv])
  show thesis
  proof (cases "unat len \<le> rb_room rb")
    case no: False
    then have "ring_buffer_write_exact_n (Some rb) (Some data) len w = Inr (0, Some rb, tick (tick w))"
      using False take1 give free by (simp add: ring_buffer_write_exact_n_def Let_def)
    then show thesis
      using that [of rb "tick (tick w)"] inv rdy no by simp
  next
    case yes: True
    have fit: "unat len + rb_used rb < rb_cap rb"
      using yes rb_room_used [OF inv] rb_used_less [OF inv] by linarith
    obtain rb' where w: "ring_buffer_write_inner rb data len = Inr (len, rb')"
      and rest: "rb_inv rb'" "rb_contents rb' = rb_contents rb @ take (unat len) data"
        "rb_cap rb' = rb_cap rb" "rb_lock rb' = rb_lock rb"
      using write_inner_queue [OF inv fit mem] by metis
    have "ring_buffer_write_exact_n (Some rb) (Some data) len w = Inr (len, Some rb', tick (tick w))"
      using False yes free take1 give w rest(4) by (simp add: ring_buffer_write_exact_n_def Let_def)
    then show thesis
      using that [of rb' "tick (tick w)"] rest rdy yes by (simp add: rb_ready_cong [OF rest(4)])
  qed
qed

text \<open>The two-part copy out of the buffer.\<close>

lemma copy_out_ok:
  assumes inv: "rb_inv rb" and buf: "rb_buffer rb = Some buf"
    and m: "unat m \<le> rb_used rb" and mem: "unat m \<le> length d"
  shows "ring_buffer_copy_out rb buf d m =
    Inr (take (unat m) (rb_contents rb) @ drop (unat m) d)"
proof -
  note inv' = rb_invD [OF inv]
  have n: "rb_cap rb \<le> length buf" using inv'(1) buf by auto
  have u: "rb_used rb < rb_cap rb" by (rule rb_used_less [OF inv])
  have sum: "unat (rb_tail rb + m) = unat (rb_tail rb) + unat m"
    by (rule unat_add64) (use inv'(3,5) m u in simp)
  have "rb_contents rb = ring_get buf (rb_cap rb) (unat (rb_tail rb)) (unat m + (rb_used rb - unat m))"
    using m by (simp add: rb_contents_def buf)
  then have cont: "take (unat m) (rb_contents rb) = ring_get buf (rb_cap rb) (unat (rb_tail rb)) (unat m)"
    by (simp only: ring_get_split) simp
  note chunks = ring_get_chunks [of "unat (rb_tail rb)" "rb_cap rb" "unat m" buf, unfolded Let_def]
  show ?thesis
  proof (cases "rb_tail rb + m > rb_size rb")
    case True
    then have gt: "rb_cap rb < unat (rb_tail rb) + unat m"
      by (simp add: word_less_nat_alt sum rb_cap_def)
    define fc where "fc = rb_size rb - rb_tail rb"
    have f: "fc = rb_size rb - rb_tail rb" by (rule fc_def)
    have fc: "(if rb_tail rb + m > rb_size rb then rb_size rb - rb_tail rb else m) = fc"
      using True f by simp
    let ?k = "rb_cap rb - unat (rb_tail rb)"
    have c: "unat fc = ?k"
      using inv'(5) by (simp add: f unat_diff64 word_le_nat_alt rb_cap_def)
    have lt: "fc < m" using gt inv'(5) by (simp add: word_less_nat_alt c)
    have d: "unat (m - fc) = unat m - ?k" using lt c by (simp add: unat_diff64)
    have f1: "memcpy_from buf (unat (rb_tail rb)) ?k = Inr (take ?k (drop (unat (rb_tail rb)) buf))"
      using n inv'(5) by (simp add: memcpy_from_def)
    have k: "?k < unat m" using gt inv'(5) by linarith
    have t1: "memcpy_to d 0 (take ?k (drop (unat (rb_tail rb)) buf)) =
        Inr (take ?k (drop (unat (rb_tail rb)) buf) @ drop ?k d)"
      using n inv'(5) k mem by (simp add: memcpy_to_def)
    have f2: "memcpy_from buf 0 (unat m - ?k) = Inr (take (unat m - ?k) buf)"
      using m u n by (simp add: memcpy_from_def)
    have len1: "length (take ?k (drop (unat (rb_tail rb)) buf)) = ?k" using n inv'(5) by simp
    have len2: "length (take (unat m - ?k) buf) = unat m - ?k" using n m u by simp
    have t2: "memcpy_to (take ?k (drop (unat (rb_tail rb)) buf) @ drop ?k d) ?k
        (take (unat m - ?k) buf) =
        Inr (take ?k (drop (unat (rb_tail rb)) buf) @ take (unat m - ?k) buf @ drop (unat m) d)"
      using len1 len2 k mem by (simp add: memcpy_to_def)
    have cont': "take (unat m) (rb_contents rb) =
        take ?k (drop (unat (rb_tail rb)) buf) @ take (unat m - ?k) buf"
      using cont chunks inv'(5) m u n gt by simp
    show ?thesis
      unfolding ring_buffer_copy_out_def fc Let_def
      by (simp only: c d f1 t1 f2 t2 andThen_Inr lt if_True cont' append_assoc)
  next
    case False
    then have le: "unat (rb_tail rb) + unat m \<le> rb_cap rb"
      by (simp add: word_less_nat_alt sum rb_cap_def)
    show ?thesis
      using False le n mem cont chunks inv'(5) m u
      by (simp add: ring_buffer_copy_out_def memcpy_from_def memcpy_to_def Let_def)
  qed
qed

lemma rb_tail_advance:
  assumes inv: "rb_inv rb" and m: "unat m \<le> rb_used rb"
  defines "rb' \<equiv> rb\<lparr>rb_tail := (rb_tail rb + m) mod rb_size rb\<rparr>"
  shows "rb_inv rb'" "rb_cap rb' = rb_cap rb" "rb_lock rb' = rb_lock rb"
    "rb_contents rb' = drop (unat m) (rb_contents rb)"
proof -
  note inv' = rb_invD [OF inv]
  obtain buf where buf: "rb_buffer rb = Some buf" "rb_cap rb \<le> length buf" using inv'(1) by auto
  have u: "rb_used rb < rb_cap rb" by (rule rb_used_less [OF inv])
  have "unat (rb_tail rb + m) = unat (rb_tail rb) + unat m"
    by (rule unat_add64) (use inv'(3,5) m u in simp)
  then have tail: "unat (rb_tail rb') = (unat (rb_tail rb) + unat m) mod rb_cap rb"
    by (simp add: rb'_def unat_mod rb_cap_def)
  show cap: "rb_cap rb' = rb_cap rb" and "rb_lock rb' = rb_lock rb"
    by (simp_all add: rb'_def rb_cap_def)
  have same: "rb_buffer rb' = rb_buffer rb" "rb_head rb' = rb_head rb" by (simp_all add: rb'_def)
  show "rb_inv rb'" using inv' tail by (simp add: rb_inv_def cap same)
  have used: "rb_used rb' = rb_used rb - unat m"
    using inv'(4,5) m u tail unfolding rb_used_def cap same
    by (auto simp: mod_wrap split: if_splits)
  have "rb_contents rb = ring_get buf (rb_cap rb) (unat (rb_tail rb)) (unat m + (rb_used rb - unat m))"
    using m buf by (simp add: rb_contents_def)
  then have "drop (unat m) (rb_contents rb)
      = ring_get buf (rb_cap rb) (unat (rb_tail rb) + unat m) (rb_used rb - unat m)"
    by (simp only: ring_get_split) simp
  then show "rb_contents rb' = drop (unat m) (rb_contents rb)"
    using buf by (simp add: rb_contents_def cap same used tail ring_get_mod)
qed

text \<open>
  What a read does: the oldest bytes leave the queue in order. A read of an empty buffer
  also gives the lock it never took: the semaphore gains one.
\<close>

definition over_give :: "ring_buffer \<Rightarrow> world \<Rightarrow> world" where
  "over_give rb w =
     (case rb_lock rb of None \<Rightarrow> w
      | Some a \<Rightarrow> (case w_sems w a of None \<Rightarrow> w
         | Some n \<Rightarrow> if n < SEM_VALUE_MAX then (tick w)\<lparr>w_sems := (w_sems w)(a := Some (Suc n))\<rparr>
                    else tick w))"

lemma rb_ready_over_give: "rb_ready rb w \<Longrightarrow> rb_ready rb (over_give rb w)"
  by (auto simp: rb_ready_def over_give_def)

lemma lock_give_over: "rb_ready rb w \<Longrightarrow> \<exists>rc. lock_give (rb_lock rb) w = Inr (rc, over_give rb w)"
  by (auto simp: rb_ready_def over_give_def lock_give_def)

lemma read_n_queue:
  assumes inv: "rb_inv rb" and rdy: "rb_ready rb w" and mem: "unat len \<le> length d"
  obtains rb' w' where
    "ring_buffer_read_n (Some rb) (Some d) len w =
       Inr (word_of_nat (min (unat len) (length (rb_contents rb))), Some rb',
            Some (take (unat len) (rb_contents rb) @ drop (min (unat len) (length (rb_contents rb))) d), w')"
    and "rb_inv rb'" and "rb_ready rb' w'" and "rb_cap rb' = rb_cap rb"
    and "rb_contents rb' = drop (unat len) (rb_contents rb)"
    and "w' = (if len \<noteq> 0 \<and> rb_contents rb = [] then over_give rb w else w)"
    and "rb_lock rb' = rb_lock rb"
proof (cases "len = 0")
  case True
  then show thesis
    using that [of rb w] inv rdy by (simp add: ring_buffer_read_n_def)
next
  case False
  let ?used = "ring_buffer_used_space_inner rb"
  let ?m = "if len \<le> ?used then len else ?used"
  have m: "unat ?m = min (unat len) (length (rb_contents rb))"
    by (simp only: min_word_nat used_space_inner [OF inv] length_rb_contents [OF inv])
  have word_m: "word_of_nat (min (unat len) (length (rb_contents rb))) = ?m"
    by (simp only: m [symmetric] unat_of_nat_self)
  have len_pos: "0 < unat len" using False by (simp add: unat_gt_0)
  show thesis
  proof (cases "?m = 0")
    case True
    then have "min (unat len) (length (rb_contents rb)) = 0" using m by simp
    then have e: "rb_contents rb = []" using len_pos by (simp add: min_def split: if_splits)
    obtain rc where "lock_give (rb_lock rb) w = Inr (rc, over_give rb w)"
      using lock_give_over [OF rdy] by blast
    then have "ring_buffer_read_n (Some rb) (Some d) len w = Inr (0, Some rb, Some d, over_give rb w)"
      using False True by (simp add: ring_buffer_read_n_def Let_def)
    then show thesis
      using that [of rb "over_give rb w"] inv rb_ready_over_give [OF rdy] e False by simp
  next
    case nz: False
    then have ne: "rb_contents rb \<noteq> []" using m by (auto simp: unat_eq_0)
    obtain buf where buf: "rb_buffer rb = Some buf" using rb_invD(1) [OF inv] by auto
    have mu: "unat ?m \<le> rb_used rb" using m length_rb_contents [OF inv] by simp
    have md: "unat ?m \<le> length d" using m mem by linarith
    have size_nz: "rb_size rb \<noteq> 0" using rb_invD(2) [OF inv] by (auto simp: rb_cap_def)
    note copy = copy_out_ok [OF inv buf mu md]
    let ?rb' = "rb\<lparr>rb_tail := (rb_tail rb + ?m) mod rb_size rb\<rparr>"
    let ?d' = "take (unat ?m) (rb_contents rb) @ drop (unat ?m) d"
    have eq: "ring_buffer_read_n (Some rb) (Some d) len w = Inr (?m, Some ?rb', Some ?d', w)"
      unfolding ring_buffer_read_n_def Let_def
      by (simp only: option.case prod.case buf copy andThen_Inr False nz size_nz if_False)
    have tk: "take (unat ?m) (rb_contents rb) = take (unat len) (rb_contents rb)"
      "drop (unat ?m) (rb_contents rb) = drop (unat len) (rb_contents rb)"
      by (auto simp: m min_def)
    show thesis
    proof (rule that [of ?rb' w])
      show "ring_buffer_read_n (Some rb) (Some d) len w =
       Inr (word_of_nat (min (unat len) (length (rb_contents rb))), Some ?rb',
            Some (take (unat len) (rb_contents rb) @ drop (min (unat len) (length (rb_contents rb))) d), w)"
        by (simp only: eq word_m tk) (simp only: m)
      show "rb_contents ?rb' = drop (unat len) (rb_contents rb)"
        using rb_tail_advance(4) [OF inv mu] by (simp only: tk)
    qed (use rb_tail_advance(1-3) [OF inv mu] rdy ne in \<open>simp_all add: rb_ready_def\<close>)
  qed
qed

section \<open>The ring buffer as a byte channel\<close>

text \<open>
  The channel operations are the code's, with the source and destination memory of exactly
  the requested length.
\<close>

definition rb_put :: "byte list \<Rightarrow> ring_buffer \<times> world \<Rightarrow> (nat \<times> ring_buffer \<times> world) res" where
  "rb_put xs s =
     (case s of (rb, w) \<Rightarrow>
        andThen (ring_buffer_write_n (Some rb) (Some xs) (word_of_nat (length xs)) w)
          (\<lambda>(n, r, w1). case r of None \<Rightarrow> Inl NullDeref | Some rb' \<Rightarrow> Inr (unat n, rb', w1)))"

definition rb_get :: "nat \<Rightarrow> ring_buffer \<times> world \<Rightarrow> (byte list \<times> ring_buffer \<times> world) res" where
  "rb_get k s =
     (case s of (rb, w) \<Rightarrow>
        andThen (ring_buffer_read_n (Some rb) (Some (replicate k 0)) (word_of_nat k) w)
          (\<lambda>(n, r, d, w1). case (r, d) of
             (Some rb', Some d') \<Rightarrow> Inr (take (unat n) d', rb', w1)
           | _ \<Rightarrow> Inl NullDeref))"

definition rb_ok :: "ring_buffer \<times> world \<Rightarrow> bool" where
  "rb_ok s \<longleftrightarrow> rb_inv (fst s) \<and> rb_ready (fst s) (snd s)"

definition rb_queue :: "ring_buffer \<times> world \<Rightarrow> byte list" where
  "rb_queue s = rb_contents (fst s)"

definition rb_limit :: "ring_buffer \<times> world \<Rightarrow> nat" where
  "rb_limit s = rb_cap (fst s) - 1"

lemma unat_small64: "n < 2 ^ 64 \<Longrightarrow> unat (word_of_nat n :: u64) = n"
  by (simp add: unat_of_nat)

lemma rb_bounds:
  assumes "rb_inv rb"
  shows "length (rb_contents rb) \<le> rb_cap rb - 1" "length (rb_contents rb) < 2 ^ 64"
  using rb_used_less [OF assms] rb_invD(3) [OF assms] by (simp_all add: length_rb_contents [OF assms])

interpretation ring: byte_channel rb_ok rb_queue rb_limit rb_put rb_get
proof unfold_locales
  fix s :: "ring_buffer \<times> world"
  assume "rb_ok s"
  then show "length (rb_queue s) \<le> rb_limit s"
    using rb_bounds by (auto simp: rb_ok_def rb_queue_def rb_limit_def)
next
  fix s and xs :: "byte list"
  assume s: "rb_ok s" and xs: "length xs < 2 ^ 64"
  obtain rb w where rw: "s = (rb, w)" by fastforce
  have inv: "rb_inv rb" "rb_ready rb w" using s by (simp_all add: rb_ok_def rw)
  have n: "unat (word_of_nat (length xs) :: u64) = length xs" by (rule unat_small64 [OF xs])
  have "rb_cap rb - Suc (length (rb_contents rb)) < 2 ^ 64"
    using rb_invD(3) [OF inv(1)] by simp
  note m = unat_small64 [OF this]
  show "\<exists>s'. rb_put xs s = Inr (min (length xs) (rb_limit s - length (rb_queue s)), s') \<and> rb_ok s' \<and>
      rb_limit s' = rb_limit s \<and>
      rb_queue s' = rb_queue s @ take (rb_limit s - length (rb_queue s)) xs"
    by (rule write_n_queue [OF inv, of "word_of_nat (length xs)" xs])
      (auto simp: n m rb_put_def rb_ok_def rb_queue_def rb_limit_def rb_room_def rw min_def)
next
  fix s and k :: nat
  assume s: "rb_ok s" and k: "k < 2 ^ 64"
  obtain rb w where rw: "s = (rb, w)" by fastforce
  have inv: "rb_inv rb" "rb_ready rb w" using s by (simp_all add: rb_ok_def rw)
  have n: "unat (word_of_nat k :: u64) = k" by (rule unat_small64 [OF k])
  note m = unat_small64 [OF rb_bounds(2) [OF inv(1)]]
  show "\<exists>s'. rb_get k s = Inr (take k (rb_queue s), s') \<and> rb_ok s' \<and> rb_limit s' = rb_limit s \<and>
      rb_queue s' = drop k (rb_queue s)"
    by (rule read_n_queue [OF inv, of "word_of_nat k" "replicate k 0"])
      (auto simp: n m rb_get_def rb_ok_def rb_queue_def rb_limit_def rw min_def)
qed

text \<open>The reference for a write: byte by byte.\<close>

definition put_byte :: "byte \<Rightarrow> ring_buffer \<Rightarrow> ring_buffer" where
  "put_byte b rb =
     rb\<lparr>rb_buffer := map_option (\<lambda>buf. buf[unat (rb_head rb) := b]) (rb_buffer rb),
        rb_head := (rb_head rb + 1) mod rb_size rb\<rparr>"

lemma fold_put_byte:
  assumes inv: "rb_inv rb" and buf: "rb_buffer rb = Some buf"
  shows "length xs + rb_used rb < rb_cap rb \<Longrightarrow>
    fold put_byte xs rb = rb\<lparr>rb_buffer := Some (ring_put buf (rb_cap rb) (unat (rb_head rb)) xs),
       rb_head := (rb_head rb + word_of_nat (length xs)) mod rb_size rb\<rparr>"
proof (induction xs rule: rev_induct)
  case Nil
  have "unat (rb_head rb mod rb_size rb) = unat (rb_head rb)"
    using rb_invD(4) [OF inv] by (simp add: unat_mod rb_cap_def)
  then have "rb_head rb mod rb_size rb = rb_head rb" by (simp only: word_unat_eq_iff)
  then show ?case using rb_invD(4) [OF inv] buf by simp
next
  case (snoc x xs)
  note inv' = rb_invD [OF inv]
  let ?k = "length xs"
  have k: "?k < rb_cap rb" "?k < 2 ^ 63" using snoc.prems inv'(3) by simp_all
  have uk: "unat (word_of_nat ?k :: u64) = ?k" using k(2) by (simp add: unat_of_nat)
  have h: "unat (rb_head rb) + ?k < 2 ^ 64" using inv'(3,4) k by simp
  have sum: "unat (rb_head rb + word_of_nat ?k) = unat (rb_head rb) + ?k"
    using h by (simp add: unat_add64 uk)
  have head: "unat ((rb_head rb + word_of_nat ?k) mod rb_size rb) = (unat (rb_head rb) + ?k) mod rb_cap rb"
    by (simp only: unat_mod sum rb_cap_def)
  have lt: "(unat (rb_head rb) + ?k) mod rb_cap rb < rb_cap rb" using inv'(2) by simp
  have "unat (((rb_head rb + word_of_nat ?k) mod rb_size rb + 1) mod rb_size rb) =
      Suc ((unat (rb_head rb) + ?k) mod rb_cap rb) mod rb_cap rb"
    using head lt inv'(3) by (simp add: unat_mod unat_add64 flip: rb_cap_def)
  also have "\<dots> = (unat (rb_head rb) + Suc ?k) mod rb_cap rb" by (simp add: mod_Suc_eq)
  also have "\<dots> = unat ((rb_head rb + word_of_nat (Suc ?k)) mod rb_size rb)"
  proof -
    have "unat (word_of_nat (Suc ?k) :: u64) = Suc ?k" by (rule unat_small64) (use k in simp)
    then have "unat (rb_head rb + word_of_nat (Suc ?k)) = unat (rb_head rb) + Suc ?k"
      using inv'(3,4) k by (simp add: unat_add64 del: of_nat_Suc)
    then show ?thesis by (simp only: unat_mod rb_cap_def)
  qed
  finally have adv: "((rb_head rb + word_of_nat ?k) mod rb_size rb + 1) mod rb_size rb =
      (rb_head rb + word_of_nat (Suc ?k)) mod rb_size rb"
    by (simp only: word_unat_eq_iff)
  have n: "rb_cap rb \<le> length buf" using inv'(1) buf by auto
  show ?case
    using snoc by (simp add: put_byte_def head adv ring_put_snoc [OF inv'(4) k(1) n] del: of_nat_Suc)
qed

section \<open>Properties of the ring buffer\<close>

text \<open>An example for the witnesses: four bytes of storage, two of them queued, one free.\<close>

definition ex_rb :: ring_buffer where
  "ex_rb = \<lparr>rb_buffer = Some [10, 20, 30, 40], rb_size = 4, rb_head = 3, rb_tail = 1,
            rb_lock = Some 7\<rparr>"

definition ex_rb_world :: world where
  "ex_rb_world = ok_world\<lparr>w_sems := (\<lambda>_. None)(7 := Some 1)\<rparr>"

lemma ex_rb_ok [simp]: "rb_inv ex_rb" "rb_ready ex_rb ex_rb_world" "rb_cap ex_rb = 4"
  by (simp_all add: rb_inv_def rb_cap_def ex_rb_def rb_ready_def ex_rb_world_def)

lemma ex_rb_contents [simp]: "rb_contents ex_rb = [20, 30]"
  by code_simp

lemma ex_rb_room [simp]: "rb_room ex_rb = 1"
  by (simp add: rb_room_def)

text \<open>C9. Refinement of the two writes: with its lock usable, \<open>ring_buffer_write_n\<close> of \<open>len\<close> bytes
  returns how many fit and appends exactly these to the queue; \<open>ring_buffer_write_exact_n\<close> is all
  or nothing - the whole message is appended when it fits, otherwise the queue is left alone and
  \<open>0\<close> is returned. Both keep the buffer well-formed, give the lock back and never touch memory out
  of bounds.\<close>

theorem ring_write_appends:
  assumes "rb_inv rb" and "rb_ready rb w" and "unat len \<le> length data"
  shows "(\<exists>rb' w'. ring_buffer_write_n (Some rb) (Some data) len w =
      Inr (word_of_nat (min (unat len) (rb_room rb)), Some rb', w') \<and>
    rb_inv rb' \<and> rb_ready rb' w' \<and> rb_cap rb' = rb_cap rb \<and> w_sems w' = w_sems w \<and>
    rb_contents rb' = rb_contents rb @ take (min (unat len) (rb_room rb)) data) \<and>
   (\<exists>rb' w'. ring_buffer_write_exact_n (Some rb) (Some data) len w =
      Inr (if unat len \<le> rb_room rb then len else 0, Some rb', w') \<and>
    rb_inv rb' \<and> rb_ready rb' w' \<and> w_sems w' = w_sems w \<and>
    rb_contents rb' =
      (if unat len \<le> rb_room rb then rb_contents rb @ take (unat len) data else rb_contents rb))"
  by (rule conjI, rule write_n_queue [OF assms], blast, rule write_exact_n_queue [OF assms], blast)

theorem ring_write_appends_witness:
  "(\<exists>rb' w'. ring_buffer_write_n (Some ex_rb) (Some [1, 2, 3]) 3 ex_rb_world = Inr (1, Some rb', w') \<and>
      rb_contents rb' = [20, 30, 1]) \<and>
   (\<exists>rb' w'. ring_buffer_write_exact_n (Some ex_rb) (Some [1, 2, 3]) 3 ex_rb_world = Inr (0, Some rb', w') \<and>
      rb_contents rb' = [20, 30])"
  using ring_write_appends [of ex_rb ex_rb_world 3 "[1, 2, 3]"] by (auto simp: min_def)

text \<open>C10. The two-part copy of \<open>ring_buffer_write_inner\<close> is equivalent to storing one byte after the
  other at the head and advancing it modulo the size: for a write that fits, the resulting
  structure is the same to the last byte of the storage.\<close>

theorem ring_write_equals_bytewise:
  assumes "rb_inv rb" and "unat len + length (rb_contents rb) < rb_cap rb" and "unat len \<le> length data"
  shows "ring_buffer_write_inner rb data len = Inr (len, fold put_byte (take (unat len) data) rb)"
proof -
  obtain buf where buf: "rb_buffer rb = Some buf" using rb_invD(1) [OF assms(1)] by auto
  have fit: "unat len + rb_used rb < rb_cap rb" using assms(2) by (simp add: length_rb_contents [OF assms(1)])
  let ?xs = "take (unat len) data"
  have "length ?xs = unat len" using assms(3) by simp
  then show ?thesis
    using fold_put_byte [OF assms(1) buf, of ?xs] fit
    by (simp add: write_inner_ok [OF assms(1) buf fit assms(3)] unat_of_nat_self)
qed

theorem ring_write_equals_bytewise_witness:
  "ring_buffer_write_inner (ex_rb\<lparr>rb_tail := 2\<rparr>) [1, 2, 3] 2 =
     Inr (2, fold put_byte [1, 2] (ex_rb\<lparr>rb_tail := 2\<rparr>))"
proof -
  have "rb_inv (ex_rb\<lparr>rb_tail := 2\<rparr>)" "rb_cap (ex_rb\<lparr>rb_tail := 2\<rparr>) = 4"
    "rb_contents (ex_rb\<lparr>rb_tail := 2\<rparr>) = [30]"
    by (simp add: rb_inv_def rb_cap_def ex_rb_def) code_simp+
  then show ?thesis
    using ring_write_equals_bytewise [of "ex_rb\<lparr>rb_tail := 2\<rparr>" 2 "[1, 2, 3]"] by simp
qed

text \<open>C11. Refinement of \<open>ring_buffer_read_n\<close>: a read takes the oldest bytes off the queue in
  order, stores them at the start of the destination, leaves the rest of the destination
  alone and returns their number.\<close>

theorem ring_read_takes_oldest:
  assumes "rb_inv rb" and "rb_ready rb w" and "unat len \<le> length d"
  shows "\<exists>rb' d' w'. ring_buffer_read_n (Some rb) (Some d) len w =
      Inr (word_of_nat (min (unat len) (length (rb_contents rb))), Some rb', Some d', w') \<and>
    d' = take (unat len) (rb_contents rb) @ drop (min (unat len) (length (rb_contents rb))) d \<and>
    rb_inv rb' \<and> rb_ready rb' w' \<and> rb_contents rb' = drop (unat len) (rb_contents rb)"
  by (rule read_n_queue [OF assms]) blast

theorem ring_read_takes_oldest_witness:
  "\<exists>rb' w'. ring_buffer_read_n (Some ex_rb) (Some [0, 0, 9]) 1 ex_rb_world =
     Inr (1, Some rb', Some [20, 0, 9], w') \<and> rb_contents rb' = [30]"
  using ring_read_takes_oldest [of ex_rb ex_rb_world 1 "[0, 0, 9]"] by (auto simp: min_def)

text \<open>First in, first out over every history of writes and reads: the bytes queued at the
  start followed by all bytes accepted are the bytes delivered followed by the bytes still
  queued; and no operation of the history goes wrong.\<close>

theorem ring_fifo_history:
  assumes "rb_inv rb" and "rb_ready rb w" and "\<forall>c \<in> set ops. op_fits c"
  shows "\<exists>acc out rb' w'. chan_run rb_put rb_get ops (rb, w) = Inr (acc, out, rb', w') \<and>
    rb_inv rb' \<and> rb_contents rb @ acc = out @ rb_contents rb'"
  using ring.run_fifo [of "(rb, w)" ops] assms by (auto simp: rb_ok_def rb_queue_def)

theorem ring_fifo_history_witness:
  "\<exists>acc out rb' w'. chan_run rb_put rb_get [Put [1, 2], Get 2, Put [3], Get 4] (ex_rb, ex_rb_world) =
     Inr (acc, out, rb', w') \<and> [20, 30] @ acc = out @ rb_contents rb'"
  using ring_fifo_history [of ex_rb ex_rb_world "[Put [1, 2], Get 2, Put [3], Get 4]"] by auto

text \<open>The lock of the empty read: \<open>ring_buffer_read_n\<close> on an empty buffer gives the lock it
  never took, so a free lock (count one) ends with count two, and then two callers of
  \<open>lock_take\<close> both succeed: the writers' mutual exclusion is gone.\<close>

theorem ring_empty_read_breaks_lock:
  assumes "rb_inv rb" and "rb_contents rb = []" and "rb_lock rb = Some a"
    and "w_sems w a = Some 1" and "\<forall>k. e_sem_wait (w_env w) k" and "len \<noteq> 0"
    and "unat len \<le> length d"
  shows "\<exists>w1 w2 w3. ring_buffer_read_n (Some rb) (Some d) len w = Inr (0, Some rb, Some d, w1) \<and>
    w_sems w1 a = Some 2 \<and>
    lock_take (rb_lock rb) w1 = Inr (LOCK_SUCCESS, w2) \<and>
    lock_take (rb_lock rb) w2 = Inr (LOCK_SUCCESS, w3)"
proof -
  have used: "ring_buffer_used_space_inner rb = 0"
    using used_space_inner [OF assms(1)] length_rb_contents [OF assms(1)] assms(2)
    by (simp add: unat_eq_0)
  show ?thesis
    using assms used by (auto simp: ring_buffer_read_n_def Let_def lock_give_def lock_take_def)
qed

theorem ring_empty_read_breaks_lock_witness:
  "\<exists>w1. ring_buffer_read_n (Some (ex_rb\<lparr>rb_tail := 3\<rparr>)) (Some [0]) 1 ex_rb_world =
     Inr (0, Some (ex_rb\<lparr>rb_tail := 3\<rparr>), Some [0], w1) \<and> w_sems w1 7 = Some 2"
proof -
  have "rb_inv (ex_rb\<lparr>rb_tail := 3\<rparr>)" "rb_contents (ex_rb\<lparr>rb_tail := 3\<rparr>) = []"
    by (simp_all add: ex_rb_def rb_inv_def rb_cap_def rb_contents_def rb_used_def ring_get_def)
  then show ?thesis
    using ring_empty_read_breaks_lock [of "ex_rb\<lparr>rb_tail := 3\<rparr>" 7 ex_rb_world 1 "[0]"]
    by (auto simp: ex_rb_def ex_rb_world_def)
qed

text \<open>\<open>ring_buffer_initialize\<close> on a buffer of the announced size yields a well-formed empty
  queue with room for one byte less than the size and a lock that is free; NULL pointers
  and a zero size are refused without touching anything.\<close>

theorem ring_initialize_empty:
  assumes "len \<noteq> 0" and "unat len \<le> 2 ^ 63" and "unat len \<le> length buf"
    and "lock_create w = Inr (Some a, w1)"
  shows "(\<exists>rb'. ring_buffer_initialize (Some rb) (Some buf) len w = Inr (0, Some rb', w1) \<and>
      rb_inv rb' \<and> rb_contents rb' = [] \<and> rb_room rb' = unat len - 1 \<and>
      rb_buffer rb' = Some (replicate (unat len) 0 @ drop (unat len) buf) \<and>
      rb_lock rb' = Some a \<and> w_sems w1 a = Some 1) \<and>
    ring_buffer_initialize None b n w0 = Inr (-1, None, w0) \<and>
    ring_buffer_initialize r None n w0 = Inr (-1, r, w0) \<and>
    ring_buffer_initialize r b 0 w0 = Inr (-1, r, w0)"
proof -
  have "w_sems w1 a = Some 1"
    using assms(4)
    by (auto simp: lock_create_def malloc_def Let_def andThen_eq_Inr split: if_splits)
  then show ?thesis
    using assms
    by (auto simp: ring_buffer_initialize_def memcpy_to_def Let_def rb_inv_def rb_cap_def
        rb_contents_def rb_used_def rb_room_def ring_get_def unat_gt_0 split: option.splits)
qed

theorem ring_initialize_empty_witness:
  "\<exists>rb' w1. ring_buffer_initialize (Some ex_rb) (Some [5, 6, 7]) 3 ok_world = Inr (0, Some rb', w1) \<and>
     rb_inv rb' \<and> rb_contents rb' = [] \<and> rb_room rb' = 2"
proof -
  obtain w1 where w1: "lock_create ok_world = Inr (Some 1, w1)"
    by (simp add: lock_create_def malloc_def Let_def)
  show ?thesis
    using ring_initialize_empty [OF _ _ _ w1, of 3 "[5, 6, 7]" ex_rb, THEN conjunct1] by auto
qed

end
