(* ===== verification/RingThreads.thy ===== *)
theory RingThreads
  imports RingBuffer
begin

text \<open>
  The ring buffer between threads: any number of writers in \<open>ring_buffer_write_n\<close> and one
  reader in \<open>ring_buffer_read_n\<close>, cut into the steps between which another thread may run.
  A writer takes the lock, computes how much fits, copies, moves the head, gives the lock;
  the reader, which takes no lock, computes how much is there, copies, moves the tail - or,
  on an empty buffer, gives the lock. Ghost fields record the bytes accepted and delivered
  and whether an empty read has given the lock.
\<close>

section \<open>Steps\<close>

datatype writer_pc = WIdle | WHold "byte list" | WSized "byte list" u64 | WCopied "byte list" u64
  | WGive

datatype reader_pc = RIdle | RGive | RSized u64 | RCopied u64 "byte list"

record ring_sys =
  s_rb :: ring_buffer
  s_sem :: nat
  s_writer :: "nat \<Rightarrow> writer_pc"
  s_reader :: reader_pc
  s_accepted :: "byte list"
  s_delivered :: "byte list"
  s_leak :: bool

datatype ring_label = LTake nat "byte list" | LWriter nat | LRead u64 | LReader

definition give_sem :: "nat \<Rightarrow> nat" where
  "give_sem n = (if n < SEM_VALUE_MAX then Suc n else n)"

text \<open>
  A writer starts with the bytes of its message and takes the lock when the semaphore
  allows; the length of the message is its \<open>size\<close> argument.
\<close>

definition writer_take :: "nat \<Rightarrow> byte list \<Rightarrow> ring_sys \<Rightarrow> ring_sys option" where
  "writer_take i data s =
     (if s_writer s i = WIdle \<and> 0 < s_sem s \<and> data \<noteq> [] \<and> length data < 2 ^ 64
      then Some (s\<lparr>s_sem := s_sem s - 1, s_writer := (s_writer s)(i := WHold data)\<rparr>)
      else None)"

definition writer_step :: "nat \<Rightarrow> ring_sys \<Rightarrow> ring_sys option" where
  "writer_step i s =
     (case s_writer s i of
        WIdle \<Rightarrow> None
      | WHold data \<Rightarrow>
          let len = word_of_nat (length data);
              free_space = ring_buffer_free_space_internal (s_rb s);
              m = (if len \<le> free_space then len else free_space) in
          Some (s\<lparr>s_writer := (s_writer s)(i := (if m = 0 then WGive else WSized data m))\<rparr>)
      | WSized data m \<Rightarrow>
          (case rb_buffer (s_rb s) of
             None \<Rightarrow> None
           | Some buf \<Rightarrow>
               (case ring_buffer_copy_in (s_rb s) buf data m of
                  Inl e \<Rightarrow> None
                | Inr buf' \<Rightarrow> Some (s\<lparr>s_rb := (s_rb s)\<lparr>rb_buffer := Some buf'\<rparr>,
                                     s_writer := (s_writer s)(i := WCopied data m)\<rparr>)))
      | WCopied data m \<Rightarrow>
          Some (s\<lparr>s_rb := (s_rb s)\<lparr>rb_head := (rb_head (s_rb s) + m) mod rb_size (s_rb s)\<rparr>,
                  s_writer := (s_writer s)(i := WGive),
                  s_accepted := s_accepted s @ take (unat m) data\<rparr>)
      | WGive \<Rightarrow>
          Some (s\<lparr>s_sem := give_sem (s_sem s), s_writer := (s_writer s)(i := WIdle)\<rparr>))"

definition reader_start :: "u64 \<Rightarrow> ring_sys \<Rightarrow> ring_sys option" where
  "reader_start len s =
     (if s_reader s = RIdle \<and> len \<noteq> 0
      then let used_space = ring_buffer_used_space_inner (s_rb s);
               m = (if len \<le> used_space then len else used_space) in
        Some (s\<lparr>s_reader := (if m = 0 then RGive else RSized m)\<rparr>)
      else None)"

definition reader_step :: "ring_sys \<Rightarrow> ring_sys option" where
  "reader_step s =
     (case s_reader s of
        RIdle \<Rightarrow> None
      | RGive \<Rightarrow> Some (s\<lparr>s_sem := give_sem (s_sem s), s_leak := True, s_reader := RIdle\<rparr>)
      | RSized m \<Rightarrow>
          (case rb_buffer (s_rb s) of
             None \<Rightarrow> None
           | Some buf \<Rightarrow>
               (case ring_buffer_copy_out (s_rb s) buf (replicate (unat m) 0) m of
                  Inl e \<Rightarrow> None
                | Inr d \<Rightarrow> Some (s\<lparr>s_reader := RCopied m d\<rparr>)))
      | RCopied m d \<Rightarrow>
          Some (s\<lparr>s_rb := (s_rb s)\<lparr>rb_tail := (rb_tail (s_rb s) + m) mod rb_size (s_rb s)\<rparr>,
                  s_reader := RIdle, s_delivered := s_delivered s @ d\<rparr>))"

fun ring_step :: "ring_label \<Rightarrow> ring_sys \<Rightarrow> ring_sys option" where
  "ring_step (LTake i data) s = writer_take i data s"
| "ring_step (LWriter i) s = writer_step i s"
| "ring_step (LRead len) s = reader_start len s"
| "ring_step LReader s = reader_step s"

definition ring_start :: "ring_buffer \<Rightarrow> ring_sys" where
  "ring_start rb = \<lparr>s_rb = rb, s_sem = 1, s_writer = (\<lambda>_. WIdle), s_reader = RIdle,
     s_accepted = [], s_delivered = [], s_leak = False\<rparr>"

text \<open>Reachable from an initialised, empty ring buffer, and the run of a schedule.\<close>

inductive ring_reachable :: "ring_buffer \<Rightarrow> ring_sys \<Rightarrow> bool" for rb where
  start: "ring_reachable rb (ring_start rb)"
| step: "ring_reachable rb s \<Longrightarrow> ring_step l s = Some s' \<Longrightarrow> ring_reachable rb s'"

fun ring_exec :: "ring_label list \<Rightarrow> ring_sys \<Rightarrow> ring_sys option" where
  "ring_exec [] s = Some s"
| "ring_exec (l # ls) s = (case ring_step l s of None \<Rightarrow> None | Some s' \<Rightarrow> ring_exec ls s')"

lemma ring_exec_reachable:
  "ring_reachable rb s \<Longrightarrow> ring_exec ls s = Some s' \<Longrightarrow> ring_reachable rb s'"
  by (induction ls arbitrary: s) (auto split: option.splits intro: ring_reachable.step)

section \<open>The invariant while no empty read has given the lock\<close>

text \<open>
  What a writer past the sizing knows: its bytes fit, and after the copy they lie just
  behind the queue. What the reader knows: its bytes are the front of the queue.
\<close>

fun writer_ok :: "ring_buffer \<Rightarrow> writer_pc \<Rightarrow> bool" where
  "writer_ok rb (WSized data m) \<longleftrightarrow> unat m \<le> length data \<and> unat m + rb_used rb < rb_cap rb"
| "writer_ok rb (WCopied data m) \<longleftrightarrow> unat m \<le> length data \<and> unat m + rb_used rb < rb_cap rb \<and>
     ring_get (the (rb_buffer rb)) (rb_cap rb) (unat (rb_tail rb) + rb_used rb) (unat m)
       = take (unat m) data"
| "writer_ok rb (WHold data) \<longleftrightarrow> length data < 2 ^ 64"
| "writer_ok rb _ \<longleftrightarrow> True"

fun reader_ok :: "ring_buffer \<Rightarrow> reader_pc \<Rightarrow> bool" where
  "reader_ok rb (RSized m) \<longleftrightarrow> unat m \<le> rb_used rb"
| "reader_ok rb (RCopied m d) \<longleftrightarrow> unat m \<le> rb_used rb \<and> d = take (unat m) (rb_contents rb)"
| "reader_ok rb _ \<longleftrightarrow> True"

definition lock_ok :: "ring_sys \<Rightarrow> bool" where
  "lock_ok s \<longleftrightarrow>
     (s_sem s = 1 \<and> (\<forall>i. s_writer s i = WIdle)) \<or>
     (s_sem s = 0 \<and> (\<exists>i. s_writer s i \<noteq> WIdle \<and> (\<forall>j. j \<noteq> i \<longrightarrow> s_writer s j = WIdle)))"

definition ring_ok :: "ring_sys \<Rightarrow> bool" where
  "ring_ok s \<longleftrightarrow> rb_inv (s_rb s) \<and> lock_ok s \<and> (\<forall>i. writer_ok (s_rb s) (s_writer s i)) \<and>
     reader_ok (s_rb s) (s_reader s) \<and>
     s_accepted s = s_delivered s @ rb_contents (s_rb s)"

lemma lock_ok_upd:
  assumes "lock_ok s" "s_writer s i \<noteq> WIdle" "p \<noteq> WIdle"
    "s_sem s' = s_sem s" "s_writer s' = (s_writer s)(i := p)"
  shows "lock_ok s'"
  using assms by (auto simp: lock_ok_def)

lemma only_writer: "lock_ok s \<Longrightarrow> s_writer s i \<noteq> WIdle \<Longrightarrow> j \<noteq> i \<Longrightarrow> s_writer s j = WIdle"
  unfolding lock_ok_def by metis

lemma ring_okD:
  assumes "ring_ok s"
  shows "rb_inv (s_rb s)" "lock_ok s" "writer_ok (s_rb s) (s_writer s i)"
    "reader_ok (s_rb s) (s_reader s)" "s_accepted s = s_delivered s @ rb_contents (s_rb s)"
  using assms by (simp_all add: ring_ok_def)

text \<open>One lemma per kind of step.\<close>

lemma ring_ok_take: "ring_ok s \<Longrightarrow> writer_take i data s = Some s' \<Longrightarrow> ring_ok s'"
  by (auto simp: ring_ok_def writer_take_def lock_ok_def split: if_splits)

text \<open>A writer that moves is the only one past the lock, so only its own claim matters.\<close>

lemma ring_ok_writerI:
  assumes ok: "ring_ok s" and pc: "s_writer s i \<noteq> WIdle" and lock: "lock_ok s'"
    and wr: "s_writer s' = (s_writer s)(i := p)" and p: "writer_ok (s_rb s') p"
    and inv: "rb_inv (s_rb s')" and rd: "reader_ok (s_rb s') (s_reader s')"
    and eq: "s_accepted s' = s_delivered s' @ rb_contents (s_rb s')"
  shows "ring_ok s'"
proof -
  have "writer_ok (s_rb s') (s_writer s' j)" for j
    using p only_writer [OF ring_okD(2) [OF ok] pc, of j] by (simp add: wr)
  with lock inv rd eq show ?thesis by (simp add: ring_ok_def)
qed

lemma ring_ok_hold:
  assumes ok: "ring_ok s" and pc: "s_writer s i = WHold data" and st: "writer_step i s = Some s'"
  shows "ring_ok s'"
proof -
  let ?rb = "s_rb s"
  have inv: "rb_inv ?rb" and len: "length data < 2 ^ 64"
    using ring_okD(1) [OF ok] ring_okD(3) [OF ok, of i] pc by simp_all
  let ?free = "ring_buffer_free_space_internal ?rb"
  let ?m = "if word_of_nat (length data) \<le> ?free then word_of_nat (length data) else ?free"
  have m: "unat ?m = min (length data) (rb_cap ?rb - 1 - rb_used ?rb)"
    by (simp only: min_word_nat free_space_internal [OF inv] unat_small64 [OF len])
  have fit: "unat ?m \<le> length data" "unat ?m + rb_used ?rb < rb_cap ?rb"
    using m rb_used_less [OF inv] by linarith+
  have s': "s' = s\<lparr>s_writer := (s_writer s)(i := (if ?m = 0 then WGive else WSized data ?m))\<rparr>"
    using st pc by (simp add: writer_step_def Let_def)
  show ?thesis
  proof (rule ring_ok_writerI [OF ok, of i _ "if ?m = 0 then WGive else WSized data ?m"])
    show "lock_ok s'"
      by (rule lock_ok_upd [of s i]) (use ring_okD(2) [OF ok] pc s' in simp_all)
    show "writer_ok (s_rb s') (if ?m = 0 then WGive else WSized data ?m)"
      using fit by (simp add: s' split del: if_split) simp
  qed (use pc s' ring_okD(1,4,5) [OF ok] in simp_all)
qed

lemma ring_ok_copy:
  assumes ok: "ring_ok s" and pc: "s_writer s i = WSized data m" and st: "writer_step i s = Some s'"
  shows "ring_ok s'"
proof -
  let ?rb = "s_rb s"
  note inv = ring_okD(1) [OF ok]
  have m: "unat m \<le> length data" "unat m + rb_used ?rb < rb_cap ?rb"
    using ring_okD(3) [OF ok, of i] pc by simp_all
  obtain buf where buf: "rb_buffer ?rb = Some buf" using rb_invD(1) [OF inv] by auto
  let ?xs = "take (unat m) data"
  let ?rb' = "?rb\<lparr>rb_buffer := Some (ring_put buf (rb_cap ?rb) (unat (rb_head ?rb)) ?xs)\<rparr>"
  have xs: "length ?xs = unat m" using m by simp
  note c = copy_in_region [OF inv buf m(2) xs]
  have s': "s' = s\<lparr>s_rb := ?rb', s_writer := (s_writer s)(i := WCopied data m)\<rparr>"
    using st pc by (simp add: writer_step_def buf copy_in_ok [OF inv buf m(2,1)])
  show ?thesis
  proof (rule ring_ok_writerI [OF ok, of i _ "WCopied data m"])
    show "lock_ok s'"
      by (rule lock_ok_upd [of s i]) (use ring_okD(2) [OF ok] pc s' in simp_all)
    show "writer_ok (s_rb s') (WCopied data m)" using m c(3-5) s' by simp
    show "reader_ok (s_rb s') (s_reader s')"
      using ring_okD(4) [OF ok] c(2,3) s' by (cases "s_reader s") simp_all
  qed (use pc s' c(1,2) ring_okD(5) [OF ok] in simp_all)
qed

lemma ring_ok_head:
  assumes ok: "ring_ok s" and pc: "s_writer s i = WCopied data m" and st: "writer_step i s = Some s'"
  shows "ring_ok s'"
proof -
  let ?rb = "s_rb s"
  note inv = ring_okD(1) [OF ok]
  have m: "unat m + rb_used ?rb < rb_cap ?rb"
    "ring_get (the (rb_buffer ?rb)) (rb_cap ?rb) (unat (rb_tail ?rb) + rb_used ?rb) (unat m)
      = take (unat m) data"
    using ring_okD(3) [OF ok, of i] pc by simp_all
  note h = rb_head_advance [OF inv m(1), unfolded m(2)]
  have s': "s' = s\<lparr>s_rb := ?rb\<lparr>rb_head := (rb_head ?rb + m) mod rb_size ?rb\<rparr>,
      s_writer := (s_writer s)(i := WGive), s_accepted := s_accepted s @ take (unat m) data\<rparr>"
    using st pc by (simp add: writer_step_def)
  show ?thesis
  proof (rule ring_ok_writerI [OF ok, of i _ WGive])
    show "lock_ok s'"
      by (rule lock_ok_upd [of s i]) (use ring_okD(2) [OF ok] pc s' in simp_all)
    show "reader_ok (s_rb s') (s_reader s')"
      using ring_okD(4) [OF ok] h(4,5) s' length_rb_contents [OF inv]
      by (cases "s_reader s") simp_all
  qed (use pc s' h(1,5) ring_okD(5) [OF ok] in simp_all)
qed

lemma ring_ok_give:
  assumes ok: "ring_ok s" and pc: "s_writer s i = WGive" and st: "writer_step i s = Some s'"
  shows "ring_ok s'"
proof -
  have sem: "s_sem s = 0" using ring_okD(2) [OF ok] pc by (auto simp: lock_ok_def)
  have s': "s' = s\<lparr>s_sem := 1, s_writer := (s_writer s)(i := WIdle)\<rparr>"
    using st pc sem by (simp add: writer_step_def give_sem_def)
  have lock: "lock_ok s'"
    using only_writer [OF ring_okD(2) [OF ok], of i] pc s' by (auto simp: lock_ok_def)
  show ?thesis
    by (rule ring_ok_writerI [OF ok, of i s' WIdle, OF _ lock])
      (use pc s' ring_okD(1,4,5) [OF ok] in simp_all)
qed

lemma ring_ok_reader_start: "ring_ok s \<Longrightarrow> reader_start len s = Some s' \<Longrightarrow> ring_ok s'"
  using used_space_inner [of "s_rb s"] min_word_nat [of len "ring_buffer_used_space_inner (s_rb s)"]
  by (auto simp: ring_ok_def reader_start_def lock_ok_def Let_def word_le_nat_alt
      split: if_splits)

lemma ring_ok_reader_copy:
  assumes ok: "ring_ok s" and pc: "s_reader s = RSized m" and st: "reader_step s = Some s'"
  shows "ring_ok s'"
proof -
  note inv = ring_okD(1) [OF ok]
  have m: "unat m \<le> rb_used (s_rb s)" using ring_okD(4) [OF ok] pc by simp
  obtain buf where buf: "rb_buffer (s_rb s) = Some buf" using rb_invD(1) [OF inv] by auto
  have "s' = s\<lparr>s_reader := RCopied m (take (unat m) (rb_contents (s_rb s)))\<rparr>"
    using st pc copy_out_ok [OF inv buf m, of "replicate (unat m) 0"]
    by (simp add: reader_step_def buf)
  then show ?thesis
    using ok m by (simp add: ring_ok_def lock_ok_def)
qed

text \<open>
  Moving the tail shortens the queue at its front: what lies behind the queue stays there.
\<close>

lemma ring_ok_reader_tail:
  assumes ok: "ring_ok s" and pc: "s_reader s = RCopied m d" and st: "reader_step s = Some s'"
  shows "ring_ok s'"
proof -
  let ?rb = "s_rb s"
  let ?rb' = "?rb\<lparr>rb_tail := (rb_tail ?rb + m) mod rb_size ?rb\<rparr>"
  note inv = ring_okD(1) [OF ok]
  have m: "unat m \<le> rb_used ?rb" and d: "d = take (unat m) (rb_contents ?rb)"
    using ring_okD(4) [OF ok] pc by simp_all
  note t = rb_tail_advance [OF inv m]
  have used: "rb_used ?rb' = rb_used ?rb - unat m"
    using t(1,4) length_rb_contents [OF t(1)] length_rb_contents [OF inv] by simp
  have "unat (rb_tail ?rb + m) = unat (rb_tail ?rb) + unat m"
    by (rule unat_add64) (use rb_invD(3,5) [OF inv] m rb_used_less [OF inv] in simp)
  then have tail: "unat (rb_tail ?rb') = (unat (rb_tail ?rb) + unat m) mod rb_cap ?rb"
    by (simp add: unat_mod rb_cap_def)
  have region: "ring_get buf (rb_cap ?rb) (unat (rb_tail ?rb') + rb_used ?rb') k
      = ring_get buf (rb_cap ?rb) (unat (rb_tail ?rb) + rb_used ?rb) k" for buf :: "byte list" and k
  proof -
    have "(unat (rb_tail ?rb') + rb_used ?rb') mod rb_cap ?rb
        = (unat (rb_tail ?rb) + unat m + (rb_used ?rb - unat m)) mod rb_cap ?rb"
      by (simp only: tail used mod_add_left_eq)
    also have "unat (rb_tail ?rb) + unat m + (rb_used ?rb - unat m) = unat (rb_tail ?rb) + rb_used ?rb"
      using m by simp
    finally show ?thesis by (metis ring_get_mod)
  qed
  have s': "s' = s\<lparr>s_rb := ?rb', s_reader := RIdle, s_delivered := s_delivered s @ d\<rparr>"
    using st pc by (simp add: reader_step_def)
  have "writer_ok ?rb' p" if "writer_ok ?rb p" for p
  proof (cases p)
    case (WSized data k)
    then show ?thesis using that unfolding WSized writer_ok.simps t(2) used by linarith
  next
    case (WCopied data k)
    then show ?thesis using that unfolding WCopied writer_ok.simps t(2) region
      by (auto simp: used)
  qed (use that in simp_all)
  then show ?thesis
    using ok s' t(1,4) d by (simp add: ring_ok_def lock_ok_def)
qed

lemma ring_step_leak: "ring_step l s = Some s' \<Longrightarrow> s_leak s \<Longrightarrow> s_leak s'"
  by (cases l) (auto simp: writer_take_def writer_step_def reader_start_def reader_step_def Let_def
      split: if_splits writer_pc.splits reader_pc.splits option.splits sum.splits)

lemma ring_step_ok:
  assumes "ring_ok s" "ring_step l s = Some s'" "\<not> s_leak s'"
  shows "ring_ok s'"
proof (cases l)
  case (LTake i data)
  then show ?thesis using assms by (auto intro: ring_ok_take)
next
  case (LWriter i)
  then have "writer_step i s = Some s'" using assms(2) by simp
  note st = this
  show ?thesis
  proof (cases "s_writer s i")
    case WIdle
    then show ?thesis using st by (simp add: writer_step_def)
  next
    case (WHold data)
    then show ?thesis by (rule ring_ok_hold [OF assms(1) _ st])
  next
    case (WSized data m)
    then show ?thesis by (rule ring_ok_copy [OF assms(1) _ st])
  next
    case (WCopied data m)
    then show ?thesis by (rule ring_ok_head [OF assms(1) _ st])
  next
    case WGive
    then show ?thesis by (rule ring_ok_give [OF assms(1) _ st])
  qed
next
  case (LRead len)
  then show ?thesis using assms by (auto intro: ring_ok_reader_start)
next
  case LReader
  then have st: "reader_step s = Some s'" using assms(2) by simp
  then show ?thesis
  proof (cases "s_reader s")
    case (RSized m)
    then show ?thesis using ring_ok_reader_copy [OF assms(1) _ st] by blast
  next
    case (RCopied m d)
    then show ?thesis using ring_ok_reader_tail [OF assms(1) _ st] by blast
  qed (use st assms(3) in \<open>auto simp: reader_step_def\<close>)
qed

lemma ring_reachable_ok:
  assumes "ring_reachable rb s" "rb_inv rb" "rb_contents rb = []" "\<not> s_leak s"
  shows "ring_ok s"
  using assms
proof (induction rule: ring_reachable.induct)
  case start
  then show ?case by (simp add: ring_ok_def ring_start_def lock_ok_def)
next
  case (step s l s')
  then show ?case using ring_step_ok ring_step_leak by blast
qed

section \<open>Properties of the threads\<close>

definition idle_rb :: ring_buffer where
  "idle_rb = \<lparr>rb_buffer = Some [0, 0, 0, 0], rb_size = 4, rb_head = 0, rb_tail = 0, rb_lock = None\<rparr>"

lemma idle_rb_ok: "rb_inv idle_rb" "rb_contents idle_rb = []"
  by (simp_all add: idle_rb_def rb_inv_def rb_cap_def rb_contents_def rb_used_def ring_get_def)

text \<open>The definitions a schedule is evaluated with.\<close>

lemmas ring_eval = writer_take_def writer_step_def reader_start_def reader_step_def ring_start_def
  idle_rb_def give_sem_def Let_def ring_buffer_used_space_inner_def
  ring_buffer_free_space_internal_def ring_buffer_copy_in_def ring_buffer_copy_out_def
  memcpy_from_def memcpy_to_def rb_contents_def rb_used_def rb_cap_def ring_get_def upt_conv_Cons

text \<open>C12. As long as no empty read has given the lock, every interleaving of writers and the
  unlocked reader is correct: at most one writer is past \<open>lock_take\<close>, every writer and the
  reader in the middle of an operation can finish it without a memory fault, and the bytes
  accepted are the bytes delivered followed by the queue - nothing lost, reordered or torn.\<close>

theorem ring_threads_fifo:
  assumes "ring_reachable rb s" and "rb_inv rb" and "rb_contents rb = []" and "\<not> s_leak s"
  shows "(\<forall>i j. s_writer s i \<noteq> WIdle \<and> s_writer s j \<noteq> WIdle \<longrightarrow> i = j) \<and>
    (\<forall>i. s_writer s i \<noteq> WIdle \<longrightarrow> writer_step i s \<noteq> None) \<and>
    (s_reader s \<noteq> RIdle \<longrightarrow> reader_step s \<noteq> None) \<and>
    s_accepted s = s_delivered s @ rb_contents (s_rb s)"
proof -
  have ok: "ring_ok s" by (rule ring_reachable_ok [OF assms])
  note inv = ring_okD(1) [OF ok]
  obtain buf where buf: "rb_buffer (s_rb s) = Some buf" using rb_invD(1) [OF inv] by auto
  have "writer_step i s \<noteq> None" if "s_writer s i \<noteq> WIdle" for i
    using that ring_okD(3) [OF ok, of i] copy_in_ok [OF inv buf]
    by (cases "s_writer s i") (simp_all add: writer_step_def buf Let_def)
  moreover have "reader_step s \<noteq> None" if "s_reader s \<noteq> RIdle"
    using that ring_okD(4) [OF ok] copy_out_ok [OF inv buf]
    by (cases "s_reader s") (simp_all add: reader_step_def buf)
  ultimately show ?thesis
    using only_writer [OF ring_okD(2) [OF ok]] ring_okD(5) [OF ok] by blast
qed

theorem ring_threads_fifo_witness:
  "\<exists>s. ring_exec [LTake 0 [5, 6], LWriter 0, LWriter 0, LWriter 0, LRead 1, LReader] (ring_start idle_rb) = Some s \<and>
     s_accepted s = [5, 6] \<and> s_reader s = RCopied 1 [5] \<and>
     s_accepted s = s_delivered s @ rb_contents (s_rb s)"
proof -
  let ?r = "ring_exec [LTake 0 [5, 6], LWriter 0, LWriter 0, LWriter 0, LRead 1, LReader] (ring_start idle_rb)"
  have "case ?r of None \<Rightarrow> False
      | Some s \<Rightarrow> s_accepted s = [5, 6] \<and> s_reader s = RCopied 1 [5] \<and> \<not> s_leak s"
    by (simp add: ring_eval)
  then obtain s where s: "?r = Some s" "s_accepted s = [5, 6]" "s_reader s = RCopied 1 [5]" "\<not> s_leak s"
    by (auto simp del: ring_exec.simps split: option.splits)
  have "ring_reachable idle_rb s"
    by (rule ring_exec_reachable [OF ring_reachable.start s(1)])
  from ring_threads_fifo [OF this idle_rb_ok s(4)] s show ?thesis by blast
qed

text \<open>C32. One read of the empty buffer is enough to lose data: after it two writers hold the
  lock at once, both compute their place from the same head, and a byte whose write
  reported success is overwritten before the reader can see it.\<close>

theorem ring_threads_lost_byte:
  "\<exists>s. ring_reachable idle_rb s \<and> s_leak s \<and>
     s_writer s 0 = WGive \<and> s_writer s 1 = WGive \<and>
     s_accepted s = [1, 2] \<and> s_delivered s = [] \<and> rb_contents (s_rb s) = [2, 0]"
proof -
  let ?r = "ring_exec [LRead 1, LReader, LTake 0 [1], LTake 1 [2], LWriter 0, LWriter 1,
      LWriter 0, LWriter 1, LWriter 0, LWriter 1] (ring_start idle_rb)"
  have "case ?r of None \<Rightarrow> False
      | Some s \<Rightarrow> s_leak s \<and> s_writer s 0 = WGive \<and> s_writer s 1 = WGive \<and>
          s_accepted s = [1, 2] \<and> s_delivered s = [] \<and> rb_contents (s_rb s) = [2, 0]"
    by (simp add: ring_eval)
  then obtain s where s: "?r = Some s" "s_leak s" "s_writer s 0 = WGive" "s_writer s 1 = WGive"
    "s_accepted s = [1, 2]" "s_delivered s = []" "rb_contents (s_rb s) = [2, 0]"
    by (auto simp del: ring_exec.simps split: option.splits)
  have "ring_reachable idle_rb s"
    by (rule ring_exec_reachable [OF ring_reachable.start s(1)])
  with s(2-) show ?thesis by blast
qed

end
