(* ===== verification/Logging.thy ===== *)
theory Logging
  imports RingBuffer
begin

text \<open>
  \<open>logging/src/logging.c\<close>: the global logging configuration, the level filter, the
  assembly of a log line in a buffer of 1024 bytes, and the printer. The logger and the UDP
  broadcaster reach the ring buffer through a pointer, so ring buffers live in a store. The
  outcome of the C library's formatting is an argument: the time stamp that \<open>strftime\<close>
  produces and the text that the format string and its arguments stand for.
\<close>

section \<open>Log levels\<close>

primrec level_num :: "log_level \<Rightarrow> nat" where
  "level_num LOG_CRITICAL = 0"
| "level_num LOG_ERROR = 1"
| "level_num LOG_WARNING = 2"
| "level_num LOG_INFO = 3"
| "level_num LOG_DEBUG = 4"

lemma level_num_inj: "level_num a = level_num b \<Longrightarrow> a = b"
  by (cases a; cases b) simp_all

instantiation log_level :: linorder
begin

definition less_eq_log_level :: "log_level \<Rightarrow> log_level \<Rightarrow> bool" where
  "less_eq_log_level a b \<longleftrightarrow> level_num a \<le> level_num b"

definition less_log_level :: "log_level \<Rightarrow> log_level \<Rightarrow> bool" where
  "less_log_level a b \<longleftrightarrow> level_num a < level_num b"

instance
  by standard (auto simp: less_eq_log_level_def less_log_level_def level_num_inj)

end

lemma level_le_debug [simp]: "l \<le> LOG_DEBUG"
  by (cases l) (simp_all add: less_eq_log_level_def)

section \<open>The logger\<close>

type_synonym rb_store = "nat \<Rightarrow> ring_buffer option"

record logging_config =
  lg_ring_buffer :: "nat option"
  lg_level :: log_level

definition initial_logging_config :: logging_config where
  "initial_logging_config = \<lparr>lg_ring_buffer = None, lg_level = LOG_DEBUG\<rparr>"

definition logging_initialize :: "nat option \<Rightarrow> logging_config \<Rightarrow> int \<times> logging_config" where
  "logging_initialize rb c =
     (if rb = None then (-1, c)
      else (0, c\<lparr>lg_ring_buffer := rb, lg_level := LOG_DEBUG\<rparr>))"

definition logging_set_level :: "log_level \<Rightarrow> logging_config \<Rightarrow> logging_config" where
  "logging_set_level l c = c\<lparr>lg_level := l\<rparr>"

definition logging_get_level :: "logging_config \<Rightarrow> log_level" where
  "logging_get_level c = lg_level c"

definition logging_shutdown :: "logging_config \<Rightarrow> logging_config" where
  "logging_shutdown c = c\<lparr>lg_ring_buffer := None, lg_level := LOG_DEBUG\<rparr>"

text \<open>
  \<open>strftime\<close> yields \<open>0\<close> bytes when the stamp and its terminator do not fit; the stamp is
  empty when the clock or \<open>localtime_r\<close> fails. \<open>vsnprintf\<close> stores what fits before the
  terminator and returns the full length of the text, or a negative number on an error
  (\<open>None\<close>). The bytes of the buffer beyond what was written are never read.
\<close>

abbreviation TEMP_SIZE :: nat where "TEMP_SIZE \<equiv> 1024"

definition strftime_out :: "byte list \<Rightarrow> byte list" where
  "strftime_out stamp = (if length stamp < TEMP_SIZE then stamp else [])"

definition log_line_buffer :: "byte list \<Rightarrow> byte list option \<Rightarrow> byte list" where
  "log_line_buffer stamp body =
     (let s = strftime_out stamp;
          remaining_space = TEMP_SIZE - length s;
          t = (case body of None \<Rightarrow> [] | Some t \<Rightarrow> take (remaining_space - 1) t @ [0])
      in s @ t @ replicate (TEMP_SIZE - length s - length t) 0)"

definition log_line_length :: "byte list \<Rightarrow> byte list option \<Rightarrow> nat" where
  "log_line_length stamp body =
     (let s = strftime_out stamp;
          remaining_space = TEMP_SIZE - length s in
      case body of
        None \<Rightarrow> length s
      | Some t \<Rightarrow> if 0 < length t
          then (if length t < remaining_space then length t + length s else TEMP_SIZE - 1)
          else length s)"

definition write_log_message ::
  "log_level \<Rightarrow> byte list \<Rightarrow> byte list option \<Rightarrow> logging_config \<Rightarrow> rb_store \<Rightarrow> world \<Rightarrow>
   (int \<times> rb_store \<times> world) res" where
  "write_log_message level stamp body c st w =
     (case lg_ring_buffer c of
        None \<Rightarrow> Inr (-1, st, w)
      | Some p \<Rightarrow>
          if lg_level c < level then Inr (0, st, w)
          else
            (case st p of
               None \<Rightarrow> Inl UseAfterFree
             | Some rb \<Rightarrow>
                 andThen (ring_buffer_write_n (Some rb) (Some (log_line_buffer stamp body))
                            (word_of_nat (log_line_length stamp body)) w)
                   (\<lambda>(n, r, w1). Inr (sint (ucast n :: 32 word), st(p := r), w1))))"

text \<open>
  The macros \<open>pr_crit\<close> to \<open>pr_debug\<close> put a letter for the level before the format and end the
  line: the text that a level and a formatted message stand for.
\<close>

primrec level_letter :: "log_level \<Rightarrow> char" where
  "level_letter LOG_CRITICAL = CHR ''C''"
| "level_letter LOG_ERROR = CHR ''E''"
| "level_letter LOG_WARNING = CHR ''W''"
| "level_letter LOG_INFO = CHR ''I''"
| "level_letter LOG_DEBUG = CHR ''D''"

definition log_macro_text :: "log_level \<Rightarrow> string \<Rightarrow> byte list" where
  "log_macro_text l msg = map of_char (''-'' @ [level_letter l] @ ''-'' @ msg @ [CHR 0x0D, CHR 0x0A])"

text \<open>C strings end at the first zero byte.\<close>

definition c_string :: "byte list \<Rightarrow> byte list" where
  "c_string bs = takeWhile (\<lambda>b. b \<noteq> 0) bs"

definition log_to_stdout :: "logging_config \<Rightarrow> rb_store \<Rightarrow> world \<Rightarrow> (rb_store \<times> world) res" where
  "log_to_stdout c st w =
     (case lg_ring_buffer c of
        None \<Rightarrow> Inr (st, w)
      | Some p \<Rightarrow>
          (case st p of
             None \<Rightarrow> Inl UseAfterFree
           | Some rb \<Rightarrow>
               andThen (ring_buffer_read_n (Some rb) (Some (replicate TEMP_SIZE 0))
                          (word_of_nat (TEMP_SIZE - 1)) w)
                 (\<lambda>(bytes_read, r, d, w1).
                   let st1 = st(p := r) in
                   if bytes_read = 0 then Inr (st1, w1)
                   else
                     (case d of
                        None \<Rightarrow> Inl NullDeref
                      | Some d1 \<Rightarrow>
                          andThen (memcpy_to d1 (unat bytes_read) [0]) (\<lambda>buffer.
                            let message = c_string buffer in
                            if length message = 0 then Inr (st1, w1)
                            else Inr (st1, emit (EvPrint message) w1))))))"

section \<open>Facts about a log line\<close>

lemma strftime_out_length: "length (strftime_out stamp) < TEMP_SIZE"
  by (simp add: strftime_out_def)

lemma log_line_length_bound: "log_line_length stamp body < TEMP_SIZE"
  using strftime_out_length [of stamp]
  by (auto simp: log_line_length_def Let_def split: option.split)

lemma log_line_buffer_length: "length (log_line_buffer stamp body) = TEMP_SIZE"
  using strftime_out_length [of stamp]
  by (auto simp: log_line_buffer_def Let_def split: option.split)

text \<open>The line: stamp and text, cut to 1023 bytes.\<close>

definition log_line :: "byte list \<Rightarrow> byte list option \<Rightarrow> byte list" where
  "log_line stamp body =
     take (TEMP_SIZE - 1) (strftime_out stamp @ (case body of None \<Rightarrow> [] | Some t \<Rightarrow> t))"

lemma log_line_buffer_prefix:
  "take (log_line_length stamp body) (log_line_buffer stamp body) = log_line stamp body"
  using strftime_out_length [of stamp]
  by (auto simp: log_line_length_def log_line_buffer_def log_line_def Let_def split: option.split)

lemma length_log_line: "length (log_line stamp body) = log_line_length stamp body"
  using log_line_buffer_prefix [of stamp body, symmetric] log_line_buffer_length [of stamp body]
    log_line_length_bound [of stamp body]
  by simp

lemma log_line_word: "unat (word_of_nat (log_line_length stamp body) :: u64) = log_line_length stamp body"
  by (rule unat_small64) (use log_line_length_bound [of stamp body] in simp)

lemma small_return: "n < 2 ^ 31 \<Longrightarrow> sint (ucast (word_of_nat n :: u64) :: 32 word) = int n"
  by (simp add: unsigned_of_nat sint_uint uint_nat signed_take_bit_int_eq_self
      take_bit_nat_eq_self unat_of_nat flip: of_nat_take_bit)

text \<open>A message that passes the filter is written to the ring buffer as far as it fits.\<close>

lemma write_log_message_ok:
  assumes cfg: "lg_ring_buffer c = Some p" "st p = Some rb" "level \<le> lg_level c"
    and rb: "rb_inv rb" "rb_ready rb w"
  obtains rb' w' where
    "write_log_message level stamp body c st w =
       Inr (int (min (log_line_length stamp body) (rb_room rb)), st(p := Some rb'), w')"
    and "rb_inv rb'" and "rb_ready rb' w'" and "rb_cap rb' = rb_cap rb"
    and "rb_contents rb' = rb_contents rb @ take (rb_room rb) (log_line stamp body)"
    and "w_trace w' = w_trace w" and "w_env w' = w_env w" and "w_fds w' = w_fds w"
proof -
  let ?len = "word_of_nat (log_line_length stamp body) :: u64"
  let ?d = "log_line_buffer stamp body"
  have mem: "unat ?len \<le> length ?d"
    using log_line_length_bound [of stamp body] by (simp add: log_line_word log_line_buffer_length)
  obtain rb' w' where wr: "ring_buffer_write_n (Some rb) (Some ?d) ?len w =
      Inr (word_of_nat (min (unat ?len) (rb_room rb)), Some rb', w')"
    and r: "rb_inv rb'" "rb_ready rb' w'" "rb_cap rb' = rb_cap rb"
      "rb_contents rb' = rb_contents rb @ take (min (unat ?len) (rb_room rb)) ?d"
      "w_trace w' = w_trace w" "w_env w' = w_env w" "w_fds w' = w_fds w"
    by (rule write_n_queue [OF rb mem]) blast
  let ?m = "min (log_line_length stamp body) (rb_room rb)"
  have m: "?m < 2 ^ 31" using log_line_length_bound [of stamp body] by simp
  have bytes: "take ?m ?d = take (rb_room rb) (log_line stamp body)"
    by (simp add: log_line_buffer_prefix [symmetric] min.commute flip: take_take)
  have pass: "\<not> lg_level c < level" using cfg(3) by simp
  have "write_log_message level stamp body c st w = Inr (int ?m, st(p := Some rb'), w')"
    using cfg wr small_return [OF m] pass by (simp add: write_log_message_def log_line_word)
  then show thesis
    by (rule that) (use r bytes in \<open>simp_all add: log_line_word\<close>)
qed

text \<open>A sequence of messages, logged one after the other.\<close>

fun log_all ::
  "(log_level \<times> byte list \<times> byte list option) list \<Rightarrow> logging_config \<Rightarrow> rb_store \<Rightarrow> world \<Rightarrow>
   (rb_store \<times> world) res" where
  "log_all [] c st w = Inr (st, w)"
| "log_all ((level, stamp, body) # ms) c st w =
     andThen (write_log_message level stamp body c st w) (\<lambda>(_, st1, w1). log_all ms c st1 w1)"

fun log_lines :: "log_level \<Rightarrow> (log_level \<times> byte list \<times> byte list option) list \<Rightarrow> byte list" where
  "log_lines cur [] = []"
| "log_lines cur ((level, stamp, body) # ms) =
     (if level \<le> cur then log_line stamp body else []) @ log_lines cur ms"

section \<open>Properties of the logger\<close>

definition ex_log_cfg :: logging_config where
  "ex_log_cfg = \<lparr>lg_ring_buffer = Some 5, lg_level = LOG_WARNING\<rparr>"

definition ex_log_store :: rb_store where
  "ex_log_store = (\<lambda>_. None)(5 := Some (ex_rb\<lparr>rb_tail := 3\<rparr>))"

lemma ex_log_ok [simp]: "rb_inv (ex_rb\<lparr>rb_tail := 3\<rparr>)" "rb_ready (ex_rb\<lparr>rb_tail := 3\<rparr>) ex_rb_world"
  "rb_contents (ex_rb\<lparr>rb_tail := 3\<rparr>) = []" "rb_room (ex_rb\<lparr>rb_tail := 3\<rparr>) = 3"
  by (simp_all add: ex_rb_def ex_rb_world_def rb_inv_def rb_ready_def rb_cap_def rb_contents_def
      rb_used_def ring_get_def rb_room_def)

text \<open>C26. \<open>write_log_message\<close>: a message above the current level changes nothing and returns
  \<open>0\<close>; any other appends the line - stamp and text, cut to 1023 bytes - to the ring buffer
  as far as it fits, and returns the number of bytes written (not, as the header says, the
  number not written).\<close>

theorem log_message_filter_and_append:
  assumes "lg_ring_buffer c = Some p" and "st p = Some rb" and "rb_inv rb" and "rb_ready rb w"
  shows "if level \<le> lg_level c
    then \<exists>rb' w'. write_log_message level stamp body c st w =
        Inr (int (min (log_line_length stamp body) (rb_room rb)), st(p := Some rb'), w') \<and>
      rb_inv rb' \<and> length (log_line stamp body) < 1024 \<and>
      rb_contents rb' = rb_contents rb @ take (rb_room rb) (log_line stamp body)
    else write_log_message level stamp body c st w = Inr (0, st, w)"
proof (cases "level \<le> lg_level c")
  case True
  then show ?thesis
    by (simp add: length_log_line log_line_length_bound)
      (rule write_log_message_ok [of c p st rb level w stamp body, OF assms(1,2) True assms(3,4)], blast)
next
  case False
  then have "lg_level c < level" by simp
  with False show ?thesis using assms(1) by (simp add: write_log_message_def del: not_le)
qed

theorem log_message_filter_and_append_witness:
  "write_log_message LOG_INFO [65] (Some [66]) ex_log_cfg ex_log_store ex_rb_world =
     Inr (0, ex_log_store, ex_rb_world) \<and>
   (\<exists>rb' w'. write_log_message LOG_ERROR [65] (Some [66]) ex_log_cfg ex_log_store ex_rb_world =
     Inr (2, ex_log_store(5 := Some rb'), w') \<and> rb_contents rb' = [65, 66])"
proof -
  have line: "log_line [65] (Some [66]) = [65, 66]" "log_line_length [65] (Some [66]) = 2"
    by (simp_all add: log_line_def log_line_length_def strftime_out_def)
  show ?thesis
    using log_message_filter_and_append [of ex_log_cfg 5 ex_log_store "ex_rb\<lparr>rb_tail := 3\<rparr>" ex_rb_world
        LOG_INFO "[65]" "Some [66]"]
      log_message_filter_and_append [of ex_log_cfg 5 ex_log_store "ex_rb\<lparr>rb_tail := 3\<rparr>" ex_rb_world
        LOG_ERROR "[65]" "Some [66]"]
    by (auto simp: ex_log_cfg_def ex_log_store_def less_eq_log_level_def line)
qed

text \<open>Messages stay in order: while the lines that pass the filter fit, logging a sequence
  of messages appends exactly these lines, one after the other.\<close>

theorem log_all_in_order:
  assumes "lg_ring_buffer c = Some p" and "st p = Some rb" and "rb_inv rb" and "rb_ready rb w"
    and "length (log_lines (lg_level c) ms) \<le> rb_room rb"
  shows "\<exists>st' rb' w'. log_all ms c st w = Inr (st', w') \<and> st' p = Some rb' \<and> rb_inv rb' \<and>
    rb_contents rb' = rb_contents rb @ log_lines (lg_level c) ms"
  using assms(2-5)
proof (induction ms arbitrary: st rb w)
  case Nil
  then show ?case by simp
next
  case (Cons msg ms)
  obtain level stamp body where msg: "msg = (level, stamp, body)" by (cases msg)
  show ?case
  proof (cases "level \<le> lg_level c")
    case False
    then have "write_log_message level stamp body c st w = Inr (0, st, w)"
      using assms(1) by (simp add: write_log_message_def not_le)
    then show ?thesis using Cons.IH [of st rb w, OF Cons.prems(1-3)] Cons.prems(4) False by (simp add: msg)
  next
    case True
    obtain rb1 w1 where wr: "write_log_message level stamp body c st w =
        Inr (int (min (log_line_length stamp body) (rb_room rb)), st(p := Some rb1), w1)"
      and rb1: "rb_inv rb1" "rb_ready rb1 w1" "rb_cap rb1 = rb_cap rb"
        "rb_contents rb1 = rb_contents rb @ take (rb_room rb) (log_line stamp body)"
      by (rule write_log_message_ok [of c p st rb level w stamp body, OF assms(1) Cons.prems(1) True Cons.prems(2,3)]) blast
    have fit: "length (log_line stamp body) + length (log_lines (lg_level c) ms) \<le> rb_room rb"
      using Cons.prems(4) True by (simp add: msg)
    have "length (log_lines (lg_level c) ms) \<le> rb_room rb1"
      using fit rb1(3,4) by (simp add: rb_room_def)
    then show ?thesis
      using Cons.IH [of "st(p := Some rb1)" rb1 w1] rb1 wr fit True
      by (simp add: msg del: fun_upd_apply) simp
  qed
qed

theorem log_all_in_order_witness:
  "\<exists>st' rb' w'. log_all [(LOG_ERROR, [], Some [65]), (LOG_DEBUG, [], Some [66]), (LOG_WARNING, [67], None)]
      ex_log_cfg ex_log_store ex_rb_world = Inr (st', w') \<and> st' 5 = Some rb' \<and> rb_contents rb' = [65, 67]"
  using log_all_in_order [of ex_log_cfg 5 ex_log_store "ex_rb\<lparr>rb_tail := 3\<rparr>" ex_rb_world
      "[(LOG_ERROR, [], Some [65]), (LOG_DEBUG, [], Some [66]), (LOG_WARNING, [67], None)]"]
  by (auto simp: ex_log_cfg_def ex_log_store_def less_eq_log_level_def log_line_def strftime_out_def)

end
