(* ===== verification/UdpBroadcast.thy ===== *)
theory UdpBroadcast
  imports Logging
begin

unbundle bit_operations_syntax

text \<open>
  \<open>logging/src/udp_broadcast.c\<close>: log lines leave the ring buffer as UDP broadcasts, one
  datagram per network interface. A configuration has room for sixteen interfaces; what
  \<open>getifaddrs\<close> reports is an answer of the environment. The broadcaster's own error
  messages go through \<open>write_log_message\<close> into the ring buffer it is reading from. The
  \<open>printf\<close> diagnostics of the set-up are not modelled; \<open>puts\<close> of the message is.
\<close>

section \<open>Configuration\<close>

abbreviation UDP_BROADCAST_MAX_INTERFACES :: nat where "UDP_BROADCAST_MAX_INTERFACES \<equiv> 16"
abbreviation UDP_BROADCAST_BUFFER_SIZE :: nat where "UDP_BROADCAST_BUFFER_SIZE \<equiv> 1024"

definition UDP_BROADCAST_DEFAULT_PORT :: i32 where
  "UDP_BROADCAST_DEFAULT_PORT = 21789"

record udp_interface =
  ui_dest_addr :: sockaddr_in
  ui_socket_fd :: int
  ui_name :: string                  \<comment> \<open>\<open>char [16]\<close>, up to its terminator\<close>

record udp_broadcast_config =
  ub_interfaces :: "udp_interface list"   \<comment> \<open>\<open>UDP_BROADCAST_MAX_INTERFACES\<close> of them\<close>
  ub_count :: int
  ub_port :: i32
  ub_ring_buffer :: "nat option"

text \<open>All bytes zero: what \<open>memset\<close> leaves.\<close>

definition zero_interface :: udp_interface where
  "zero_interface =
     \<lparr>ui_dest_addr = \<lparr>sin_family = 0, sin_port = 0, sin_addr = 0\<rparr>, ui_socket_fd = 0, ui_name = []\<rparr>"

definition zero_config :: udp_broadcast_config where
  "zero_config =
     \<lparr>ub_interfaces = replicate UDP_BROADCAST_MAX_INTERFACES zero_interface, ub_count = 0,
      ub_port = 0, ub_ring_buffer = None\<rparr>"

section \<open>Setting up the interfaces\<close>

definition udp_broadcast_create_socket :: "world \<Rightarrow> int \<times> world" where
  "udp_broadcast_create_socket w =
     (let (sockfd, w1) = platform_socket w in
      if sockfd < 0 then (-1, w1)
      else let (rc, w2) = platform_setsockopt sockfd w1 in
        if rc < 0 then let (_, w3) = platform_close sockfd w2 in (-1, w3)
        else (sockfd, w2))"

text \<open>
  The tests of the loop of \<open>udp_broadcast_gather_interfaces\<close> up to the first write: an
  entry that passes them all gives its broadcast address.
\<close>

definition broadcast_target :: "string option \<Rightarrow> ifaddrs \<Rightarrow> sockaddr_in option" where
  "broadcast_target specific ifa =
     (if ifa_family ifa \<noteq> Some AF_INET then None
      else if ifa_flags ifa AND 0x2 = 0 then None
      else if ifa_flags ifa AND 0x1 = 0 then None
      else if ifa_flags ifa AND 0x8 \<noteq> 0 then None
      else if specific \<noteq> None \<and> specific \<noteq> Some (ifa_name ifa) then None
      else ifa_broadaddr ifa)"

definition gather_interface ::
  "string option \<Rightarrow> ifaddrs \<Rightarrow> udp_broadcast_config \<Rightarrow> world \<Rightarrow> (udp_broadcast_config \<times> world) res" where
  "gather_interface specific ifa c w =
     (case broadcast_target specific ifa of
        None \<Rightarrow> Inr (c, w)
      | Some b \<Rightarrow>
          let n = nat (ub_count c); (fd, w1) = udp_broadcast_create_socket w in
          if length (ub_interfaces c) \<le> n then Inl OutOfBounds
          else if fd < 0
          then Inr (c\<lparr>ub_interfaces := (ub_interfaces c)
                        [n := (ub_interfaces c ! n)\<lparr>ui_socket_fd := fd\<rparr>]\<rparr>, w1)
          else Inr (c\<lparr>ub_interfaces := (ub_interfaces c)
                        [n := \<lparr>ui_dest_addr = b\<lparr>sin_port := platform_htons (ucast (ub_port c))\<rparr>,
                               ui_socket_fd = fd, ui_name = take 15 (ifa_name ifa)\<rparr>],
                      ub_count := ub_count c + 1\<rparr>, w1))"

fun gather_loop ::
  "string option \<Rightarrow> ifaddrs list \<Rightarrow> udp_broadcast_config \<Rightarrow> world \<Rightarrow> (udp_broadcast_config \<times> world) res" where
  "gather_loop specific [] c w = Inr (c, w)"
| "gather_loop specific (ifa # ifas) c w =
     andThen (gather_interface specific ifa c w) (\<lambda>(c1, w1). gather_loop specific ifas c1 w1)"

definition udp_broadcast_gather_interfaces ::
  "udp_broadcast_config \<Rightarrow> string option \<Rightarrow> world \<Rightarrow> (int \<times> udp_broadcast_config \<times> world) res" where
  "udp_broadcast_gather_interfaces c specific w =
     (let c1 = c\<lparr>ub_count := 0\<rparr> in
      case getifaddrs w of
        (None, w1) \<Rightarrow> Inr (-1, c1, w1)
      | (Some ifas, w1) \<Rightarrow>
          andThen (gather_loop specific ifas c1 w1) (\<lambda>(c2, w2).
            Inr (if ub_count c2 = 0 then -1 else 0, c2, w2)))"

definition udp_broadcast_initialize ::
  "udp_broadcast_config option \<Rightarrow> nat option \<Rightarrow> i32 \<Rightarrow> string option \<Rightarrow> world \<Rightarrow>
   (int \<times> udp_broadcast_config option \<times> world) res" where
  "udp_broadcast_initialize config rb port specific w =
     (if config = None \<or> rb = None then Inr (-1, config, w)
      else
        let c = zero_config\<lparr>ub_ring_buffer := rb,
                  ub_port := (if 0 < sint port then port else UDP_BROADCAST_DEFAULT_PORT)\<rparr> in
        andThen (udp_broadcast_gather_interfaces c specific w) (\<lambda>(rc, c1, w1).
          Inr (rc, Some c1, w1)))"

section \<open>Sending\<close>

definition send_failed_text :: "string \<Rightarrow> byte list" where
  "send_failed_text name =
     log_macro_text LOG_ERROR (''UDP broadcast: Failed to send on interface '' @ name)"

text \<open>
  The sending loop. \<open>stamps\<close> is what \<open>strftime\<close> produces for the error messages, by
  interface index; \<open>lc\<close> is the logger's configuration.
\<close>

fun send_to_interfaces ::
  "logging_config \<Rightarrow> (nat \<Rightarrow> byte list) \<Rightarrow> nat \<Rightarrow> byte list \<Rightarrow> udp_interface list \<Rightarrow> rb_store \<Rightarrow> world \<Rightarrow>
   (rb_store \<times> world) res" where
  "send_to_interfaces lc stamps i msg [] st w = Inr (st, w)"
| "send_to_interfaces lc stamps i msg (u # us) st w =
     (let (sent, w1) = platform_sendto (ui_socket_fd u) msg (ui_dest_addr u) w in
      andThen
        (if sent < 0
         then andThen (write_log_message LOG_ERROR (stamps i) (Some (send_failed_text (ui_name u))) lc st w1)
                (\<lambda>(_, st2, w2). Inr (st2, w2))
         else Inr (st, w1))
        (\<lambda>(st2, w2). send_to_interfaces lc stamps (Suc i) msg us st2 w2))"

text \<open>
  \<open>buffer\<close> is a local array whose contents before the read do not matter: here zeros.
\<close>

definition process_log_message ::
  "logging_config \<Rightarrow> (nat \<Rightarrow> byte list) \<Rightarrow> udp_broadcast_config option \<Rightarrow> rb_store \<Rightarrow> world \<Rightarrow>
   (int \<times> rb_store \<times> world) res" where
  "process_log_message lc stamps config st w =
     (case config of
        None \<Rightarrow> Inr (-1, st, w)
      | Some c \<Rightarrow>
          (case ub_ring_buffer c of
             None \<Rightarrow> Inr (-1, st, w)
           | Some p \<Rightarrow>
               (case st p of
                  None \<Rightarrow> Inl UseAfterFree
                | Some rb \<Rightarrow>
                    andThen (ring_buffer_read_n (Some rb) (Some (replicate UDP_BROADCAST_BUFFER_SIZE 0))
                               (word_of_nat (UDP_BROADCAST_BUFFER_SIZE - 1)) w)
                      (\<lambda>(bytes_read, r, d, w1).
                        let st1 = st(p := r) in
                        if bytes_read = 0 then Inr (0, st1, w1)
                        else
                          (case d of
                             None \<Rightarrow> Inl NullDeref
                           | Some d1 \<Rightarrow>
                               andThen (memcpy_to d1 (unat bytes_read) [0]) (\<lambda>buffer.
                                 let message = c_string buffer in
                                 if length message = 0 then Inr (0, st1, w1)
                                 else if length (ub_interfaces c) < nat (ub_count c) then Inl OutOfBounds
                                 else
                                   andThen (send_to_interfaces lc stamps 0 message
                                              (take (nat (ub_count c)) (ub_interfaces c)) st1
                                              (emit (EvPrint (message @ [10])) w1))
                                     (\<lambda>(st2, w2). Inr (int (unat bytes_read), st2, w2))))))))"

section \<open>Shutting down\<close>

fun close_interfaces :: "udp_interface list \<Rightarrow> world \<Rightarrow> udp_interface list \<times> world" where
  "close_interfaces [] w = ([], w)"
| "close_interfaces (u # us) w =
     (let (u1, w1) =
        (if 0 \<le> ui_socket_fd u
         then (u\<lparr>ui_socket_fd := -1\<rparr>, snd (platform_close (ui_socket_fd u) w)) else (u, w));
          (us1, w2) = close_interfaces us w1
      in (u1 # us1, w2))"

definition udp_broadcast_shutdown ::
  "udp_broadcast_config option \<Rightarrow> world \<Rightarrow> (udp_broadcast_config option \<times> world) res" where
  "udp_broadcast_shutdown config w =
     (case config of
        None \<Rightarrow> Inr (None, w)
      | Some c \<Rightarrow>
          let n = nat (ub_count c) in
          if length (ub_interfaces c) < n then Inl OutOfBounds
          else let (us, w1) = close_interfaces (take n (ub_interfaces c)) w in
            Inr (Some (c\<lparr>ub_interfaces := us @ drop n (ub_interfaces c), ub_count := 0,
                         ub_ring_buffer := None\<rparr>), w1))"

section \<open>Set-up and shut-down\<close>

definition live_interfaces :: "udp_broadcast_config \<Rightarrow> udp_interface list" where
  "live_interfaces c = take (nat (ub_count c)) (ub_interfaces c)"

definition broadcast_targets ::
  "string option \<Rightarrow> i32 \<Rightarrow> ifaddrs list \<Rightarrow> (sockaddr_in \<times> string) list" where
  "broadcast_targets specific port ifas =
     concat (map (\<lambda>ifa. case broadcast_target specific ifa of None \<Rightarrow> []
       | Some b \<Rightarrow> [(b\<lparr>sin_port := platform_htons (ucast port)\<rparr>, take 15 (ifa_name ifa))]) ifas)"

text \<open>The interfaces for a list of targets, when the kernel hands out the lowest descriptors.\<close>

fun open_targets :: "(sockaddr_in \<times> string) list \<Rightarrow> int list \<Rightarrow> udp_interface list" where
  "open_targets [] fds = []"
| "open_targets ((a, nm) # ts) fds =
     \<lparr>ui_dest_addr = a, ui_socket_fd = first_free fds, ui_name = nm\<rparr> #
     open_targets ts (first_free fds # fds)"

lemma length_open_targets [simp]: "length (open_targets ts fds) = length ts"
  by (induction ts fds rule: open_targets.induct) simp_all

lemma map_open_targets: "map (\<lambda>u. (ui_dest_addr u, ui_name u)) (open_targets ts fds) = ts"
  by (induction ts fds rule: open_targets.induct) simp_all

lemma open_targets_fds:
  "distinct (map ui_socket_fd (open_targets ts fds)) \<and>
   set (map ui_socket_fd (open_targets ts fds)) \<inter> set fds = {} \<and>
   (\<forall>u \<in> set (open_targets ts fds). 0 \<le> ui_socket_fd u)"
proof (induction ts fds rule: open_targets.induct)
  case (2 a nm ts fds)
  then show ?case using first_free_fresh [of fds] first_free_nonneg [of fds] by auto
qed simp

definition udp_granting :: "world \<Rightarrow> bool" where
  "udp_granting w \<longleftrightarrow> (\<forall>k. e_socket (w_env w) k \<and> e_setsockopt (w_env w) k)"

lemma create_socket_granted:
  assumes "udp_granting w"
  obtains w1 where "udp_broadcast_create_socket w = (first_free (w_fds w), w1)"
    and "w_fds w1 = first_free (w_fds w) # w_fds w" and "w_env w1 = w_env w" and "w_trace w1 = w_trace w"
  using assms first_free_nonneg [of "w_fds w"]
  by (simp add: udp_broadcast_create_socket_def platform_socket_def platform_setsockopt_def
      udp_granting_def Let_def not_less)

lemma gather_interface_granted:
  assumes "udp_granting w" and "broadcast_target specific ifa = Some b"
    and "0 \<le> ub_count c" and "nat (ub_count c) < length (ub_interfaces c)"
  obtains c1 w1 where "gather_interface specific ifa c w = Inr (c1, w1)"
    and "live_interfaces c1 = live_interfaces c @
      open_targets [(b\<lparr>sin_port := platform_htons (ucast (ub_port c))\<rparr>, take 15 (ifa_name ifa))] (w_fds w)"
    and "ub_count c1 = ub_count c + 1" and "length (ub_interfaces c1) = length (ub_interfaces c)"
    and "ub_port c1 = ub_port c" and "ub_ring_buffer c1 = ub_ring_buffer c"
    and "w_fds w1 = first_free (w_fds w) # w_fds w" and "w_env w1 = w_env w" and "w_trace w1 = w_trace w"
proof -
  obtain w1 where s: "udp_broadcast_create_socket w = (first_free (w_fds w), w1)"
    "w_fds w1 = first_free (w_fds w) # w_fds w" "w_env w1 = w_env w" "w_trace w1 = w_trace w"
    by (rule create_socket_granted [OF assms(1)])
  have n: "nat (ub_count c + 1) = Suc (nat (ub_count c))" using assms(3) by simp
  show thesis
    by (rule that [of "c\<lparr>ub_interfaces := (ub_interfaces c)
          [nat (ub_count c) := \<lparr>ui_dest_addr = b\<lparr>sin_port := platform_htons (ucast (ub_port c))\<rparr>,
             ui_socket_fd = first_free (w_fds w), ui_name = take 15 (ifa_name ifa)\<rparr>],
          ub_count := ub_count c + 1\<rparr>" w1])
      (use assms(2,4) s n first_free_nonneg [of "w_fds w"] in
        \<open>simp_all add: gather_interface_def live_interfaces_def not_less take_Suc_conv_app_nth\<close>)
qed

lemma gather_loop_granted:
  fixes specific :: "string option" and ifas :: "ifaddrs list"
  assumes "udp_granting w" and "0 \<le> ub_count c" and "nat (ub_count c) \<le> length (ub_interfaces c)"
  defines "ts \<equiv> broadcast_targets specific (ub_port c) ifas"
  shows "if nat (ub_count c) + length ts \<le> length (ub_interfaces c)
    then \<exists>c1 w1. gather_loop specific ifas c w = Inr (c1, w1) \<and>
      live_interfaces c1 = live_interfaces c @ open_targets ts (w_fds w) \<and>
      ub_count c1 = ub_count c + int (length ts) \<and> length (ub_interfaces c1) = length (ub_interfaces c) \<and>
      ub_port c1 = ub_port c \<and> ub_ring_buffer c1 = ub_ring_buffer c \<and>
      w_fds w1 = rev (map ui_socket_fd (open_targets ts (w_fds w))) @ w_fds w \<and> w_trace w1 = w_trace w
    else gather_loop specific ifas c w = Inl OutOfBounds"
  using assms(1-3) unfolding ts_def
proof (induction ifas arbitrary: c w)
  case Nil
  then show ?case by (simp add: broadcast_targets_def)
next
  case (Cons ifa ifas)
  show ?case
  proof (cases "broadcast_target specific ifa")
    case None
    then have "broadcast_targets specific port (ifa # ifas) = broadcast_targets specific port ifas" for port
      by (simp add: broadcast_targets_def)
    then show ?thesis
      using Cons.IH [OF Cons.prems] None by (simp add: gather_interface_def)
  next
    case (Some b)
    show ?thesis
    proof (cases "nat (ub_count c) < length (ub_interfaces c)")
      case False
      then show ?thesis
        using Some by (simp add: gather_interface_def broadcast_targets_def split: prod.split)
    next
      case True
      obtain c1 w1 where g: "gather_interface specific ifa c w = Inr (c1, w1)"
        "live_interfaces c1 = live_interfaces c @
          open_targets [(b\<lparr>sin_port := platform_htons (ucast (ub_port c))\<rparr>, take 15 (ifa_name ifa))] (w_fds w)"
        "ub_count c1 = ub_count c + 1" "length (ub_interfaces c1) = length (ub_interfaces c)"
        "ub_port c1 = ub_port c" "ub_ring_buffer c1 = ub_ring_buffer c"
        "w_fds w1 = first_free (w_fds w) # w_fds w" "w_env w1 = w_env w" "w_trace w1 = w_trace w"
        by (rule gather_interface_granted [OF Cons.prems(1) Some Cons.prems(2) True])
      have n: "nat (ub_count c + 1) = Suc (nat (ub_count c))" using Cons.prems(2) by simp
      have ts: "broadcast_targets specific port (ifa # ifas) =
          (b\<lparr>sin_port := platform_htons (ucast port)\<rparr>, take 15 (ifa_name ifa)) #
          broadcast_targets specific port ifas" for port
        by (simp add: broadcast_targets_def Some)
      have pre: "udp_granting w1" "0 \<le> ub_count c1" "nat (ub_count c1) \<le> length (ub_interfaces c1)"
        using Cons.prems True g(3,4,8) n by (simp_all add: udp_granting_def)
      show ?thesis
        using Cons.IH [OF pre] unfolding g(3,4,5) n ts g(7)
        by (simp add: g(1,2,6,7,9) split: if_splits) (auto simp: g)
    qed
  qed
qed

lemma close_interfaces_all:
  assumes "distinct (map ui_socket_fd us)" and "\<forall>u \<in> set us. 0 \<le> ui_socket_fd u \<and> ui_socket_fd u \<in> set (w_fds w)"
  shows "\<exists>w1. close_interfaces us w = (map (ui_socket_fd_update (\<lambda>_. -1)) us, w1) \<and>
    w_fds w1 = filter (\<lambda>fd. fd \<notin> ui_socket_fd ` set us) (w_fds w) \<and>
    w_trace w1 = w_trace w @ map (EvClose \<circ> ui_socket_fd) us"
  using assms
proof (induction us arbitrary: w)
  case Nil
  then show ?case by simp
next
  case (Cons u us)
  let ?w = "snd (platform_close (ui_socket_fd u) w)"
  have w: "w_fds ?w = removeAll (ui_socket_fd u) (w_fds w)" "w_trace ?w = w_trace w @ [EvClose (ui_socket_fd u)]"
    using Cons.prems(2) by (simp_all add: platform_close_def)
  have ne: "\<forall>v \<in> set us. ui_socket_fd v \<noteq> ui_socket_fd u"
    using Cons.prems(1) by (metis distinct.simps(2) image_set imageI list.simps(9))
  then have "\<forall>v \<in> set us. 0 \<le> ui_socket_fd v \<and> ui_socket_fd v \<in> set (w_fds ?w)"
    using Cons.prems(2) by (auto simp: w)
  then obtain w1 where "close_interfaces us ?w = (map (ui_socket_fd_update (\<lambda>_. -1)) us, w1)"
    "w_fds w1 = filter (\<lambda>fd. fd \<notin> ui_socket_fd ` set us) (w_fds ?w)"
    "w_trace w1 = w_trace ?w @ map (EvClose \<circ> ui_socket_fd) us"
    using Cons.IH [of ?w] Cons.prems(1) by auto
  then show ?case
    using Cons.prems(2) ne by (auto simp: w removeAll_filter_not_eq intro!: filter_cong)
qed

section \<open>One message\<close>

lemma c_string_terminated: "0 \<notin> set xs \<Longrightarrow> c_string (xs @ 0 # ys) = xs"
  unfolding c_string_def by (subst takeWhile_append2) auto

lemma process_message:
  assumes c: "ub_ring_buffer c = Some p" "nat (ub_count c) \<le> length (ub_interfaces c)"
    and rb: "st p = Some rb" "rb_inv rb" "rb_ready rb w" "rb_contents rb \<noteq> []" "0 \<notin> set (rb_contents rb)"
  defines "xs \<equiv> rb_contents rb"
  obtains rb' where "process_log_message lc stamps (Some c) st w =
      andThen (send_to_interfaces lc stamps 0 (take 1023 xs) (live_interfaces c) (st(p := Some rb'))
          (emit (EvPrint (take 1023 xs @ [10])) w))
        (\<lambda>(st2, w2). Inr (int (min 1023 (length xs)), st2, w2))"
    and "rb_inv rb'" and "rb_ready rb' w" and "rb_cap rb' = rb_cap rb" and "rb_contents rb' = drop 1023 xs"
proof -
  let ?len = "word_of_nat 1023 :: u64"
  let ?d = "replicate UDP_BROADCAST_BUFFER_SIZE (0::byte)"
  let ?m = "min 1023 (length xs)"
  have len: "unat ?len = 1023" by simp
  have "0 < length xs" using rb(4) by (simp add: xs_def)
  then have m: "0 < ?m" "?m \<le> 1023" by simp_all
  have um: "unat (word_of_nat ?m :: u64) = ?m" by (rule unat_small64) (use m(2) in simp)
  then have nz: "(word_of_nat ?m :: u64) \<noteq> 0" using m(1) by (metis less_irrefl unat_0)
  obtain rb' w' where r: "ring_buffer_read_n (Some rb) (Some ?d) ?len w =
      Inr (word_of_nat ?m, Some rb', Some (take 1023 xs @ drop ?m ?d), w')"
    and rb': "rb_inv rb'" "rb_ready rb' w'" "rb_cap rb' = rb_cap rb" "rb_contents rb' = drop 1023 xs" "w' = w"
    by (rule read_n_queue [OF rb(2,3), of ?len ?d]) (use rb(4) in \<open>simp_all add: xs_def\<close>)
  have cp: "memcpy_to (take 1023 xs @ drop ?m ?d) ?m [0] = Inr (take 1023 xs @ 0 # drop (Suc ?m) ?d)"
    using m(2) min_def [of "length xs" 1023] by (simp add: memcpy_to_def min.commute flip: drop_Suc)
  have "0 \<notin> set (take 1023 xs)" using rb(5) set_take_subset [of 1023 xs] by (auto simp: xs_def)
  note msg = c_string_terminated [OF this]
  have ne: "take 1023 xs \<noteq> []" using rb(4) by (simp add: xs_def)
  show thesis
    by (rule that [of rb'])
      (use c rb(1) rb' r cp ne nz in
        \<open>simp_all add: process_log_message_def um msg live_interfaces_def not_less Let_def del: take_eq_Nil\<close>)
qed

lemma process_empty:
  assumes c: "ub_ring_buffer c = Some p" and rb: "st p = Some rb" "rb_inv rb" "rb_ready rb w" "rb_contents rb = []"
  obtains rb' where "process_log_message lc stamps (Some c) st w = Inr (0, st(p := Some rb'), over_give rb w)"
    and "rb_inv rb'" and "rb_ready rb' (over_give rb w)" and "rb_contents rb' = []"
proof -
  obtain rb' where r: "ring_buffer_read_n (Some rb) (Some (replicate UDP_BROADCAST_BUFFER_SIZE 0)) (word_of_nat 1023) w =
      Inr (0, Some rb', Some (replicate UDP_BROADCAST_BUFFER_SIZE 0), over_give rb w)"
    "rb_inv rb'" "rb_ready rb' (over_give rb w)" "rb_contents rb' = []"
    by (rule read_n_queue [OF rb(2,3), of "word_of_nat 1023" "replicate UDP_BROADCAST_BUFFER_SIZE 0"])
      (use rb(4) in simp_all)
  show thesis
    by (rule that [OF _ r(2-4)]) (use c rb(1) r(1) in \<open>simp add: process_log_message_def\<close>)
qed

lemma send_all_ok:
  assumes "\<forall>u \<in> set us. ui_socket_fd u \<in> set (w_fds w)" and "\<forall>k. \<exists>n. e_send (w_env w) k = Inr n"
  shows "\<exists>w'. send_to_interfaces lc stamps i msg us st w = Inr (st, w') \<and>
    w_trace w' = w_trace w @ map (\<lambda>u. EvSendto (ui_socket_fd u) msg (ui_dest_addr u)) us \<and>
    w_env w' = w_env w \<and> w_fds w' = w_fds w \<and> w_sems w' = w_sems w"
  using assms
proof (induction us arbitrary: i w)
  case Nil
  then show ?case by simp
next
  case (Cons u us)
  let ?w = "emit (EvSendto (ui_socket_fd u) msg (ui_dest_addr u)) (tick w)"
  have s: "platform_sendto (ui_socket_fd u) msg (ui_dest_addr u) w = (int (length msg), ?w)"
  proof -
    obtain n where "e_send (w_env w) (w_calls w) = Inr n" using Cons.prems(2) by blast
    then show ?thesis using Cons.prems(1) by (simp add: platform_sendto_def)
  qed
  show ?case using Cons.IH [of ?w "Suc i"] Cons.prems by (simp add: s)
qed

lemma send_all_fail:
  assumes "\<forall>k. \<exists>e. e_send (w_env w) k = Inl e"
    and "lg_ring_buffer lc = Some p" and "LOG_ERROR \<le> lg_level lc"
    and "st p = Some rb" and "rb_inv rb" and "rb_ready rb w"
  shows "\<exists>rb' w' ys. send_to_interfaces lc stamps i msg us st w = Inr (st(p := Some rb'), w') \<and>
    w_env w' = w_env w \<and> rb_inv rb' \<and> rb_ready rb' w' \<and> rb_cap rb' = rb_cap rb \<and>
    rb_contents rb' = rb_contents rb @ ys \<and>
    set ys \<subseteq> (\<Union>k. set (stamps k)) \<union> (\<Union>u \<in> set us. set (send_failed_text (ui_name u))) \<and>
    (us \<noteq> [] \<and> 0 < rb_room rb \<longrightarrow> ys \<noteq> [])"
  using assms(1,4-6)
proof (induction us arbitrary: i st rb w)
  case Nil
  then show ?case
    by (intro exI [of _ rb] exI [of _ w] exI [of _ "[]"]) (simp add: fun_upd_idem)
next
  case (Cons u us)
  let ?text = "Some (send_failed_text (ui_name u))"
  obtain e where "e_send (w_env w) (w_calls w) = Inl e" using Cons.prems(1) by blast
  then obtain w1 where s: "platform_sendto (ui_socket_fd u) msg (ui_dest_addr u) w = (-1, w1)"
    "w_env w1 = w_env w" "w_sems w1 = w_sems w"
    by (cases "ui_socket_fd u \<in> set (w_fds w)") (simp_all add: platform_sendto_def)
  have rdy: "rb_ready rb w1" using Cons.prems(4) s(2,3) by (simp add: rb_ready_def)
  obtain rb1 w2 where wl: "write_log_message LOG_ERROR (stamps i) ?text lc st w1 =
      Inr (int (min (log_line_length (stamps i) ?text) (rb_room rb)), st(p := Some rb1), w2)"
    and rb1: "rb_inv rb1" "rb_ready rb1 w2" "rb_cap rb1 = rb_cap rb"
      "rb_contents rb1 = rb_contents rb @ take (rb_room rb) (log_line (stamps i) ?text)"
      "w_env w2 = w_env w1"
    by (rule write_log_message_ok [of lc p st rb LOG_ERROR w1 "stamps i" ?text,
          OF assms(2) Cons.prems(2) assms(3) Cons.prems(3) rdy]) blast
  have e: "\<forall>k. \<exists>e. e_send (w_env w2) k = Inl e" using Cons.prems(1) s(2) rb1(5) by simp
  obtain rb2 w3 ys where ih: "send_to_interfaces lc stamps (Suc i) msg us (st(p := Some rb1)) w2 =
      Inr (st(p := Some rb2), w3)"
    "w_env w3 = w_env w2" "rb_inv rb2" "rb_ready rb2 w3" "rb_cap rb2 = rb_cap rb1"
    "rb_contents rb2 = rb_contents rb1 @ ys"
    "set ys \<subseteq> (\<Union>k. set (stamps k)) \<union> (\<Union>u \<in> set us. set (send_failed_text (ui_name u)))"
    using Cons.IH [OF e _ rb1(1,2), of "st(p := Some rb1)" "Suc i"] unfolding fun_upd_upd
    by (simp only: fun_upd_same) blast
  have line: "set (take (rb_room rb) (log_line (stamps i) ?text)) \<subseteq>
      (\<Union>k. set (stamps k)) \<union> set (send_failed_text (ui_name u))"
    by (auto simp: log_line_def strftime_out_def dest!: in_set_takeD split: if_splits)
  have ne: "log_line (stamps i) ?text \<noteq> []" by (simp add: log_line_def send_failed_text_def log_macro_text_def)
  show ?case
    by (intro exI [of _ rb2] exI [of _ w3] exI [of _ "take (rb_room rb) (log_line (stamps i) ?text) @ ys"])
      (use s wl rb1 ih line ne in auto)
qed

section \<open>Message after message\<close>

fun process_times ::
  "nat \<Rightarrow> logging_config \<Rightarrow> (nat \<Rightarrow> nat \<Rightarrow> byte list) \<Rightarrow> udp_broadcast_config \<Rightarrow> rb_store \<Rightarrow> world \<Rightarrow>
   (int list \<times> rb_store \<times> world) res" where
  "process_times 0 lc stamps c st w = Inr ([], st, w)"
| "process_times (Suc n) lc stamps c st w =
     andThen (process_log_message lc (stamps n) (Some c) st w) (\<lambda>(r, st1, w1).
     andThen (process_times n lc stamps c st1 w1) (\<lambda>(rs, st2, w2). Inr (r # rs, st2, w2)))"

text \<open>The bytes sent through a socket, one datagram after the other.\<close>

definition datagrams :: "int \<Rightarrow> event list \<Rightarrow> byte list" where
  "datagrams fd tr =
     concat (map (\<lambda>e. case e of EvSendto f bs a \<Rightarrow> if f = fd then bs else [] | _ \<Rightarrow> []) tr)"

lemma datagrams_append [simp]: "datagrams fd (a @ b) = datagrams fd a @ datagrams fd b"
  by (simp add: datagrams_def)

lemma datagrams_print [simp]: "datagrams fd [EvPrint bs] = []"
  by (simp add: datagrams_def)

lemma datagrams_Nil [simp]: "datagrams fd [] = []"
  by (simp add: datagrams_def)

lemma datagrams_other:
  "fd \<notin> ui_socket_fd ` set us \<Longrightarrow>
   datagrams fd (map (\<lambda>u. EvSendto (ui_socket_fd u) msg (ui_dest_addr u)) us) = []"
  by (induction us) (auto simp: datagrams_def)

lemma datagrams_each:
  "u \<in> set us \<Longrightarrow> distinct (map ui_socket_fd us) \<Longrightarrow>
   datagrams (ui_socket_fd u) (map (\<lambda>u. EvSendto (ui_socket_fd u) msg (ui_dest_addr u)) us) = msg"
proof (induction us)
  case (Cons v us)
  show ?case
  proof (cases "ui_socket_fd u = ui_socket_fd v")
    case True
    then show ?thesis
      using Cons.prems(2) datagrams_other [of "ui_socket_fd u" us msg] by (simp add: datagrams_def)
  next
    case False
    then show ?thesis using Cons by (auto simp: datagrams_def)
  qed
qed simp

lemma over_give_sel [simp]:
  "w_trace (over_give rb w) = w_trace w" "w_env (over_give rb w) = w_env w"
  "w_fds (over_give rb w) = w_fds w"
  by (simp_all add: over_give_def split: option.split)

lemma send_failed_text_zero: "0 \<notin> set (send_failed_text nm) \<longleftrightarrow> CHR 0x00 \<notin> set nm"
proof -
  have "of_char ch = (0 :: byte) \<longleftrightarrow> ch = CHR 0x00" for ch
  proof -
    have "unat (of_char ch :: byte) = of_char ch"
      by (simp only: of_nat_of_char [where ?'a = byte, symmetric] unat_byte_of_nat of_char_mod_256)
    then have "of_char ch = (0 :: byte) \<longleftrightarrow> (of_char ch :: nat) = of_char (CHR 0x00)"
      by (simp add: unat_eq_zero [symmetric] del: of_char_eq_iff)
    then show ?thesis by (simp only: of_char_eq_iff)
  qed
  then show ?thesis by (auto simp: send_failed_text_def log_macro_text_def image_iff)
qed

section \<open>Properties of the broadcaster\<close>

text \<open>An example: one interface, its socket open, and a ring buffer with two bytes to send.\<close>

definition ex_dest :: sockaddr_in where
  "ex_dest = \<lparr>sin_family = 2, sin_port = 100, sin_addr = 0xFF01A8C0\<rparr>"

definition ex_udp :: udp_broadcast_config where
  "ex_udp = zero_config\<lparr>ub_interfaces := [\<lparr>ui_dest_addr = ex_dest, ui_socket_fd = 2, ui_name = ''eth0''\<rparr>],
     ub_count := 1, ub_ring_buffer := Some 5\<rparr>"

definition ex_udp_store :: rb_store where
  "ex_udp_store = (\<lambda>_. None)(5 := Some ex_rb)"

lemma ex_udp_sel [simp]:
  "ub_ring_buffer ex_udp = Some 5" "nat (ub_count ex_udp) = length (ub_interfaces ex_udp)"
  "live_interfaces ex_udp = [\<lparr>ui_dest_addr = ex_dest, ui_socket_fd = 2, ui_name = ''eth0''\<rparr>]"
  "ex_udp_store 5 = Some ex_rb"
  by (simp_all add: ex_udp_def zero_config_def live_interfaces_def ex_udp_store_def)

definition ex_ifa :: "nat \<Rightarrow> ifaddrs" where
  "ex_ifa flags = \<lparr>ifa_name = ''eth0'', ifa_flags = word_of_nat flags, ifa_family = Some 2,
     ifa_broadaddr = Some ex_dest\<rparr>"

definition ex_ifa_world :: "ifaddrs list \<Rightarrow> world" where
  "ex_ifa_world ifas = ok_world\<lparr>w_env := ok_env\<lparr>e_ifaddrs := (\<lambda>_. Some ifas)\<rparr>\<rparr>"

text \<open>C29. Set-up and shut-down of the broadcaster, when sockets are granted: with at most sixteen
  suitable interfaces \<open>udp_broadcast_initialize\<close> records exactly these, in order, each with its
  broadcast address, the wanted port and a socket of its own, and returns \<open>0\<close> unless there are
  none; \<open>udp_broadcast_shutdown\<close> then closes each of these sockets once and no other. A
  seventeenth suitable interface is written beyond the array.\<close>

theorem broadcast_interface_bound:
  assumes "udp_granting w" and "e_ifaddrs (w_env w) (w_calls w) = Some ifas"
    and "ts = broadcast_targets specific (if 0 < sint port then port else UDP_BROADCAST_DEFAULT_PORT) ifas"
  shows "if length ts \<le> 16
    then \<exists>c w1 c2 w2. udp_broadcast_initialize (Some c0) (Some r) port specific w =
        Inr (if ts = [] then -1 else 0, Some c, w1) \<and>
      ub_ring_buffer c = Some r \<and> map (\<lambda>u. (ui_dest_addr u, ui_name u)) (live_interfaces c) = ts \<and>
      distinct (map ui_socket_fd (live_interfaces c)) \<and>
      w_fds w1 = rev (map ui_socket_fd (live_interfaces c)) @ w_fds w \<and>
      udp_broadcast_shutdown (Some c) w1 = Inr (Some c2, w2) \<and>
      w_fds w2 = w_fds w \<and> w_trace w2 = w_trace w @ map (EvClose \<circ> ui_socket_fd) (live_interfaces c)
    else udp_broadcast_initialize (Some c0) (Some r) port specific w = Inl OutOfBounds"
proof -
  let ?p = "if 0 < sint port then port else UDP_BROADCAST_DEFAULT_PORT"
  let ?c = "zero_config\<lparr>ub_ring_buffer := Some r, ub_port := ?p, ub_count := 0\<rparr>"
  have c: "ub_count ?c = 0" "length (ub_interfaces ?c) = 16" "live_interfaces ?c = []" "ub_port ?c = ?p"
    by (simp_all add: zero_config_def live_interfaces_def)
  have w: "udp_granting (tick w)" using assms(1) by (simp add: udp_granting_def)
  have init: "udp_broadcast_initialize (Some c0) (Some r) port specific w =
      andThen (gather_loop specific ifas ?c (tick w))
        (\<lambda>(c2, w2). Inr (if ub_count c2 = 0 then -1 else 0, Some c2, w2))"
    using assms(2)
    by (simp add: udp_broadcast_initialize_def udp_broadcast_gather_interfaces_def getifaddrs_def
        zero_config_def Let_def andThen_assoc split_def)
  note loop = gather_loop_granted [OF w, of ?c specific ifas, unfolded c, simplified, folded assms(3)]
  show ?thesis
  proof (cases "length ts \<le> 16")
    case False
    then show ?thesis using loop by (simp add: init)
  next
    case True
    then obtain c1 w1 where g: "gather_loop specific ifas ?c (tick w) = Inr (c1, w1)"
      "live_interfaces c1 = open_targets ts (w_fds w)" "ub_count c1 = int (length ts)"
      "length (ub_interfaces c1) = 16" "ub_ring_buffer c1 = Some r"
      "w_fds w1 = rev (map ui_socket_fd (open_targets ts (w_fds w))) @ w_fds w" "w_trace w1 = w_trace w"
      using loop by auto
    let ?us = "open_targets ts (w_fds w)"
    have us: "distinct (map ui_socket_fd ?us)" "set (map ui_socket_fd ?us) \<inter> set (w_fds w) = {}"
      "\<forall>u \<in> set ?us. 0 \<le> ui_socket_fd u"
      using open_targets_fds [of ts "w_fds w"] by blast+
    have "\<forall>u \<in> set ?us. 0 \<le> ui_socket_fd u \<and> ui_socket_fd u \<in> set (w_fds w1)"
      using us(3) by (simp add: g(6))
    from close_interfaces_all [OF us(1) this] obtain w2 where
      cl: "close_interfaces ?us w1 = (map (ui_socket_fd_update (\<lambda>_. -1)) ?us, w2)"
      "w_fds w2 = filter (\<lambda>fd. fd \<notin> ui_socket_fd ` set ?us) (w_fds w1)"
      "w_trace w2 = w_trace w1 @ map (EvClose \<circ> ui_socket_fd) ?us" by blast
    have "w_fds w2 = w_fds w"
      using us(2) by (auto simp: cl(2) g(6) filter_empty_conv intro!: filter_True)
    moreover obtain c2 where "udp_broadcast_shutdown (Some c1) w1 = Inr (Some c2, w2)"
      using True g(2-4) cl(1) by (simp add: udp_broadcast_shutdown_def live_interfaces_def Let_def)
    moreover have "(ub_count c1 = 0) = (ts = [])" by (simp add: g(3))
    ultimately show ?thesis
      using True g(1,2,5,6,7) us(1) cl(3)
      by (simp add: init map_open_targets)
  qed
qed

theorem broadcast_interface_bound_witness:
  "udp_broadcast_initialize (Some ex_udp) (Some 5) 0 None (ex_ifa_world (replicate 17 (ex_ifa 3))) = Inl OutOfBounds \<and>
   (\<exists>c w1. udp_broadcast_initialize (Some ex_udp) (Some 5) 0 (Some ''eth0'') (ex_ifa_world [ex_ifa 3, ex_ifa 11]) =
      Inr (0, Some c, w1) \<and> length (live_interfaces c) = 1)"
proof -
  have g: "udp_granting (ex_ifa_world ifas)" "e_ifaddrs (w_env (ex_ifa_world ifas)) (w_calls (ex_ifa_world ifas)) = Some ifas"
    "w_fds (ex_ifa_world ifas) = [0, 1, 2]" for ifas
    by (simp_all add: udp_granting_def ex_ifa_world_def)
  have t: "broadcast_target sp (ex_ifa 3) = (if sp = None \<or> sp = Some ''eth0'' then Some ex_dest else None)"
    "broadcast_target sp (ex_ifa 11) = None" for sp
    by (auto simp: broadcast_target_def ex_ifa_def)
  have n: "length (broadcast_targets None p (replicate 17 (ex_ifa 3))) = 17"
    "length (broadcast_targets (Some ''eth0'') p [ex_ifa 3, ex_ifa 11]) = 1" for p
    by (simp_all add: broadcast_targets_def t length_concat sum_list_replicate)
  have l: "xs = map f ys \<Longrightarrow> length xs = length ys" for xs f ys by simp
  obtain c w1 where "udp_broadcast_initialize (Some ex_udp) (Some 5) 0 (Some ''eth0'')
      (ex_ifa_world [ex_ifa 3, ex_ifa 11]) =
      Inr (if broadcast_targets (Some ''eth0'') UDP_BROADCAST_DEFAULT_PORT [ex_ifa 3, ex_ifa 11] = [] then -1 else 0,
        Some c, w1)"
    "length (live_interfaces c) = length (broadcast_targets (Some ''eth0'') UDP_BROADCAST_DEFAULT_PORT
      [ex_ifa 3, ex_ifa 11])"
    using broadcast_interface_bound [OF g(1,2) refl, of "Some ''eth0''" 0 "[ex_ifa 3, ex_ifa 11]" ex_udp 5]
    by (auto simp: n dest: l [OF sym])
  moreover have "broadcast_targets (Some ''eth0'') UDP_BROADCAST_DEFAULT_PORT [ex_ifa 3, ex_ifa 11] \<noteq> []"
    using n(2) [of UDP_BROADCAST_DEFAULT_PORT] by (metis list.size(3) zero_neq_one)
  ultimately show ?thesis
    using broadcast_interface_bound [OF g(1,2) refl, of None 0 "replicate 17 (ex_ifa 3)" ex_udp 5]
    by (auto simp: n)
qed

text \<open>C28. Draining: with the interfaces up and no zero byte logged, \<open>n\<close> calls of
  \<open>process_log_message\<close> empty a ring buffer of up to \<open>1023 * n\<close> bytes, and every interface has
  then been sent all of them, in order, in datagrams of at most 1023 bytes; the return values
  add up to their number.\<close>

theorem broadcast_drains:
  assumes "ub_ring_buffer c = Some p" and "nat (ub_count c) \<le> length (ub_interfaces c)"
    and "distinct (map ui_socket_fd (live_interfaces c))"
    and "\<forall>u \<in> set (live_interfaces c). ui_socket_fd u \<in> set (w_fds w)" and "\<forall>k. \<exists>m. e_send (w_env w) k = Inr m"
    and "st p = Some rb" and "rb_inv rb" and "rb_ready rb w" and "0 \<notin> set (rb_contents rb)"
    and "length (rb_contents rb) \<le> 1023 * n"
  shows "\<exists>rs st' w' rb'. process_times n lc stamps c st w = Inr (rs, st', w') \<and> st' p = Some rb' \<and>
    rb_inv rb' \<and> rb_contents rb' = [] \<and> sum_list rs = int (length (rb_contents rb)) \<and>
    (\<forall>u \<in> set (live_interfaces c). datagrams (ui_socket_fd u) (w_trace w') =
       datagrams (ui_socket_fd u) (w_trace w) @ rb_contents rb)"
  using assms(4-)
proof (induction n arbitrary: st w rb)
  case 0
  then show ?case by simp
next
  case (Suc n)
  let ?xs = "rb_contents rb" and ?us = "live_interfaces c"
  show ?case
  proof (cases "?xs = []")
    case True
    obtain rb1 where s: "process_log_message lc (stamps n) (Some c) st w = Inr (0, st(p := Some rb1), over_give rb w)"
      "rb_inv rb1" "rb_ready rb1 (over_give rb w)" "rb_contents rb1 = []"
      by (rule process_empty [of c p st rb w lc "stamps n", OF assms(1) Suc.prems(3-5) True])
    show ?thesis
      using Suc.IH [of "over_give rb w" "st(p := Some rb1)" rb1] Suc.prems(1,2) s True
      by (simp del: fun_upd_apply add: fun_upd_same) (elim exE, simp del: fun_upd_apply)
  next
    case False
    let ?msg = "take 1023 ?xs"
    obtain rb1 where s: "process_log_message lc (stamps n) (Some c) st w =
        andThen (send_to_interfaces lc (stamps n) 0 ?msg ?us (st(p := Some rb1))
            (emit (EvPrint (?msg @ [10])) w))
          (\<lambda>(st2, w2). Inr (int (min 1023 (length ?xs)), st2, w2))"
      "rb_inv rb1" "rb_ready rb1 w" "rb_contents rb1 = drop 1023 ?xs"
      by (rule process_message [of c p st rb w lc "stamps n", OF assms(1,2) Suc.prems(3-5) False Suc.prems(6)])
    obtain w1 where t: "send_to_interfaces lc (stamps n) 0 ?msg ?us (st(p := Some rb1))
        (emit (EvPrint (?msg @ [10])) w) = Inr (st(p := Some rb1), w1)"
      "w_trace w1 = w_trace w @ [EvPrint (?msg @ [10])] @
         map (\<lambda>u. EvSendto (ui_socket_fd u) ?msg (ui_dest_addr u)) ?us"
      "w_env w1 = w_env w" "w_fds w1 = w_fds w" "w_sems w1 = w_sems w"
      using send_all_ok [of ?us "emit (EvPrint (?msg @ [10])) w" lc "stamps n" 0 ?msg "st(p := Some rb1)"]
        Suc.prems(1,2) by auto
    have rdy: "rb_ready rb1 w1" using s(3) t(3,5) by (simp add: rb_ready_def)
    have nz: "0 \<notin> set (rb_contents rb1)" using Suc.prems(6) by (auto simp: s(4) dest: in_set_dropD)
    have pre: "\<forall>u \<in> set ?us. ui_socket_fd u \<in> set (w_fds w1)" "\<forall>k. \<exists>m. e_send (w_env w1) k = Inr m"
      "length (rb_contents rb1) \<le> 1023 * n"
      using Suc.prems(1,2,7) by (simp_all add: t(3,4) s(4))
    obtain rs st2 w2 rb2 where ih: "process_times n lc stamps c (st(p := Some rb1)) w1 = Inr (rs, st2, w2)"
      "st2 p = Some rb2" "rb_inv rb2" "rb_contents rb2 = []" "sum_list rs = int (length (rb_contents rb1))"
      "\<forall>u \<in> set ?us. datagrams (ui_socket_fd u) (w_trace w2) =
         datagrams (ui_socket_fd u) (w_trace w1) @ rb_contents rb1"
      using Suc.IH [OF pre(1,2) _ s(2) rdy nz pre(3), of "st(p := Some rb1)"]
      by (simp only: fun_upd_same) blast
    have sum: "int (min 1023 (length ?xs)) + int (length ?xs - 1023) = int (length ?xs)" by linarith
    have "datagrams (ui_socket_fd u) (w_trace w2) = datagrams (ui_socket_fd u) (w_trace w) @ ?xs"
      if "u \<in> set ?us" for u
      using ih(6) that datagrams_each [OF that assms(3), of ?msg]
      by (simp only: t(2) s(4) datagrams_append datagrams_print append_assoc append.left_neutral append_take_drop_id)
    then show ?thesis using s(1) t(1) ih(1-5) sum by (simp add: s(4))
  qed
qed

theorem broadcast_drains_witness:
  "\<exists>rs st' w' rb'. process_times 1 ex_log_cfg (\<lambda>_ _. []) ex_udp ex_udp_store ex_rb_world = Inr (rs, st', w') \<and>
     st' 5 = Some rb' \<and> rb_contents rb' = [] \<and> sum_list rs = 2 \<and> datagrams 2 (w_trace w') = [20, 30]"
proof -
  have "w_fds ex_rb_world = [0, 1, 2]" "w_env ex_rb_world = ok_env" "w_trace ex_rb_world = []"
    by (simp_all add: ex_rb_world_def)
  then show ?thesis
    using broadcast_drains [of ex_udp 5 ex_rb_world ex_udp_store ex_rb 1 ex_log_cfg "\<lambda>_ _. []"]
    by (simp del: process_times.simps One_nat_def) blast
qed

text \<open>C40. A failing interface feeds itself: while every send fails and the error messages pass the
  logger's filter into the same ring buffer, a ring buffer that is not empty never becomes empty.
  Every call of \<open>process_log_message\<close>, however often it is repeated, reports a message processed
  and leaves another one.\<close>

theorem broadcast_failure_feeds_itself:
  assumes "ub_ring_buffer c = Some p" and "nat (ub_count c) \<le> length (ub_interfaces c)"
    and "live_interfaces c \<noteq> []" and "\<forall>u \<in> set (live_interfaces c). CHR 0x00 \<notin> set (ui_name u)"
    and "lg_ring_buffer lc = Some p" and "LOG_ERROR \<le> lg_level lc" and "\<forall>k i. 0 \<notin> set (stamps k i)"
    and "\<forall>k. \<exists>e. e_send (w_env w) k = Inl e"
    and "st p = Some rb" and "rb_inv rb" and "rb_ready rb w"
    and "rb_contents rb \<noteq> []" and "0 \<notin> set (rb_contents rb)"
  shows "\<exists>rs st' w' rb'. process_times n lc stamps c st w = Inr (rs, st', w') \<and>
    length rs = n \<and> (\<forall>r \<in> set rs. 0 < r) \<and> st' p = Some rb' \<and> rb_contents rb' \<noteq> []"
  using assms(8-)
proof (induction n arbitrary: st w rb)
  case 0
  then show ?case by simp
next
  case (Suc n)
  let ?xs = "rb_contents rb" and ?us = "live_interfaces c"
  let ?w = "emit (EvPrint (take 1023 ?xs @ [10])) w"
  obtain rb1 where s: "process_log_message lc (stamps n) (Some c) st w =
      andThen (send_to_interfaces lc (stamps n) 0 (take 1023 ?xs) ?us (st(p := Some rb1)) ?w)
        (\<lambda>(st2, w2). Inr (int (min 1023 (length ?xs)), st2, w2))"
    "rb_inv rb1" "rb_ready rb1 w" "rb_cap rb1 = rb_cap rb" "rb_contents rb1 = drop 1023 ?xs"
    by (rule process_message [of c p st rb w lc "stamps n", OF assms(1,2) Suc.prems(2-6)])
  have len: "0 < length ?xs" "length ?xs \<le> rb_cap rb - 1"
    using Suc.prems(5) rb_bounds(1) [OF Suc.prems(3)] by simp_all
  then have room: "0 < rb_room rb1" unfolding rb_room_def s(4,5) length_drop by linarith
  have pos: "0 < int (min 1023 (length ?xs))" using len(1) by simp
  have rdy: "rb_ready rb1 ?w" using s(3) by (simp add: rb_ready_def)
  obtain rb2 w2 ys where t: "send_to_interfaces lc (stamps n) 0 (take 1023 ?xs) ?us (st(p := Some rb1)) ?w =
      Inr (st(p := Some rb2), w2)"
    "w_env w2 = w_env w" "rb_inv rb2" "rb_ready rb2 w2" "rb_contents rb2 = rb_contents rb1 @ ys"
    "set ys \<subseteq> (\<Union>k. set (stamps n k)) \<union> (\<Union>u \<in> set ?us. set (send_failed_text (ui_name u)))" "ys \<noteq> []"
    using send_all_fail [of ?w lc p "st(p := Some rb1)" rb1 "stamps n" 0 "take 1023 ?xs" ?us]
      Suc.prems(1) assms(3,5,6) s(2) rdy room unfolding fun_upd_upd by auto
  have "0 \<notin> set ys" using t(6) assms(4,7) send_failed_text_zero by blast
  then have nz: "0 \<notin> set (rb_contents rb2)"
    using Suc.prems(6) by (auto simp: s(5) t(5) dest: in_set_dropD)
  have e: "\<forall>k. \<exists>e. e_send (w_env w2) k = Inl e" using Suc.prems(1) t(2) by simp
  have ne: "rb_contents rb2 \<noteq> []" using t(5,7) by simp
  obtain rs st3 w3 rb3 where "process_times n lc stamps c (st(p := Some rb2)) w2 = Inr (rs, st3, w3)"
    "length rs = n" "\<forall>r \<in> set rs. 0 < r" "st3 p = Some rb3" "rb_contents rb3 \<noteq> []"
    using Suc.IH [OF e _ t(3,4) ne nz, of "st(p := Some rb2)"] by (simp only: fun_upd_same) blast
  then show ?case using s(1) t(1) pos by simp
qed

theorem broadcast_failure_feeds_itself_witness:
  "\<exists>rs st' w' rb'. process_times 1000 ex_log_cfg (\<lambda>_ _. []) ex_udp ex_udp_store
       (ex_rb_world\<lparr>w_env := ok_env\<lparr>e_send := (\<lambda>_. Inl 101)\<rparr>\<rparr>) = Inr (rs, st', w') \<and>
     length rs = 1000 \<and> (\<forall>r \<in> set rs. 0 < r) \<and> st' 5 = Some rb' \<and> rb_contents rb' \<noteq> []"
  by (rule broadcast_failure_feeds_itself [of ex_udp 5 ex_log_cfg "\<lambda>_ _. []" _ ex_udp_store ex_rb])
    (use ex_rb_ok(2) in \<open>simp_all add: ex_log_cfg_def less_eq_log_level_def rb_ready_def ex_rb_world_def\<close>)

end
