(* ===== verification/Wire.thy ===== *)
theory Wire
  imports Prelude
begin

text \<open>
  \<open>protocol.h\<close>: the message types and the packed structs that travel over TCP and UDP,
  each as a record with the struct's fields, its size in bytes and its layout in memory. A
  \<open>double\<close> is carried as its 64 bits; the protocol layer never computes with one.
\<close>

section \<open>Message types\<close>

datatype message_type =
    MSG_TEST_TRAJECTORY_COMMAND | MSG_TURN_SERVO_POWER_ON | MSG_HEARTBEAT
  | MSG_ROBOT_POSITION_VELOCITY_TORQUE | MSG_OK | MSG_ERROR | MSG_TEST_ERROR_COMMAND
  | MSG_GET_ERROR_INFO | MSG_ERROR_INFO | MSG_ROBOT_STATUS | MSG_REGISTER_UDP_PORT
  | MSG_RESET_ERRORS | MSG_MOVE_GOAL | MSG_ECHO_TRAJECTORY | MSG_SET_MOTION_MODE
  | MSG_IS_IN_MOTION | MSG_STOP_MOTION | MSG_GOAL_ACCEPTED | MSG_GOAL_STATUS
  | MSG_CANCEL_GOAL | MSG_GET_GOAL_STATUS | MSG_FROM_JOINT_TO_CART | MSG_FROM_CART_TO_JOINT
  | MSG_GET_CART | MSG_CHECK_GROUP | MSG_GET_CAPABILITIES | MSG_CAPABILITIES

fun msg_num :: "message_type \<Rightarrow> byte" where
  "msg_num MSG_TEST_TRAJECTORY_COMMAND = 0x01"
| "msg_num MSG_TURN_SERVO_POWER_ON = 0x02"
| "msg_num MSG_HEARTBEAT = 0x03"
| "msg_num MSG_ROBOT_POSITION_VELOCITY_TORQUE = 0x04"
| "msg_num MSG_OK = 0x05"
| "msg_num MSG_ERROR = 0x06"
| "msg_num MSG_TEST_ERROR_COMMAND = 0x07"
| "msg_num MSG_GET_ERROR_INFO = 0x08"
| "msg_num MSG_ERROR_INFO = 0x09"
| "msg_num MSG_ROBOT_STATUS = 0x0A"
| "msg_num MSG_REGISTER_UDP_PORT = 0x0B"
| "msg_num MSG_RESET_ERRORS = 0x0C"
| "msg_num MSG_MOVE_GOAL = 0x0D"
| "msg_num MSG_ECHO_TRAJECTORY = 0x0E"
| "msg_num MSG_SET_MOTION_MODE = 0x0F"
| "msg_num MSG_IS_IN_MOTION = 0x10"
| "msg_num MSG_STOP_MOTION = 0x11"
| "msg_num MSG_GOAL_ACCEPTED = 0x12"
| "msg_num MSG_GOAL_STATUS = 0x13"
| "msg_num MSG_CANCEL_GOAL = 0x14"
| "msg_num MSG_GET_GOAL_STATUS = 0x15"
| "msg_num MSG_FROM_JOINT_TO_CART = 0x16"
| "msg_num MSG_FROM_CART_TO_JOINT = 0x17"
| "msg_num MSG_GET_CART = 0x18"
| "msg_num MSG_CHECK_GROUP = 0x19"
| "msg_num MSG_GET_CAPABILITIES = 0x1A"
| "msg_num MSG_CAPABILITIES = 0x1B"

section \<open>Constants\<close>

definition PROTOCOL_MAGIC_NUMBER :: u32 where "PROTOCOL_MAGIC_NUMBER = 0x56494152"
definition PROTOCOL_VERSION :: byte where "PROTOCOL_VERSION = 7"

abbreviation MAX_AXES :: nat where "MAX_AXES \<equiv> 8"
abbreviation NUMBER_OF_DOF :: nat where "NUMBER_OF_DOF \<equiv> 8"
abbreviation MAX_GROUPS :: nat where "MAX_GROUPS \<equiv> 5"
abbreviation MAX_ALARM_COUNT :: nat where "MAX_ALARM_COUNT \<equiv> 16"
abbreviation VIAM_ERROR_MESSAGE_MAX_LEN :: nat where "VIAM_ERROR_MESSAGE_MAX_LEN \<equiv> 128"

section \<open>Slices and arrays\<close>

text \<open>\<open>slice off n bs\<close>: the field of \<open>n\<close> bytes at offset \<open>off\<close>.\<close>

definition slice :: "nat \<Rightarrow> nat \<Rightarrow> 'a list \<Rightarrow> 'a list" where
  "slice off n bs = take n (drop off bs)"

lemma slice_append_skip [simp]:
  "length xs \<le> off \<Longrightarrow> slice off n (xs @ ys) = slice (off - length xs) n ys"
  by (simp add: slice_def)

lemma slice_append_take [simp]: "length xs = n \<Longrightarrow> slice 0 n (xs @ ys) = xs"
  by (simp add: slice_def)

lemma slice_all [simp]: "length xs = n \<Longrightarrow> slice 0 n xs = xs"
  by (simp add: slice_def)

lemma slice_glue: "slice a n bs @ slice (a + n) m bs = slice a (n + m) bs"
  by (simp add: slice_def take_add add.commute [of n a])

lemma slice_length [simp]: "off + n \<le> length bs \<Longrightarrow> length (slice off n bs) = n"
  by (simp add: slice_def)

lemma slice_Cons_skip [simp]: "0 < off \<Longrightarrow> slice off n (x # xs) = slice (off - 1) n xs"
  by (cases off) (simp_all add: slice_def)

lemma slice_Cons_one [simp]: "slice 0 (Suc 0) (x # xs) = [x]" "slice 0 1 (x # xs) = [x]"
  by (simp_all add: slice_def)

lemma slice_one: "i < length bs \<Longrightarrow> slice i (Suc 0) bs = [bs ! i]"
  by (simp add: slice_def take_Suc_conv_app_nth)

lemma slice_none [simp]: "slice a 0 bs = []"
  by (simp add: slice_def)

text \<open>An array of elements of \<open>sz\<close> bytes each.\<close>

fun dec_array :: "nat \<Rightarrow> (byte list \<Rightarrow> 'a) \<Rightarrow> nat \<Rightarrow> byte list \<Rightarrow> 'a list" where
  "dec_array sz d 0 bs = []"
| "dec_array sz d (Suc n) bs = d (take sz bs) # dec_array sz d n (drop sz bs)"

definition enc_array :: "('a \<Rightarrow> byte list) \<Rightarrow> 'a list \<Rightarrow> byte list" where
  "enc_array e xs = concat (map e xs)"

lemma enc_array_simps [simp]:
  "enc_array e [] = []" "enc_array e (x # xs) = e x @ enc_array e xs"
  by (simp_all add: enc_array_def)

lemma length_enc_array:
  "(\<And>x. x \<in> set xs \<Longrightarrow> length (e x) = sz) \<Longrightarrow> length (enc_array e xs) = length xs * sz"
  by (induction xs) simp_all

lemma dec_enc_array:
  "\<lbrakk>\<And>x. x \<in> set xs \<Longrightarrow> length (e x) = sz \<and> d (e x) = x; length xs = n\<rbrakk> \<Longrightarrow>
   dec_array sz d n (enc_array e xs @ ys) = xs"
proof (induction xs arbitrary: n)
  case Nil
  then show ?case by simp
next
  case (Cons x xs)
  then show ?case by (cases n) simp_all
qed

lemma length_dec_array [simp]: "length (dec_array sz d n bs) = n"
  by (induction n arbitrary: bs) simp_all

definition enc_doubles :: "u64 list \<Rightarrow> byte list" where
  "enc_doubles = enc_array enc_u64"

definition dec_doubles :: "nat \<Rightarrow> byte list \<Rightarrow> u64 list" where
  "dec_doubles n = dec_array 8 dec_u64 n"

lemma length_enc_doubles [simp]: "length (enc_doubles xs) = 8 * length xs"
  by (simp add: enc_doubles_def length_enc_array [where sz = 8])

lemma dec_enc_doubles [simp]: "length xs = n \<Longrightarrow> dec_doubles n (enc_doubles xs) = xs"
  using dec_enc_array [of xs enc_u64 8 dec_u64 n "[]"]
  by (simp add: enc_doubles_def dec_doubles_def)

lemma length_dec_doubles [simp]: "length (dec_doubles n bs) = n"
  by (simp add: dec_doubles_def)

section \<open>Header\<close>

record protocol_header =
  magic_number :: u32
  version :: byte
  message_type :: byte
  timestamp_ms :: u64
  payload_length :: u32

abbreviation HEADER_SIZE :: nat where "HEADER_SIZE \<equiv> 18"

definition enc_header :: "protocol_header \<Rightarrow> byte list" where
  "enc_header h = enc_u32 (magic_number h) @ [version h] @ [message_type h] @
     enc_u64 (timestamp_ms h) @ enc_u32 (payload_length h)"

definition dec_header :: "byte list \<Rightarrow> protocol_header" where
  "dec_header bs = \<lparr>magic_number = dec_u32 (slice 0 4 bs), version = bs ! 4,
     message_type = bs ! 5, timestamp_ms = dec_u64 (slice 6 8 bs),
     payload_length = dec_u32 (slice 14 4 bs)\<rparr>"

lemma length_enc_header [simp]: "length (enc_header h) = HEADER_SIZE"
  by (simp add: enc_header_def)

lemma dec_enc_header [simp]: "dec_header (enc_header h) = h"
  by (simp add: dec_header_def enc_header_def nth_append)

lemma header_slices:
  "slice 0 4 bs @ slice 4 1 bs @ slice 5 1 bs @ slice 6 8 bs @ slice 14 4 bs = slice 0 18 bs"
  using slice_glue [of 6 8 bs 4] slice_glue [of 5 1 bs 12] slice_glue [of 4 1 bs 13]
    slice_glue [of 0 4 bs 14]
  by simp

lemma enc_dec_header:
  assumes "length bs = HEADER_SIZE"
  shows "enc_header (dec_header bs) = bs"
proof -
  have "[bs ! 4] = slice 4 1 bs" "[bs ! 5] = slice 5 1 bs"
    using assms by (simp_all add: slice_one)
  moreover have "enc_u32 (dec_u32 (slice 0 4 bs)) = slice 0 4 bs"
    "enc_u64 (dec_u64 (slice 6 8 bs)) = slice 6 8 bs"
    "enc_u32 (dec_u32 (slice 14 4 bs)) = slice 14 4 bs"
    using assms by (simp_all add: enc_dec_u32 enc_dec_u64)
  ultimately have "enc_header (dec_header bs) = slice 0 18 bs"
    by (simp only: enc_header_def dec_header_def protocol_header.select_convs header_slices)
  then show ?thesis using assms by simp
qed

text \<open>The magic number as \<open>read_header\<close> searches for it: \<open>RAIV\<close> in memory.\<close>

lemma magic_bytes: "enc_u32 PROTOCOL_MAGIC_NUMBER = [0x52, 0x41, 0x49, 0x56]"
  by (simp add: enc_u32_def PROTOCOL_MAGIC_NUMBER_def le_bytes_numeral)

lemma magic_iff:
  "length bs = HEADER_SIZE \<Longrightarrow> magic_number (dec_header bs) = PROTOCOL_MAGIC_NUMBER \<longleftrightarrow>
   take 4 bs = [0x52, 0x41, 0x49, 0x56]"
  using enc_dec_u32 [of "slice 0 4 bs"] dec_enc(2) [of PROTOCOL_MAGIC_NUMBER]
  by (auto simp: dec_header_def slice_def magic_bytes)

section \<open>Payloads\<close>

text \<open>Strings in a fixed array: the bytes, then zeros.\<close>

definition pad_to :: "nat \<Rightarrow> byte list \<Rightarrow> byte list" where
  "pad_to n bs = take n bs @ replicate (n - length bs) 0"

lemma length_pad_to [simp]: "length (pad_to n bs) = n"
  by (simp add: pad_to_def)

record error_payload =
  error_code :: i32
  ep_message :: "byte list"

definition enc_error_payload :: "error_payload \<Rightarrow> byte list" where
  "enc_error_payload e = enc_u32 (error_code e) @ ep_message e"

definition dec_error_payload :: "byte list \<Rightarrow> error_payload" where
  "dec_error_payload bs = \<lparr>error_code = dec_u32 (slice 0 4 bs), ep_message = slice 4 128 bs\<rparr>"

record status_payload =
  group_index :: byte
  group_type :: byte
  sp_timestamp :: i64
  num_axes :: byte
  position :: "u64 list"
  velocity :: "u64 list"
  torque :: "u64 list"
  position_corrected :: "u64 list"

definition wf_status :: "status_payload \<Rightarrow> bool" where
  "wf_status s \<longleftrightarrow> length (position s) = MAX_AXES \<and> length (velocity s) = MAX_AXES \<and>
     length (torque s) = MAX_AXES \<and> length (position_corrected s) = MAX_AXES"

definition enc_status :: "status_payload \<Rightarrow> byte list" where
  "enc_status s = [group_index s] @ [group_type s] @ enc_u64 (sp_timestamp s) @ [num_axes s] @
     enc_doubles (position s) @ enc_doubles (velocity s) @ enc_doubles (torque s) @
     enc_doubles (position_corrected s)"

definition dec_status :: "byte list \<Rightarrow> status_payload" where
  "dec_status bs = \<lparr>group_index = bs ! 0, group_type = bs ! 1,
     sp_timestamp = dec_u64 (slice 2 8 bs), num_axes = bs ! 10,
     position = dec_doubles 8 (slice 11 64 bs), velocity = dec_doubles 8 (slice 75 64 bs),
     torque = dec_doubles 8 (slice 139 64 bs),
     position_corrected = dec_doubles 8 (slice 203 64 bs)\<rparr>"

abbreviation STATUS_SIZE :: nat where "STATUS_SIZE \<equiv> 267"

lemma length_enc_status [simp]: "wf_status s \<Longrightarrow> length (enc_status s) = STATUS_SIZE"
  by (simp add: enc_status_def wf_status_def)

lemma dec_enc_status: "wf_status s \<Longrightarrow> dec_status (enc_status s) = s"
  by (simp add: dec_status_def enc_status_def wf_status_def nth_append)

record robot_status_payload =
  rs_ts :: i64
  rs_mode :: i32
  rs_e_stopped :: byte
  rs_drives_powered :: byte
  rs_motion_possible :: byte
  rs_in_motion :: byte
  rs_in_error :: byte
  rs_error_codes :: "i32 list"
  rs_size :: i32

definition wf_robot_status :: "robot_status_payload \<Rightarrow> bool" where
  "wf_robot_status s \<longleftrightarrow> length (rs_error_codes s) = MAX_ALARM_COUNT + 1"

definition enc_robot_status :: "robot_status_payload \<Rightarrow> byte list" where
  "enc_robot_status s = enc_u64 (rs_ts s) @ enc_u32 (rs_mode s) @ [rs_e_stopped s] @
     [rs_drives_powered s] @ [rs_motion_possible s] @ [rs_in_motion s] @ [rs_in_error s] @
     enc_array enc_u32 (rs_error_codes s) @ enc_u32 (rs_size s)"

definition dec_robot_status :: "byte list \<Rightarrow> robot_status_payload" where
  "dec_robot_status bs = \<lparr>rs_ts = dec_u64 (slice 0 8 bs), rs_mode = dec_u32 (slice 8 4 bs),
     rs_e_stopped = bs ! 12, rs_drives_powered = bs ! 13, rs_motion_possible = bs ! 14,
     rs_in_motion = bs ! 15, rs_in_error = bs ! 16,
     rs_error_codes = dec_array 4 dec_u32 17 (slice 17 68 bs),
     rs_size = dec_u32 (slice 85 4 bs)\<rparr>"

abbreviation ROBOT_STATUS_SIZE :: nat where "ROBOT_STATUS_SIZE \<equiv> 89"

lemma length_enc_robot_status [simp]:
  "wf_robot_status s \<Longrightarrow> length (enc_robot_status s) = ROBOT_STATUS_SIZE"
  by (simp add: enc_robot_status_def wf_robot_status_def length_enc_array [where sz = 4])

lemma dec_enc_robot_status: "wf_robot_status s \<Longrightarrow> dec_robot_status (enc_robot_status s) = s"
  using dec_enc_array [of "rs_error_codes s" enc_u32 4 dec_u32 17 "[]"]
  by (simp add: dec_robot_status_def enc_robot_status_def wf_robot_status_def nth_append
      length_enc_array [where sz = 4])

text \<open>The two versions of the UDP registration request share their first field.\<close>

definition udp_port_of :: "byte list \<Rightarrow> u16" where
  "udp_port_of payload = dec_u16 (slice 0 2 payload)"

definition protocol_version_of :: "byte list \<Rightarrow> byte" where
  "protocol_version_of payload = payload ! 2"

abbreviation UDP_REG_SIZE :: u32 where "UDP_REG_SIZE \<equiv> 2"
abbreviation UDP_REG_V2_SIZE :: u32 where "UDP_REG_V2_SIZE \<equiv> 3"

definition enc_udp_registration :: "u16 \<Rightarrow> byte \<Rightarrow> byte list" where
  "enc_udp_registration port v = enc_u16 port @ [v]"

lemma udp_registration_round_trip:
  "udp_port_of (enc_udp_registration port v) = port"
  "protocol_version_of (enc_udp_registration port v) = v"
  by (simp_all add: udp_port_of_def protocol_version_of_def enc_udp_registration_def nth_append)

section \<open>Trajectories\<close>

record tolerance =
  positions :: "u64 list"
  velocities :: "u64 list"
  accelerations :: "u64 list"
  torques :: "u64 list"

record trajectory_point = tolerance +
  time_sec :: u32
  time_nanos :: u32

abbreviation POINT_SIZE :: nat where "POINT_SIZE \<equiv> 264"
abbreviation TOLERANCE_SIZE :: nat where "TOLERANCE_SIZE \<equiv> 256"

definition wf_dofs :: "('a) tolerance_scheme \<Rightarrow> bool" where
  "wf_dofs p \<longleftrightarrow> length (positions p) = NUMBER_OF_DOF \<and> length (velocities p) = NUMBER_OF_DOF \<and>
     length (accelerations p) = NUMBER_OF_DOF \<and> length (torques p) = NUMBER_OF_DOF"

definition enc_dofs :: "('a) tolerance_scheme \<Rightarrow> byte list" where
  "enc_dofs p = enc_doubles (positions p) @ enc_doubles (velocities p) @
     enc_doubles (accelerations p) @ enc_doubles (torques p)"

definition enc_point :: "trajectory_point \<Rightarrow> byte list" where
  "enc_point p = enc_dofs p @ enc_u32 (time_sec p) @ enc_u32 (time_nanos p)"

definition enc_tolerance :: "tolerance \<Rightarrow> byte list" where
  "enc_tolerance p = enc_dofs p"

definition dec_tolerance :: "byte list \<Rightarrow> tolerance" where
  "dec_tolerance bs = \<lparr>positions = dec_doubles 8 (slice 0 64 bs),
     velocities = dec_doubles 8 (slice 64 64 bs), accelerations = dec_doubles 8 (slice 128 64 bs),
     torques = dec_doubles 8 (slice 192 64 bs)\<rparr>"

definition dec_point :: "byte list \<Rightarrow> trajectory_point" where
  "dec_point bs = \<lparr>positions = dec_doubles 8 (slice 0 64 bs),
     velocities = dec_doubles 8 (slice 64 64 bs), accelerations = dec_doubles 8 (slice 128 64 bs),
     torques = dec_doubles 8 (slice 192 64 bs), time_sec = dec_u32 (slice 256 4 bs),
     time_nanos = dec_u32 (slice 260 4 bs)\<rparr>"

lemma length_enc_dofs [simp]: "wf_dofs p \<Longrightarrow> length (enc_dofs p) = TOLERANCE_SIZE"
  by (simp add: enc_dofs_def wf_dofs_def)

lemma length_enc_point [simp]: "wf_dofs p \<Longrightarrow> length (enc_point p) = POINT_SIZE"
  by (simp add: enc_point_def)

lemma length_enc_tolerance [simp]: "wf_dofs p \<Longrightarrow> length (enc_tolerance p) = TOLERANCE_SIZE"
  by (simp add: enc_tolerance_def)

lemma dec_enc_point: "wf_dofs p \<Longrightarrow> dec_point (enc_point p) = p"
  by (simp add: dec_point_def enc_point_def enc_dofs_def wf_dofs_def)

lemma dec_enc_tolerance: "wf_dofs p \<Longrightarrow> dec_tolerance (enc_tolerance p) = p"
  by (simp add: dec_tolerance_def enc_tolerance_def enc_dofs_def wf_dofs_def)

section \<open>Properties of the wire format\<close>

definition ex_status :: status_payload where
  "ex_status = \<lparr>group_index = 1, group_type = 0, sp_timestamp = 5, num_axes = 6,
     position = replicate 8 1, velocity = replicate 8 2, torque = replicate 8 3,
     position_corrected = replicate 8 4\<rparr>"

definition ex_robot_status :: robot_status_payload where
  "ex_robot_status = \<lparr>rs_ts = 5, rs_mode = 2, rs_e_stopped = 0, rs_drives_powered = 1,
     rs_motion_possible = 1, rs_in_motion = 3, rs_in_error = 0,
     rs_error_codes = replicate 17 9, rs_size = 0\<rparr>"

lemma ex_status_wf [simp]: "wf_status ex_status" "wf_robot_status ex_robot_status"
  by (simp_all add: wf_status_def ex_status_def wf_robot_status_def ex_robot_status_def)

text \<open>The packed header and the two status datagrams. The header is 18 bytes, of which the first
  four are \<open>RAIV\<close> exactly when the magic number is right; decoding inverts encoding, and every 18
  bytes are the encoding of the header they decode to, so no two byte strings carry the same
  header. A status with arrays of the declared lengths takes 267 and 89 bytes, and decoding the
  bytes gives the status back, field by field.\<close>

theorem packed_round_trip:
  assumes "length bs = HEADER_SIZE" and "wf_status s" and "wf_robot_status r"
  shows "dec_header (enc_header h) = h \<and> enc_header (dec_header bs) = bs \<and>
    (take 4 (enc_header h) = [0x52, 0x41, 0x49, 0x56] \<longleftrightarrow>
      magic_number h = PROTOCOL_MAGIC_NUMBER) \<and>
    dec_status (enc_status s) = s \<and> length (enc_status s) = STATUS_SIZE \<and>
    dec_robot_status (enc_robot_status r) = r \<and> length (enc_robot_status r) = ROBOT_STATUS_SIZE"
proof -
  have "take 4 (enc_header h) = enc_u32 (magic_number h)" by (simp add: enc_header_def)
  moreover have "enc_u32 (magic_number h) = enc_u32 PROTOCOL_MAGIC_NUMBER \<longleftrightarrow>
      magic_number h = PROTOCOL_MAGIC_NUMBER"
    by (metis dec_enc(2))
  ultimately show ?thesis
    using enc_dec_header [OF assms(1)] assms(2,3)
    by (simp only: magic_bytes dec_enc_header dec_enc_status dec_enc_robot_status length_enc_status
        length_enc_robot_status simp_thms)
qed

theorem packed_round_trip_witness:
  "enc_header (dec_header (replicate 18 7)) = replicate 18 7 \<and>
   dec_status (enc_status ex_status) = ex_status \<and>
   dec_robot_status (enc_robot_status ex_robot_status) = ex_robot_status"
  using packed_round_trip [of "replicate 18 7" ex_status ex_robot_status] by simp

end
