(* ===== verification/MoveGoal.thy ===== *)
theory MoveGoal
  imports Platform Wire
begin

text \<open>
  The variable-length move goal of \<open>protocol.h\<close> and its validation and copy in
  \<open>robot_protocol.c\<close>. A goal is read in place in a block of memory, so every access is
  checked against the block that is really there, while the code checks against the size it
  is told. Sizes are computed as on the 64-bit POSIX build: \<open>sizeof\<close> has 64 bits, and the
  results are stored in 32 bits.
\<close>

section \<open>Layout\<close>

abbreviation MOVE_GOAL_HEADER_SIZE :: nat where "MOVE_GOAL_HEADER_SIZE \<equiv> 12"

definition read_u32 :: "byte list \<Rightarrow> nat \<Rightarrow> u32 res" where
  "read_u32 d off = andThen (memcpy_from d off 4) (\<lambda>b. Inr (dec_u32 b))"

definition MOVE_GOAL_CALC_SIZE :: "u32 \<Rightarrow> u32 \<Rightarrow> u64" where
  "MOVE_GOAL_CALC_SIZE traj_size tol_size =
     12 + ucast traj_size * 264 + 4 + ucast tol_size * 256"

text \<open>The offset of \<open>tolerance_size\<close>, below \<open>2\<^sup>41\<close>, which pointers can hold.\<close>

definition MOVE_GOAL_TOLERANCE_SIZE_OFFSET :: "u32 \<Rightarrow> nat" where
  "MOVE_GOAL_TOLERANCE_SIZE_OFFSET traj_size = MOVE_GOAL_HEADER_SIZE + unat traj_size * POINT_SIZE"

definition MOVE_GOAL_GET_TRAJECTORY :: "byte list \<Rightarrow> nat \<Rightarrow> trajectory_point list" where
  "MOVE_GOAL_GET_TRAJECTORY d n = dec_array POINT_SIZE dec_point n (drop MOVE_GOAL_HEADER_SIZE d)"

definition MOVE_GOAL_GET_TOLERANCE :: "byte list \<Rightarrow> u32 \<Rightarrow> nat \<Rightarrow> tolerance list" where
  "MOVE_GOAL_GET_TOLERANCE d traj_size n =
     dec_array TOLERANCE_SIZE dec_tolerance n (drop (MOVE_GOAL_TOLERANCE_SIZE_OFFSET traj_size + 4) d)"

section \<open>Operations\<close>

text \<open>The result is the pointer passed in, or NULL.\<close>

definition move_goal_from_payload ::
  "byte list option \<Rightarrow> u32 \<Rightarrow> world \<Rightarrow> (byte list option \<times> world) res" where
  "move_goal_from_payload data len w =
     (if (ucast len :: u64) < 12
      then Inr (None, pr_error ''Payload too small for move_goal header'' w)
      else (case data of
         None \<Rightarrow> Inl NullDeref
       | Some goal \<Rightarrow>
           andThen (read_u32 goal 0) (\<lambda>number_of_axes_controlled.
           andThen (read_u32 goal 4) (\<lambda>group_index.
           andThen (read_u32 goal 8) (\<lambda>trajectory_size.
             let w1 = pr_info ''go moved goal'' w in
             if trajectory_size = 0
             then Inr (None, pr_error ''Invalid trajectory_size: 0'' w1)
             else
               let size_to_tol_size = (ucast (12 + ucast trajectory_size * 264 :: u64) :: u32) in
               if (ucast len :: u64) < ucast size_to_tol_size + 4
               then Inr (None, pr_error ''Payload too small for trajectory data'' w1)
               else
                 andThen (read_u32 goal (MOVE_GOAL_TOLERANCE_SIZE_OFFSET trajectory_size))
                   (\<lambda>tolerance_size.
                     if tolerance_size \<noteq> 0 \<and> tolerance_size \<noteq> trajectory_size
                     then Inr (None, pr_error ''Tolerance size mismatch'' w1)
                     else
                       let required_size =
                         (ucast (MOVE_GOAL_CALC_SIZE trajectory_size tolerance_size) :: u32) in
                       if len < required_size
                       then Inr (None, pr_error ''Payload too small'' w1)
                       else Inr (data, pr_debug ''move_goal validated'' w1)))))))"

text \<open>
  The copy returns whether the result is \<open>dest_buffer\<close> (and not NULL), and the destination
  as it is afterwards.
\<close>

definition move_goal_deep_copy ::
  "byte list option \<Rightarrow> byte list option \<Rightarrow> u32 \<Rightarrow> world \<Rightarrow>
   (bool \<times> byte list option \<times> world) res" where
  "move_goal_deep_copy src dest_buffer dest_size w =
     (case (src, dest_buffer) of
        (Some s, Some dest) \<Rightarrow>
          andThen (read_u32 s 8) (\<lambda>trajectory_size.
          andThen (read_u32 s (MOVE_GOAL_TOLERANCE_SIZE_OFFSET trajectory_size)) (\<lambda>tolerance_size.
            let required_size =
              (ucast (MOVE_GOAL_CALC_SIZE trajectory_size tolerance_size) :: u32) in
            if dest_size < required_size
            then Inr (False, dest_buffer,
                   pr_error ''Destination buffer too small for deep copy'' w)
            else
              andThen (memcpy_from s 0 (unat required_size)) (\<lambda>bytes.
              andThen (memcpy_to dest 0 bytes) (\<lambda>dest1.
                Inr (True, Some dest1, pr_debug ''move_goal deep copied'' w)))))
      | _ \<Rightarrow> Inr (False, dest_buffer, w))"

section \<open>What a valid goal is\<close>

definition goal_traj :: "byte list \<Rightarrow> u32" where "goal_traj d = dec_u32 (slice 8 4 d)"

definition goal_tol :: "byte list \<Rightarrow> u32" where
  "goal_tol d = dec_u32 (slice (MOVE_GOAL_TOLERANCE_SIZE_OFFSET (goal_traj d)) 4 d)"

definition goal_bytes :: "nat \<Rightarrow> nat \<Rightarrow> nat" where
  "goal_bytes traj tol = MOVE_GOAL_HEADER_SIZE + traj * POINT_SIZE + 4 + tol * TOLERANCE_SIZE"

text \<open>
  The first \<open>n\<close> bytes hold a whole goal: at least one point, tolerances for every point or
  for none, and all of it inside the \<open>n\<close> bytes.
\<close>

definition goal_wf :: "byte list \<Rightarrow> nat \<Rightarrow> bool" where
  "goal_wf d n \<longleftrightarrow> 12 \<le> n \<and> goal_traj d \<noteq> 0 \<and> goal_bytes (unat (goal_traj d)) 0 \<le> n \<and>
     goal_tol d \<in> {0, goal_traj d} \<and> goal_bytes (unat (goal_traj d)) (unat (goal_tol d)) \<le> n"

text \<open>The trajectory sizes for which no size computation leaves 32 bits.\<close>

definition no_wrap :: "byte list \<Rightarrow> bool" where
  "no_wrap d \<longleftrightarrow> goal_bytes (unat (goal_traj d)) (unat (goal_traj d)) < 2 ^ 32"

lemma read_u32_ok: "off + 4 \<le> length d \<Longrightarrow> read_u32 d off = Inr (dec_u32 (slice off 4 d))"
  by (simp add: read_u32_def memcpy_from_ok slice_def)

lemma unat_u32_bound: "unat (x :: u32) < 4294967296"
  using unsigned_less [of x, where ?'a = nat] by simp

lemma unat_calc_size: "unat (MOVE_GOAL_CALC_SIZE a b) = goal_bytes (unat a) (unat b)"
proof -
  have a: "unat a < 4294967296" and b: "unat b < 4294967296" by (rule unat_u32_bound)+
  have "MOVE_GOAL_CALC_SIZE a b = word_of_nat (goal_bytes (unat a) (unat b))"
    by (simp add: MOVE_GOAL_CALC_SIZE_def goal_bytes_def add_ac)
  moreover have "goal_bytes (unat a) (unat b) < 2 ^ 64" using a b by (simp add: goal_bytes_def)
  ultimately show ?thesis by (simp add: unat_of_nat)
qed

lemma ucast_u32_small: "unat (x :: u64) < 2 ^ 32 \<Longrightarrow> unat (ucast x :: u32) = unat x"
  by (simp add: unsigned_ucast_eq take_bit_nat_eq_self)

lemma size_to_tol: "12 + ucast a * 264 = (word_of_nat (12 + unat a * 264) :: u64)"
  for a :: u32
  by simp

lemma unat_size_to_tol:
  assumes "goal_bytes (unat a) 0 < 2 ^ 32"
  shows "unat (ucast (12 + ucast a * 264 :: u64) :: u32) = 12 + unat a * 264"
proof -
  have "unat (word_of_nat (12 + unat a * 264) :: u64) = 12 + unat a * 264"
    using assms by (simp only: unat_of_nat) (simp add: goal_bytes_def)
  then show ?thesis
    using assms by (simp add: size_to_tol goal_bytes_def ucast_u32_small)
qed

lemma unat_required:
  "goal_bytes (unat a) (unat b) < 2 ^ 32 \<Longrightarrow>
   unat (ucast (MOVE_GOAL_CALC_SIZE a b) :: u32) = goal_bytes (unat a) (unat b)"
  by (simp add: ucast_u32_small unat_calc_size)

lemma unat_ucast64: "unat (ucast (x :: u32) :: u64) = unat x"
  by (simp add: unsigned_ucast_eq take_bit_nat_eq_self less_trans [OF unat_u32_bound])

lemma size_check:
  fixes len :: u32
  assumes "goal_bytes (unat a) 0 < 2 ^ 32"
  shows "(ucast len :: u64) < ucast (ucast (12 + ucast a * 264 :: u64) :: u32) + 4 \<longleftrightarrow>
    unat len < goal_bytes (unat a) 0"
proof -
  let ?x = "ucast (12 + ucast a * 264 :: u64) :: u32"
  have x: "unat ?x = 12 + unat a * 264" by (rule unat_size_to_tol [OF assms])
  have "ucast ?x + 4 = (word_of_nat (unat ?x + 4) :: u64)" by simp
  moreover have "unat (word_of_nat (unat ?x + 4) :: u64) = unat ?x + 4"
    using x assms by (simp only: unat_of_nat) (simp add: goal_bytes_def)
  ultimately have "unat (ucast ?x + 4 :: u64) = goal_bytes (unat a) 0"
    using x by (simp add: goal_bytes_def)
  then show ?thesis by (simp only: word_less_nat_alt unat_ucast64)
qed

section \<open>Validation\<close>

lemma goal_bytes_mono: "b \<le> c \<Longrightarrow> goal_bytes a b \<le> goal_bytes a c"
  by (simp add: goal_bytes_def)

lemma no_wrapD:
  assumes "no_wrap d"
  shows "goal_bytes (unat (goal_traj d)) 0 < 2 ^ 32"
    and "t \<in> {0, goal_traj d} \<Longrightarrow> goal_bytes (unat (goal_traj d)) (unat t) < 2 ^ 32"
proof -
  have le: "goal_bytes (unat (goal_traj d)) k < 2 ^ 32" if "k \<le> unat (goal_traj d)" for k
    using goal_bytes_mono [OF that, of "unat (goal_traj d)"] assms
    unfolding no_wrap_def by linarith
  show "goal_bytes (unat (goal_traj d)) 0 < 2 ^ 32" by (rule le) simp
  show "t \<in> {0, goal_traj d} \<Longrightarrow> goal_bytes (unat (goal_traj d)) (unat t) < 2 ^ 32"
    by (rule le) auto
qed

text \<open>The three reads of the header, then the checks.\<close>

lemma from_payload_header:
  assumes "12 \<le> unat len" and "unat len \<le> length d" and "goal_traj d \<noteq> 0"
    and "goal_bytes (unat (goal_traj d)) 0 < 2 ^ 32"
  shows "move_goal_from_payload (Some d) len w =
    (if unat len < goal_bytes (unat (goal_traj d)) 0
     then Inr (None, pr_error ''Payload too small for trajectory data'' (pr_info ''go moved goal'' w))
     else if goal_tol d \<notin> {0, goal_traj d}
     then Inr (None, pr_error ''Tolerance size mismatch'' (pr_info ''go moved goal'' w))
     else if len < ucast (MOVE_GOAL_CALC_SIZE (goal_traj d) (goal_tol d))
     then Inr (None, pr_error ''Payload too small'' (pr_info ''go moved goal'' w))
     else Inr (Some d, pr_debug ''move_goal validated'' (pr_info ''go moved goal'' w)))"
proof -
  have "\<not> (ucast len :: u64) < 12"
    using assms(1) by (simp add: word_less_nat_alt unat_ucast64)
  moreover have "read_u32 d (MOVE_GOAL_TOLERANCE_SIZE_OFFSET (goal_traj d)) = Inr (goal_tol d)"
    if "\<not> unat len < goal_bytes (unat (goal_traj d)) 0"
    using that assms(2)
    by (simp add: read_u32_ok goal_tol_def goal_bytes_def MOVE_GOAL_TOLERANCE_SIZE_OFFSET_def)
  moreover have "read_u32 d 8 = Inr (goal_traj d)"
    using assms(1,2) by (simp add: read_u32_ok goal_traj_def)
  ultimately show ?thesis
    using assms by (simp add: move_goal_from_payload_def read_u32_ok size_check Let_def)
qed

lemma from_payload_spec:
  assumes "unat len \<le> length d" and "no_wrap d"
  obtains w' where "move_goal_from_payload (Some d) len w =
      Inr (if goal_wf d (unat len) then Some d else None, w')"
    and "w_heap w' = w_heap w" and "w_trace w' = w_trace w"
proof (cases "unat len < 12 \<or> goal_traj d = 0")
  case True
  have "(ucast len :: u64) < 12 \<longleftrightarrow> unat len < 12"
    by (simp add: word_less_nat_alt unat_ucast64)
  moreover have "read_u32 d 8 = Inr (goal_traj d)" if "\<not> unat len < 12"
    using assms(1) that by (simp add: read_u32_ok goal_traj_def)
  ultimately have "\<exists>l s. move_goal_from_payload (Some d) len w = Inr (None, pr_error s w) \<or>
      move_goal_from_payload (Some d) len w = Inr (None, pr_error s (pr_info l w))"
    using True assms(1) by (auto simp: move_goal_from_payload_def read_u32_ok Let_def)
  moreover have "\<not> goal_wf d (unat len)" using True by (auto simp: goal_wf_def)
  ultimately show thesis by (auto intro: that)
next
  case False
  then have nz: "goal_traj d \<noteq> 0" and "12 \<le> unat len" by simp_all
  note eq = from_payload_header [OF this(2) assms(1) nz no_wrapD(1) [OF assms(2)], of w]
  have req: "len < ucast (MOVE_GOAL_CALC_SIZE (goal_traj d) (goal_tol d)) \<longleftrightarrow>
      unat len < goal_bytes (unat (goal_traj d)) (unat (goal_tol d))"
    if "goal_tol d \<in> {0, goal_traj d}"
    by (simp only: word_less_nat_alt unat_required [OF no_wrapD(2) [OF assms(2) that]])
  have "\<exists>w'. move_goal_from_payload (Some d) len w =
      Inr (if goal_wf d (unat len) then Some d else None, w') \<and>
      w_heap w' = w_heap w \<and> w_trace w' = w_trace w"
    unfolding eq using req False
    by (cases "goal_tol d \<in> {0, goal_traj d}") (auto simp: goal_wf_def not_less)
  then show thesis using that by blast
qed

section \<open>Encoding\<close>

definition enc_move_goal ::
  "u32 \<Rightarrow> u32 \<Rightarrow> trajectory_point list \<Rightarrow> tolerance list \<Rightarrow> byte list" where
  "enc_move_goal axes grp ps ts = enc_u32 axes @ enc_u32 grp @ enc_u32 (word_of_nat (length ps)) @
     enc_array enc_point ps @ enc_u32 (word_of_nat (length ts)) @ enc_array enc_tolerance ts"

definition goal_data :: "trajectory_point list \<Rightarrow> tolerance list \<Rightarrow> bool" where
  "goal_data ps ts \<longleftrightarrow> ps \<noteq> [] \<and> (ts = [] \<or> length ts = length ps) \<and>
     (\<forall>p \<in> set ps. wf_dofs p) \<and> (\<forall>t \<in> set ts. wf_dofs t) \<and>
     goal_bytes (length ps) (length ps) < 2 ^ 32"

lemma length_points: "goal_data ps ts \<Longrightarrow> length (enc_array enc_point ps) = length ps * POINT_SIZE"
  by (simp add: goal_data_def length_enc_array [where sz = POINT_SIZE])

lemma length_tolerances:
  "goal_data ps ts \<Longrightarrow> length (enc_array enc_tolerance ts) = length ts * TOLERANCE_SIZE"
  by (simp add: goal_data_def length_enc_array [where sz = TOLERANCE_SIZE])

lemma goal_unat:
  assumes "goal_data ps ts"
  shows "unat (word_of_nat (length ps) :: u32) = length ps"
    and "unat (word_of_nat (length ts) :: u32) = length ts"
proof -
  have "length ps < 4294967296" "length ts < 4294967296"
    using assms by (auto simp: goal_data_def goal_bytes_def)
  then show "unat (word_of_nat (length ps) :: u32) = length ps"
    and "unat (word_of_nat (length ts) :: u32) = length ts"
    by (simp_all add: unat_of_nat)
qed

lemma length_goal:
  "goal_data ps ts \<Longrightarrow> length (enc_move_goal axes grp ps ts) = goal_bytes (length ps) (length ts)"
  by (simp add: enc_move_goal_def length_points length_tolerances goal_bytes_def)

lemma goal_traj_enc: "goal_traj (enc_move_goal axes grp ps ts) = word_of_nat (length ps)"
  by (simp add: goal_traj_def enc_move_goal_def)

lemma goal_offset:
  "goal_data ps ts \<Longrightarrow>
   MOVE_GOAL_TOLERANCE_SIZE_OFFSET (word_of_nat (length ps)) = 12 + length ps * POINT_SIZE"
  by (simp add: MOVE_GOAL_TOLERANCE_SIZE_OFFSET_def goal_unat)

lemma goal_tol_enc:
  "goal_data ps ts \<Longrightarrow> goal_tol (enc_move_goal axes grp ps ts) = word_of_nat (length ts)"
  unfolding goal_tol_def goal_traj_enc by (simp add: goal_offset enc_move_goal_def length_points)

lemma goal_wf_enc:
  assumes "goal_data ps ts"
  shows "goal_wf (enc_move_goal axes grp ps ts) (goal_bytes (length ps) (length ts))"
    and "no_wrap (enc_move_goal axes grp ps ts)"
proof -
  note unat = goal_unat [OF assms] goal_tol_enc [OF assms] goal_traj_enc
  have "(word_of_nat (length ps) :: u32) \<noteq> 0"
    using unat(1) assms by (metis goal_data_def length_greater_0_conv less_irrefl unat_0)
  then show "goal_wf (enc_move_goal axes grp ps ts) (goal_bytes (length ps) (length ts))"
    using assms by (auto simp: goal_wf_def unat goal_bytes_def goal_data_def)
  show "no_wrap (enc_move_goal axes grp ps ts)"
    using assms by (simp add: no_wrap_def unat goal_data_def)
qed

lemma read_points:
  assumes "goal_data ps ts"
  shows "MOVE_GOAL_GET_TRAJECTORY (enc_move_goal axes grp ps ts) (length ps) = ps"
proof -
  have "MOVE_GOAL_GET_TRAJECTORY (enc_move_goal axes grp ps ts) (length ps) =
      dec_array POINT_SIZE dec_point (length ps) (enc_array enc_point ps @
        enc_u32 (word_of_nat (length ts)) @ enc_array enc_tolerance ts)"
    by (simp add: MOVE_GOAL_GET_TRAJECTORY_def enc_move_goal_def)
  also have "\<dots> = ps"
    by (rule dec_enc_array) (use assms in \<open>simp_all add: dec_enc_point goal_data_def\<close>)
  finally show ?thesis .
qed

lemma read_tolerances:
  assumes "goal_data ps ts"
  shows "MOVE_GOAL_GET_TOLERANCE (enc_move_goal axes grp ps ts) (word_of_nat (length ps)) (length ts) = ts"
proof -
  have "MOVE_GOAL_GET_TOLERANCE (enc_move_goal axes grp ps ts) (word_of_nat (length ps)) (length ts) =
      dec_array TOLERANCE_SIZE dec_tolerance (length ts) (enc_array enc_tolerance ts @ [])"
    by (simp add: MOVE_GOAL_GET_TOLERANCE_def enc_move_goal_def goal_offset [OF assms]
        length_points [OF assms])
  also have "\<dots> = ts"
    by (rule dec_enc_array) (use assms in \<open>simp_all add: dec_enc_tolerance goal_data_def\<close>)
  finally show ?thesis .
qed

section \<open>Properties of move goals\<close>



text \<open>C14. Round trip: a goal that a client encodes from its points and tolerances is accepted, and
  the accessor macros read back the same points and the same tolerances, bit by bit.\<close>

theorem move_goal_round_trip:
  assumes "goal_data ps ts"
  shows "\<exists>w'. move_goal_from_payload (Some (enc_move_goal axes grp ps ts))
        (word_of_nat (length (enc_move_goal axes grp ps ts))) w =
      Inr (Some (enc_move_goal axes grp ps ts), w') \<and>
    MOVE_GOAL_GET_TRAJECTORY (enc_move_goal axes grp ps ts)
      (unat (goal_traj (enc_move_goal axes grp ps ts))) = ps \<and>
    MOVE_GOAL_GET_TOLERANCE (enc_move_goal axes grp ps ts)
      (goal_traj (enc_move_goal axes grp ps ts))
      (unat (goal_tol (enc_move_goal axes grp ps ts))) = ts"
proof -
  let ?d = "enc_move_goal axes grp ps ts"
  have "length ?d < 2 ^ 32"
    using assms by (auto simp: length_goal goal_data_def goal_bytes_def)
  then have "unat (word_of_nat (length ?d) :: u32) = length ?d"
    by (simp add: unat_of_nat)
  then show ?thesis
    using from_payload_spec [of "word_of_nat (length ?d)" ?d w] goal_wf_enc [OF assms, of axes grp]
    by (simp add: goal_traj_enc goal_tol_enc [OF assms] goal_unat [OF assms]
        read_points [OF assms] read_tolerances [OF assms] length_goal [OF assms]) metis
qed

definition ex_point :: trajectory_point where
  "ex_point = \<lparr>positions = replicate 8 1, velocities = replicate 8 2,
     accelerations = replicate 8 3, torques = replicate 8 4, time_sec = 5, time_nanos = 6\<rparr>"

definition ex_tolerance :: tolerance where
  "ex_tolerance = \<lparr>positions = replicate 8 1, velocities = replicate 8 2,
     accelerations = replicate 8 3, torques = replicate 8 4\<rparr>"

lemma ex_goal_data: "goal_data [ex_point] [ex_tolerance]"
  by (simp add: goal_data_def wf_dofs_def ex_point_def ex_tolerance_def goal_bytes_def)

theorem move_goal_round_trip_witness:
  "MOVE_GOAL_GET_TRAJECTORY (enc_move_goal 6 0 [ex_point] [ex_tolerance])
     (unat (goal_traj (enc_move_goal 6 0 [ex_point] [ex_tolerance]))) = [ex_point]"
  using move_goal_round_trip [OF ex_goal_data, of 6 0 ok_world] by blast

text \<open>A trajectory size of \<open>2\<^sup>29\<close>: the offset of the tolerances does not fit 32 bits.\<close>

text \<open>C34. The size check can be passed by a goal that is not there: with a trajectory size of
  \<open>2\<^sup>29\<close> the 32-bit offset of the tolerance count wraps to 12, any payload of 16 bytes or more
  passes the check, and the tolerance count is then read \<open>2\<^sup>29 * 264\<close> bytes further on - outside
  every block the server can have received.\<close>

theorem move_goal_size_wraps:
  assumes "16 \<le> unat len" and "unat len \<le> length d" and "length d \<le> 104016"
    and "goal_traj d = 0x20000000"
  shows "move_goal_from_payload (Some d) len w = Inl OutOfBounds"
proof -
  have "\<not> (ucast len :: u64) < 12" and "\<not> (ucast len :: u64) < 16"
    using assms(1) by (simp_all add: word_less_nat_alt unat_ucast64)
  moreover have "read_u32 d 8 = Inr (goal_traj d)"
    using assms(1,2) by (simp add: read_u32_ok goal_traj_def)
  moreover have "read_u32 d (MOVE_GOAL_TOLERANCE_SIZE_OFFSET 0x20000000) = Inl OutOfBounds"
    using assms(3) by (simp add: read_u32_def memcpy_from_def MOVE_GOAL_TOLERANCE_SIZE_OFFSET_def)
  ultimately show ?thesis
    using assms by (simp add: move_goal_from_payload_def read_u32_ok Let_def)
qed

theorem move_goal_size_wraps_witness:
  "move_goal_from_payload (Some ([0,0,0,0, 0,0,0,0, 0,0,0,0x20, 0,0,0,0])) 16 ok_world = Inl OutOfBounds"
  by (rule move_goal_size_wraps)
    (simp_all add: goal_traj_def slice_def dec_u32_def)

text \<open>The copy carries over all that the accessors can reach.\<close>

lemma trans_via: "(\<And>z. f z = g (h z)) \<Longrightarrow> h x = h y \<Longrightarrow> f x = f y"
  by simp

lemma dec_array_prefix:
  "take (n * sz) xs = take (n * sz) ys \<Longrightarrow> dec_array sz f n xs = dec_array sz f n ys"
proof (induction n arbitrary: xs ys)
  case 0
  then show ?case by simp
next
  case (Suc n)
  have "take sz zs = take sz (take (Suc n * sz) zs)" for zs :: "byte list"
    by simp
  then have hd_eq: "take sz xs = take sz ys" using Suc.prems by (rule trans_via)
  have "take (n * sz) (drop sz zs) = drop sz (take (Suc n * sz) zs)" for zs :: "byte list"
    by (simp add: drop_take)
  then have "take (n * sz) (drop sz xs) = take (n * sz) (drop sz ys)"
    using Suc.prems by (rule trans_via)
  from Suc.IH [OF this] show ?case by (simp only: dec_array.simps hd_eq)
qed

lemma slice_prefix: "take m xs = take m ys \<Longrightarrow> off + n \<le> m \<Longrightarrow> slice off n xs = slice off n ys"
proof -
  assume eq: "take m xs = take m ys" and le: "off + n \<le> m"
  have "slice off n zs = slice off n (take m zs)" for zs :: "'a list"
    using le by (simp add: slice_def drop_take)
  then show ?thesis using eq by metis
qed

lemma memcpy_whole:
  "n \<le> length d \<Longrightarrow> n \<le> length dest \<Longrightarrow>
   andThen (memcpy_from d 0 n) (\<lambda>b. andThen (memcpy_to dest 0 b) f) =
   f (take n d @ drop n dest)"
  by (simp add: memcpy_from_ok memcpy_to_ok)

lemma deep_copy_spec:
  assumes wf: "goal_wf d n" and n: "n \<le> length d" and nw: "no_wrap d"
    and dest: "unat dest_size \<le> length dest"
  defines "R \<equiv> goal_bytes (unat (goal_traj d)) (unat (goal_tol d))"
  shows "\<exists>w'. move_goal_deep_copy (Some d) (Some dest) dest_size w =
    Inr (if R \<le> unat dest_size then (True, Some (take R d @ drop R dest), w')
         else (False, Some dest, w')) \<and> w_heap w' = w_heap w"
proof -
  have "read_u32 d 8 = Inr (goal_traj d)"
    using wf n by (simp add: read_u32_ok goal_traj_def goal_wf_def)
  moreover have "read_u32 d (MOVE_GOAL_TOLERANCE_SIZE_OFFSET (goal_traj d)) = Inr (goal_tol d)"
    using wf n
    by (simp add: read_u32_ok goal_tol_def goal_wf_def goal_bytes_def MOVE_GOAL_TOLERANCE_SIZE_OFFSET_def)
  moreover have req: "unat (ucast (MOVE_GOAL_CALC_SIZE (goal_traj d) (goal_tol d)) :: u32) = R"
    unfolding R_def by (rule unat_required, rule no_wrapD(2) [OF nw]) (use wf in \<open>simp add: goal_wf_def\<close>)
  moreover have "R \<le> length d" using wf n by (simp add: goal_wf_def R_def)
  ultimately show ?thesis
    using dest by (simp add: move_goal_deep_copy_def Let_def word_less_nat_alt memcpy_whole)
qed

text \<open>What the copy holds is the same goal.\<close>

lemma copied_goal:
  assumes wf: "goal_wf d n"
  defines "R \<equiv> goal_bytes (unat (goal_traj d)) (unat (goal_tol d))"
  assumes eq: "take R d' = take R d"
  shows "goal_traj d' = goal_traj d" and "goal_tol d' = goal_tol d" and "goal_wf d' R"
    and "MOVE_GOAL_GET_TRAJECTORY d' (unat (goal_traj d)) =
      MOVE_GOAL_GET_TRAJECTORY d (unat (goal_traj d))"
    and "MOVE_GOAL_GET_TOLERANCE d' (goal_traj d) (unat (goal_tol d)) =
      MOVE_GOAL_GET_TOLERANCE d (goal_traj d) (unat (goal_tol d))"
proof -
  have window: "take k (drop off d') = take k (drop off d)" if "off + k \<le> R" for off k
    using slice_prefix [OF eq that] by (simp add: slice_def)
  show traj: "goal_traj d' = goal_traj d"
    by (simp add: goal_traj_def slice_def window R_def goal_bytes_def)
  show tol: "goal_tol d' = goal_tol d"
    by (simp add: goal_tol_def traj slice_def window R_def goal_bytes_def
        MOVE_GOAL_TOLERANCE_SIZE_OFFSET_def)
  show "goal_wf d' R" using wf by (auto simp: goal_wf_def traj tol R_def goal_bytes_def)
  show "MOVE_GOAL_GET_TRAJECTORY d' (unat (goal_traj d)) =
      MOVE_GOAL_GET_TRAJECTORY d (unat (goal_traj d))"
    unfolding MOVE_GOAL_GET_TRAJECTORY_def
    by (rule dec_array_prefix, rule window) (simp add: R_def goal_bytes_def)
  show "MOVE_GOAL_GET_TOLERANCE d' (goal_traj d) (unat (goal_tol d)) =
      MOVE_GOAL_GET_TOLERANCE d (goal_traj d) (unat (goal_tol d))"
    unfolding MOVE_GOAL_GET_TOLERANCE_def
    by (rule dec_array_prefix, rule window)
      (simp add: R_def goal_bytes_def MOVE_GOAL_TOLERANCE_SIZE_OFFSET_def)
qed



end
