(* ===== verification/Response.thy ===== *)
theory Response
  imports Platform Wire "HOL-Library.Signed_Division"
begin

text \<open>
  Responses: \<open>allocate_response_context\<close>, \<open>free_command_response_context\<close>,
  \<open>send_command_response_context\<close> and the response macros. A context is three heap blocks,
  the context itself, the header and - when it has a payload - the payload; each is modelled
  by its address together with what it holds.
\<close>

section \<open>Time stamps\<close>

text \<open>\<open>tv_nsec\<close> is divided as a signed number; products and sums wrap at 64 bits.\<close>

definition get_timestamp_ms :: "world \<Rightarrow> i64 \<times> world" where
  "get_timestamp_ms w =
     (let (ts, w1) = clock_gettime w in
      (tv_sec ts * 1000 + word_of_int (sint (tv_nsec ts) sdiv 1000000), w1))"

section \<open>Contexts\<close>

record command_response_context =
  crc_addr :: nat
  crc_header_addr :: nat
  crc_header :: protocol_header
  crc_payload :: "(nat \<times> byte list) option"

definition allocate_response_context ::
  "u32 \<Rightarrow> byte \<Rightarrow> world \<Rightarrow> (command_response_context option \<times> world) res" where
  "allocate_response_context len type w =
     (case platform_malloc 16 w of
        (None, w1) \<Rightarrow> Inr (None, w1)
      | (Some c, w1) \<Rightarrow>
          (case platform_malloc 18 w1 of
             (None, w2) \<Rightarrow> andThen (platform_free (Some c) w2) (\<lambda>w3. Inr (None, w3))
           | (Some h, w2) \<Rightarrow>
               let (now, w3) = get_timestamp_ms w2;
                   hdr = \<lparr>magic_number = PROTOCOL_MAGIC_NUMBER, version = PROTOCOL_VERSION,
                     message_type = type, timestamp_ms = now, payload_length = len\<rparr>
               in if 0 < len
                  then (case platform_malloc len w3 of
                      (None, w4) \<Rightarrow>
                        andThen (platform_free (Some h) w4) (\<lambda>w5.
                        andThen (platform_free (Some c) w5) (\<lambda>w6. Inr (None, w6)))
                    | (Some p, w4) \<Rightarrow>
                        Inr (Some \<lparr>crc_addr = c, crc_header_addr = h, crc_header = hdr,
                               crc_payload = Some (p, uninit p (unat len) w4)\<rparr>, w4))
                  else Inr (Some \<lparr>crc_addr = c, crc_header_addr = h, crc_header = hdr,
                              crc_payload = None\<rparr>, w3)))"

definition free_command_response_context ::
  "command_response_context option \<Rightarrow> world \<Rightarrow> world res" where
  "free_command_response_context ctx w =
     (case ctx of
        None \<Rightarrow> Inl NullDeref
      | Some c \<Rightarrow>
          andThen (platform_free (map_option fst (crc_payload c)) w) (\<lambda>w1.
          andThen (platform_free (Some (crc_header_addr c)) w1)
            (\<lambda>w2. platform_free (Some (crc_addr c)) w2)))"

text \<open>\<open>sent\<close> is an unsigned long: a failed send adds \<open>2\<^sup>64 - 1\<close>.\<close>

definition send_header_and_payload ::
  "int \<Rightarrow> command_response_context \<Rightarrow> world \<Rightarrow> (u64 \<times> world) res" where
  "send_header_and_payload socket c w =
     (let (r, w1) = platform_send socket (enc_header (crc_header c)) w;
          len = payload_length (crc_header c) in
      case crc_payload c of
        None \<Rightarrow> Inr (word_of_int r, w1)
      | Some (_, bs) \<Rightarrow>
          if len = 0 then Inr (word_of_int r, w1)
          else andThen (memcpy_from bs 0 (unat len)) (\<lambda>out.
            let (r2, w2) = platform_send socket out w1 in
            Inr (word_of_int r + word_of_int r2, w2)))"

definition send_command_response_context ::
  "int \<Rightarrow> command_response_context option \<Rightarrow> world \<Rightarrow> (int \<times> world) res" where
  "send_command_response_context socket ctx w =
     (case ctx of
        None \<Rightarrow> Inl NullDeref
      | Some c \<Rightarrow>
          andThen (send_header_and_payload socket c w) (\<lambda>(sent, w1).
            let ret = (if sent = 18 + ucast (payload_length (crc_header c)) then 0 else -1) in
            andThen (free_command_response_context ctx w1) (\<lambda>w2. Inr (ret, w2))))"

text \<open>
  \<open>MSG_ERR_RESPONSE(err)\<close> copies the object \<open>err\<close>, whatever its type, into the payload;
  \<open>bytes\<close> is the object's representation. The macro \<open>MSG_ERR_RESPONSE_INT\<close> wraps a number
  in an error payload whose message is empty.
\<close>

definition MSG_ERR_RESPONSE ::
  "byte list \<Rightarrow> world \<Rightarrow> (command_response_context option \<times> world) res" where
  "MSG_ERR_RESPONSE bytes w =
     andThen (allocate_response_context (word_of_nat (length bytes)) (msg_num MSG_ERROR) w) (\<lambda>(ctx, w1).
       case ctx of
         None \<Rightarrow> Inr (None, w1)
       | Some c \<Rightarrow>
           (case crc_payload c of
              None \<Rightarrow> if bytes = [] then Inr (Some c, w1) else Inl NullDeref
            | Some (p, bs) \<Rightarrow>
                andThen (memcpy_to bs 0 bytes) (\<lambda>bs1.
                  Inr (Some (c\<lparr>crc_payload := Some (p, bs1)\<rparr>), w1))))"

definition MSG_ERR_RESPONSE_INT ::
  "i32 \<Rightarrow> world \<Rightarrow> (command_response_context option \<times> world) res" where
  "MSG_ERR_RESPONSE_INT val w =
     MSG_ERR_RESPONSE (enc_error_payload \<lparr>error_code = val, ep_message = replicate 128 0\<rparr>) w"

definition MSG_OK_RESPONSE :: "world \<Rightarrow> (command_response_context option \<times> world) res" where
  "MSG_OK_RESPONSE w = allocate_response_context 0 (msg_num MSG_OK) w"

text \<open>Compute the response, then send it.\<close>

definition respond ::
  "int \<Rightarrow> (world \<Rightarrow> (command_response_context option \<times> world) res) \<Rightarrow> world \<Rightarrow> (int \<times> world) res" where
  "respond socket mk w = andThen (mk w) (\<lambda>(ctx, w1). send_command_response_context socket ctx w1)"

section \<open>Ownership of the blocks\<close>

text \<open>Every live block is below the next fresh address and is listed once.\<close>

definition heap_ok :: "world \<Rightarrow> bool" where
  "heap_ok w \<longleftrightarrow> distinct (w_heap w) \<and> (\<forall>a \<in> set (w_heap w). a < w_next w)"

definition ctx_blocks :: "command_response_context \<Rightarrow> nat list" where
  "ctx_blocks c = (case crc_payload c of None \<Rightarrow> [] | Some (p, _) \<Rightarrow> [p]) @
     [crc_header_addr c, crc_addr c]"

text \<open>
  A context as the allocator makes it: its blocks are live and distinct, and the payload block
  is exactly as long as the header says.
\<close>

definition ctx_ok :: "command_response_context \<Rightarrow> world \<Rightarrow> bool" where
  "ctx_ok c w \<longleftrightarrow> distinct (ctx_blocks c) \<and> set (ctx_blocks c) \<subseteq> set (w_heap w) \<and>
     length (case crc_payload c of None \<Rightarrow> [] | Some (_, bs) \<Rightarrow> bs) =
       unat (payload_length (crc_header c))"

definition ctx_bytes :: "command_response_context \<Rightarrow> byte list" where
  "ctx_bytes c = enc_header (crc_header c) @ (case crc_payload c of None \<Rightarrow> [] | Some (_, bs) \<Rightarrow> bs)"

text \<open>What a call that only uses the heap leaves alone.\<close>

definition same_io :: "world \<Rightarrow> world \<Rightarrow> bool" where
  "same_io w w' \<longleftrightarrow> w_env w' = w_env w \<and> w_sems w' = w_sems w \<and> w_fds w' = w_fds w \<and>
     w_inq w' = w_inq w"

lemma same_io_refl [simp]: "same_io w w"
  by (simp add: same_io_def)

lemma same_io_trans: "same_io a b \<Longrightarrow> same_io b c \<Longrightarrow> same_io a c"
  by (simp add: same_io_def)

lemma timestamp_frame:
  assumes "get_timestamp_ms w = (t, w')"
  shows "same_io w w'" "w_heap w' = w_heap w" "w_next w' = w_next w" "w_trace w' = w_trace w"
    "w_log w' = w_log w"
  using assms by (auto simp: get_timestamp_ms_def clock_gettime_def same_io_def Let_def)

lemma platform_malloc_cases:
  obtains (fail) w1 where "platform_malloc len w = (None, w1)" "same_io w w1"
      "w_heap w1 = w_heap w" "w_next w1 = w_next w" "w_trace w1 = w_trace w"
  | (ok) w1 where "platform_malloc len w = (Some (w_next w), w1)" "same_io w w1"
      "w_heap w1 = w_next w # w_heap w" "w_next w1 = Suc (w_next w)" "w_trace w1 = w_trace w"
proof (cases "sint len < 0 \<or> \<not> e_malloc (w_env w) (w_calls w)")
  case True
  then show thesis
    by (intro fail [of "(tick w)\<lparr>w_errno := ENOMEM\<rparr>"])
      (auto simp: platform_malloc_def malloc_def same_io_def Let_def)
next
  case False
  then show thesis
    by (intro ok [of "(tick w)\<lparr>w_next := Suc (w_next w), w_heap := w_next w # w_heap w\<rparr>"])
      (auto simp: platform_malloc_def malloc_def same_io_def Let_def)
qed

lemma platform_free_head: "w_heap w = a # xs \<Longrightarrow> platform_free (Some a) w = Inr (w\<lparr>w_heap := xs\<rparr>)"
  by (simp add: platform_free_def)

text \<open>
  Allocation either fails and leaves the heap as it was, or puts the context's blocks on top of
  it.
\<close>

lemma allocate_spec:
  assumes "heap_ok w"
  obtains (fail) w' where "allocate_response_context len type w = Inr (None, w')"
      "w_heap w' = w_heap w" "same_io w w'" "heap_ok w'" "w_trace w' = w_trace w"
  | (ok) c w' where "allocate_response_context len type w = Inr (Some c, w')"
      "w_heap w' = ctx_blocks c @ w_heap w" "same_io w w'" "heap_ok w'" "w_trace w' = w_trace w"
      "ctx_ok c w'" "magic_number (crc_header c) = PROTOCOL_MAGIC_NUMBER"
      "version (crc_header c) = PROTOCOL_VERSION" "message_type (crc_header c) = type"
      "payload_length (crc_header c) = len" "len = 0 \<longleftrightarrow> crc_payload c = None"
proof -
  note defs = allocate_response_context_def Let_def platform_free_head
  show thesis
  proof (cases rule: platform_malloc_cases [of 16 w])
    case 1: (fail w1)
    then show thesis using assms by (intro fail [of w1]) (auto simp: defs heap_ok_def)
  next
    case 1: (ok w1)
    show thesis
    proof (cases rule: platform_malloc_cases [of 18 w1])
      case (fail w2)
      with 1 assms show thesis
        by (intro that(1) [of "w2\<lparr>w_heap := w_heap w\<rparr>"])
          (auto simp: defs heap_ok_def same_io_def)
    next
      case 2: (ok w2)
      obtain t w3 where t: "get_timestamp_ms w2 = (t, w3)" by (cases "get_timestamp_ms w2")
      note t' = timestamp_frame [OF t]
      show thesis
      proof (cases "len = 0")
        case True
        with 1 2 t t' assms show thesis
          by (intro that(2) [of "\<lparr>crc_addr = w_next w, crc_header_addr = w_next w1,
              crc_header = \<lparr>magic_number = PROTOCOL_MAGIC_NUMBER, version = PROTOCOL_VERSION,
                message_type = type, timestamp_ms = t, payload_length = len\<rparr>,
              crc_payload = None\<rparr>" w3])
            (auto simp: defs heap_ok_def same_io_def ctx_ok_def ctx_blocks_def)
      next
        case False
        then have pos: "0 < len" by (simp add: word_gt_0)
        show thesis
        proof (cases rule: platform_malloc_cases [of len w3])
          case (fail w4)
          with 1 2 t t' assms pos show thesis
            by (intro that(1) [of "w4\<lparr>w_heap := w_heap w\<rparr>"])
              (auto simp: defs heap_ok_def same_io_def)
        next
          case (ok w4)
          with 1 2 t t' assms pos show thesis
            by (intro that(2) [of "\<lparr>crc_addr = w_next w, crc_header_addr = w_next w1,
                crc_header = \<lparr>magic_number = PROTOCOL_MAGIC_NUMBER, version = PROTOCOL_VERSION,
                  message_type = type, timestamp_ms = t, payload_length = len\<rparr>,
                crc_payload = Some (w_next w3, uninit (w_next w3) (unat len) w4)\<rparr>" w4])
              (auto simp: defs heap_ok_def same_io_def ctx_ok_def ctx_blocks_def)
        qed
      qed
    qed
  qed
qed

lemma free_spec:
  assumes "heap_ok w" and "ctx_ok c w"
  shows "free_command_response_context (Some c) w =
    Inr (w\<lparr>w_heap := filter (\<lambda>a. a \<notin> set (ctx_blocks c)) (w_heap w)\<rparr>)"
proof -
  have eq: "filter (\<lambda>a. a \<noteq> x \<and> P a) xs = filter P (filter (\<lambda>a. a \<noteq> x) xs)" for x P and xs :: "nat list"
    by (simp add: conj_commute)
  show ?thesis
    using assms
    by (cases "crc_payload c")
      (auto simp: free_command_response_context_def platform_free_def ctx_ok_def ctx_blocks_def
        heap_ok_def distinct_remove1_removeAll removeAll_filter_not_eq conj_ac intro!: arg_cong
        [where f = "\<lambda>h. w\<lparr>w_heap := h\<rparr>"] filter_cong)
qed

section \<open>Sending\<close>

lemma platform_send_cases:
  obtains (err) w1 where "platform_send fd bs w = (-1, w1)" "same_io w w1" "w_heap w1 = w_heap w"
      "w_next w1 = w_next w" "w_trace w1 = w_trace w"
  | (sent) n w1 where "platform_send fd bs w = (int (min (length bs) n), w1)" "same_io w w1"
      "w_heap w1 = w_heap w" "w_next w1 = w_next w" "w_trace w1 = w_trace w @ [EvSend fd (take n bs)]"
proof (cases "fd \<in> set (w_fds w)")
  case False
  then show thesis
    by (intro err [of "(tick w)\<lparr>w_errno := EBADF\<rparr>"]) (simp_all add: platform_send_def same_io_def)
next
  case True
  show thesis
  proof (cases "e_send (w_env w) (w_calls w)")
    case (Inl e)
    with True show thesis
      by (intro err [of "(tick w)\<lparr>w_errno := e\<rparr>"]) (simp_all add: platform_send_def same_io_def)
  next
    case (Inr n)
    with True show thesis
      by (intro sent [of n "emit (EvSend fd (take n bs)) (tick w)"])
        (simp_all add: platform_send_def same_io_def)
  qed
qed

text \<open>The bytes that a stretch of output puts on a socket.\<close>

fun sent_on :: "int \<Rightarrow> event list \<Rightarrow> byte list" where
  "sent_on fd [] = []"
| "sent_on fd (EvSend s bs # evs) = (if s = fd then bs else []) @ sent_on fd evs"
| "sent_on fd (ev # evs) = sent_on fd evs"

lemma sent_on_append [simp]: "sent_on fd (xs @ ys) = sent_on fd xs @ sent_on fd ys"
  by (induction fd xs rule: sent_on.induct) simp_all

lemma sum_is_total:
  fixes a b n :: int
  assumes "-1 \<le> a" "a \<le> 18" "-1 \<le> b" "b \<le> n" "n < 2 ^ 32"
  shows "(word_of_int a + word_of_int b :: u64) = 18 + word_of_int n \<longleftrightarrow> a = 18 \<and> b = n"
proof
  assume "(word_of_int a + word_of_int b :: u64) = 18 + word_of_int n"
  then have "(word_of_int (a + b) :: u64) = word_of_int (18 + n)" by simp
  then have "take_bit 64 (a + b) = take_bit 64 (18 + n)"
    by (simp only: word_of_int_eq_iff) simp
  then have "(a + b) mod 2 ^ 64 = (18 + n) mod 2 ^ 64" by (simp only: take_bit_eq_mod)
  moreover have "(18 + n) mod 2 ^ 64 = 18 + n" using assms by simp
  moreover have "(a + b) mod 2 ^ 64 = (if a + b < 0 then a + b + 2 ^ 64 else a + b)"
  proof (cases "a + b < 0")
    case True
    have "(a + b) mod 2 ^ 64 = (a + b + 2 ^ 64) mod 2 ^ 64" by (simp only: mod_add_self2)
    also have "\<dots> = a + b + 2 ^ 64" by (rule mod_pos_pos_trivial) (use assms True in simp_all)
    finally show ?thesis using True by simp
  next
    case False
    then show ?thesis using assms by simp
  qed
  ultimately show "a = 18 \<and> b = n" using assms by (auto split: if_splits)
qed simp

lemma send_outcome:
  obtains r w1 evs where "platform_send fd bs w = (r, w1)" and "same_io w w1"
    and "w_heap w1 = w_heap w" and "w_next w1 = w_next w" and "w_trace w1 = w_trace w @ evs"
    and "-1 \<le> r" and "r \<le> int (length bs)" and "sent_on fd evs = take (nat r) bs"
    and "\<forall>ev \<in> set evs. \<exists>xs. ev = EvSend fd xs"
proof (cases rule: platform_send_cases [of fd bs w])
  case (err w1)
  then show thesis by (intro that [of "-1" w1 "[]"]) simp_all
next
  case (sent n w1)
  then show thesis
    by (intro that [of _ w1 "[EvSend fd (take n bs)]"]) (auto simp: min_def)
qed

definition ctx_body :: "command_response_context \<Rightarrow> byte list" where
  "ctx_body c = (case crc_payload c of None \<Rightarrow> [] | Some (_, bs) \<Rightarrow> bs)"

lemma ctx_bytes_body: "ctx_bytes c = enc_header (crc_header c) @ ctx_body c"
  by (simp add: ctx_bytes_def ctx_body_def)

lemma take_append_full:
  assumes "k \<le> length xs" and "m \<le> length ys"
  shows "take k xs @ take m ys = xs @ ys \<longleftrightarrow> k = length xs \<and> m = length ys"
proof
  assume "take k xs @ take m ys = xs @ ys"
  then have "length (take k xs @ take m ys) = length (xs @ ys)" by (rule arg_cong)
  then show "k = length xs \<and> m = length ys" using assms by simp
qed simp

lemma send_both_spec:
  assumes "ctx_ok c w"
  obtains sent w' evs where "send_header_and_payload fd c w = Inr (sent, w')" and "same_io w w'"
    and "w_heap w' = w_heap w" and "w_next w' = w_next w" and "w_trace w' = w_trace w @ evs"
    and "sent = 18 + ucast (payload_length (crc_header c)) \<longleftrightarrow> sent_on fd evs = ctx_bytes c"
    and "\<forall>ev \<in> set evs. \<exists>xs. ev = EvSend fd xs"
proof -
  let ?len = "payload_length (crc_header c)"
  have body: "length (ctx_body c) = unat ?len" using assms by (simp add: ctx_ok_def ctx_body_def)
  have bound: "int (unat ?len) < 2 ^ 32" using unsigned_less [of ?len, where ?'a = int] by simp
  have word: "(ucast ?len :: u64) = word_of_int (int (unat ?len))" by simp
  obtain r w1 evs where hdr: "platform_send fd (enc_header (crc_header c)) w = (r, w1)"
    "same_io w w1" "w_heap w1 = w_heap w" "w_next w1 = w_next w" "w_trace w1 = w_trace w @ evs"
    "-1 \<le> r" "r \<le> 18" "sent_on fd evs = take (nat r) (enc_header (crc_header c))"
    "\<forall>ev \<in> set evs. \<exists>xs. ev = EvSend fd xs"
    by (rule send_outcome [of fd "enc_header (crc_header c)" w]) simp
  show thesis
  proof (cases "crc_payload c = None \<or> ?len = 0")
    case True
    then have nil: "ctx_body c = []" "?len = 0"
      using body by (auto simp: ctx_body_def unat_eq_0)
    have "(word_of_int r :: u64) = 18 \<longleftrightarrow> r = 18"
      using sum_is_total [of r 0 0] hdr(6,7) by simp
    then show thesis
      using True hdr nil take_append_full [of "nat r" "enc_header (crc_header c)" 0 "[]"]
      by (intro that [of "word_of_int r" w1 evs])
        (auto simp: send_header_and_payload_def ctx_bytes_body split: option.split)
  next
    case False
    then obtain p bs where bs: "crc_payload c = Some (p, bs)" "ctx_body c = bs" "?len \<noteq> 0"
      by (auto simp: ctx_body_def)
    obtain r2 w2 evs2 where pay: "platform_send fd bs w1 = (r2, w2)" "same_io w1 w2"
      "w_heap w2 = w_heap w1" "w_next w2 = w_next w1" "w_trace w2 = w_trace w1 @ evs2"
      "-1 \<le> r2" "r2 \<le> int (length bs)" "sent_on fd evs2 = take (nat r2) bs"
      "\<forall>ev \<in> set evs2. \<exists>xs. ev = EvSend fd xs"
      by (rule send_outcome)
    have "memcpy_from bs 0 (unat ?len) = Inr bs" using body bs by (simp add: memcpy_from_ok)
    then have eq: "send_header_and_payload fd c w = Inr (word_of_int r + word_of_int r2, w2)"
      using hdr(1) pay(1) bs by (simp add: send_header_and_payload_def)
    have "word_of_int r + word_of_int r2 = (18 + ucast ?len :: u64) \<longleftrightarrow>
        r = 18 \<and> r2 = int (unat ?len)"
      unfolding word by (rule sum_is_total) (use hdr(6,7) pay(6,7) body bs(2) bound in simp_all)
    moreover have "sent_on fd (evs @ evs2) = ctx_bytes c \<longleftrightarrow> nat r = 18 \<and> nat r2 = length bs"
      using take_append_full [of "nat r" "enc_header (crc_header c)" "nat r2" bs] hdr(7) pay(7)
      by (simp add: ctx_bytes_body bs(2) hdr(8) pay(8))
    ultimately have all: "word_of_int r + word_of_int r2 = (18 + ucast ?len :: u64) \<longleftrightarrow>
        sent_on fd (evs @ evs2) = ctx_bytes c"
      using body bs(2) bs(3) by (auto simp: nat_eq_iff unat_eq_0)
    show thesis
      by (rule that [OF eq _ _ _ _ all])
        (use hdr pay in \<open>auto intro: same_io_trans\<close>)
  qed
qed

lemma ctx_ok_frame: "ctx_ok c w \<Longrightarrow> w_heap w' = w_heap w \<Longrightarrow> ctx_ok c w'"
  by (simp add: ctx_ok_def)

lemma heap_ok_frame: "heap_ok w \<Longrightarrow> w_heap w' = w_heap w \<Longrightarrow> w_next w' = w_next w \<Longrightarrow> heap_ok w'"
  by (simp add: heap_ok_def)

lemma send_spec:
  assumes heap: "heap_ok w" and ctx: "ctx_ok c w"
  obtains r w' evs where "send_command_response_context fd (Some c) w = Inr (r, w')"
    and "w_heap w' = filter (\<lambda>a. a \<notin> set (ctx_blocks c)) (w_heap w)" and "heap_ok w'"
    and "same_io w w'" and "w_trace w' = w_trace w @ evs"
    and "r = (if sent_on fd evs = ctx_bytes c then 0 else -1)"
    and "\<forall>ev \<in> set evs. \<exists>bs. ev = EvSend fd bs"
proof -
  obtain sent w1 evs where s: "send_header_and_payload fd c w = Inr (sent, w1)" "same_io w w1"
    "w_heap w1 = w_heap w" "w_next w1 = w_next w" "w_trace w1 = w_trace w @ evs"
    "sent = 18 + ucast (payload_length (crc_header c)) \<longleftrightarrow> sent_on fd evs = ctx_bytes c"
    "\<forall>ev \<in> set evs. \<exists>xs. ev = EvSend fd xs"
    by (rule send_both_spec [OF ctx])
  note free = free_spec [OF heap_ok_frame [OF heap s(3,4)] ctx_ok_frame [OF ctx s(3)]]
  show thesis
    by (rule that [of "if sent_on fd evs = ctx_bytes c then 0 else -1"
          "w1\<lparr>w_heap := filter (\<lambda>a. a \<notin> set (ctx_blocks c)) (w_heap w1)\<rparr>" evs])
      (use s free heap in \<open>auto simp: send_command_response_context_def heap_ok_def same_io_def\<close>)
qed

section \<open>Whole responses\<close>

text \<open>
  What a finished response has done: the heap and the descriptors are as before, the output is
  only on the given socket, and the status tells whether it is exactly the header of a message of
  the given type followed by the given body.
\<close>

definition response_done ::
  "int \<Rightarrow> world \<Rightarrow> byte \<Rightarrow> byte list \<Rightarrow> int \<Rightarrow> world \<Rightarrow> bool" where
  "response_done fd w type body r w' \<longleftrightarrow>
     w_heap w' = w_heap w \<and> heap_ok w' \<and> same_io w w' \<and>
     (\<exists>evs t. w_trace w' = w_trace w @ evs \<and> (\<forall>ev \<in> set evs. \<exists>bs. ev = EvSend fd bs) \<and>
        r = (if sent_on fd evs = enc_header \<lparr>magic_number = PROTOCOL_MAGIC_NUMBER,
               version = PROTOCOL_VERSION, message_type = type, timestamp_ms = t,
               payload_length = word_of_nat (length body)\<rparr> @ body then 0 else -1))"

text \<open>Sending a context whose blocks lie on top of the heap takes them off again.\<close>

lemma filter_blocks:
  "heap_ok w \<Longrightarrow> w_heap w = ctx_blocks c @ xs \<Longrightarrow> filter (\<lambda>a. a \<notin> set (ctx_blocks c)) (w_heap w) = xs"
  by (auto simp: heap_ok_def intro!: filter_True)

lemma send_fresh_context:
  assumes "heap_ok w1" and "ctx_ok c w1" and "w_heap w1 = ctx_blocks c @ w_heap w"
    and "same_io w w1" and "w_trace w1 = w_trace w" and "ctx_body c = body"
    and "magic_number (crc_header c) = PROTOCOL_MAGIC_NUMBER"
    and "version (crc_header c) = PROTOCOL_VERSION" and "message_type (crc_header c) = type"
    and "payload_length (crc_header c) = word_of_nat (length body)"
  obtains r w' where "send_command_response_context fd (Some c) w1 = Inr (r, w')"
    and "response_done fd w type body r w'"
proof -
  obtain r w' evs where s: "send_command_response_context fd (Some c) w1 = Inr (r, w')"
    "w_heap w' = filter (\<lambda>a. a \<notin> set (ctx_blocks c)) (w_heap w1)" "heap_ok w'" "same_io w1 w'"
    "w_trace w' = w_trace w1 @ evs" "r = (if sent_on fd evs = ctx_bytes c then 0 else -1)"
    "\<forall>ev \<in> set evs. \<exists>bs. ev = EvSend fd bs"
    by (rule send_spec [OF assms(1,2)])
  have "crc_header c = \<lparr>magic_number = PROTOCOL_MAGIC_NUMBER, version = PROTOCOL_VERSION,
      message_type = type, timestamp_ms = timestamp_ms (crc_header c),
      payload_length = word_of_nat (length body)\<rparr>"
    using assms(7-10) by (cases "crc_header c") simp
  then have "ctx_bytes c = enc_header \<lparr>magic_number = PROTOCOL_MAGIC_NUMBER,
      version = PROTOCOL_VERSION, message_type = type, timestamp_ms = timestamp_ms (crc_header c),
      payload_length = word_of_nat (length body)\<rparr> @ body"
    using assms(6) by (metis ctx_bytes_body)
  moreover have "w_heap w' = w_heap w" using s(2) filter_blocks [OF assms(1,3)] by simp
  ultimately have "response_done fd w type body r w'"
    using s(3,5,6,7) assms(5) same_io_trans [OF assms(4) s(4)] unfolding response_done_def
    by (intro conjI exI [of _ evs] exI [of _ "timestamp_ms (crc_header c)"]) simp_all
  with s(1) show thesis by (rule that)
qed

lemma respond_ok_spec:
  assumes "heap_ok w"
  shows "respond fd MSG_OK_RESPONSE w = Inl NullDeref \<or>
    (\<exists>r w'. respond fd MSG_OK_RESPONSE w = Inr (r, w') \<and>
       response_done fd w (msg_num MSG_OK) [] r w')"
proof (cases rule: allocate_spec [OF assms, of 0 "msg_num MSG_OK"])
  case (1 w')
  then show ?thesis
    by (simp add: respond_def MSG_OK_RESPONSE_def send_command_response_context_def)
next
  case ok: (2 c w1)
  obtain r w' where "send_command_response_context fd (Some c) w1 = Inr (r, w')"
    "response_done fd w (msg_num MSG_OK) [] r w'"
    by (rule send_fresh_context [of w1 c w "[]" "msg_num MSG_OK" fd])
      (use ok in \<open>simp_all add: ctx_body_def\<close>)
  then show ?thesis using ok(1) by (simp add: respond_def MSG_OK_RESPONSE_def)
qed

lemma msg_err_response_spec:
  assumes "heap_ok w" and "bytes \<noteq> []" and "length bytes < 2 ^ 32"
  obtains (fail) w' where "MSG_ERR_RESPONSE bytes w = Inr (None, w')"
      "w_heap w' = w_heap w" "same_io w w'" "heap_ok w'" "w_trace w' = w_trace w"
  | (ok) c w1 where "MSG_ERR_RESPONSE bytes w = Inr (Some c, w1)"
      "w_heap w1 = ctx_blocks c @ w_heap w" "same_io w w1" "heap_ok w1" "w_trace w1 = w_trace w"
      "ctx_ok c w1" "magic_number (crc_header c) = PROTOCOL_MAGIC_NUMBER"
      "version (crc_header c) = PROTOCOL_VERSION"
      "message_type (crc_header c) = msg_num MSG_ERROR" "ctx_body c = bytes"
      "payload_length (crc_header c) = word_of_nat (length bytes)"
proof (cases rule: allocate_spec [OF assms(1), of "word_of_nat (length bytes)" "msg_num MSG_ERROR"])
  case (1 w')
  then show thesis by (intro that(1) [of w']) (simp_all add: MSG_ERR_RESPONSE_def)
next
  case ok: (2 c w1)
  have len: "unat (word_of_nat (length bytes) :: u32) = length bytes"
    using assms(3) by (simp add: unat_of_nat)
  then have "(word_of_nat (length bytes) :: u32) \<noteq> 0"
    using assms(2) by (metis length_greater_0_conv less_irrefl unat_0)
  then obtain p bs where pl: "crc_payload c = Some (p, bs)" using ok(11) by auto
  moreover have "length bs = length bytes" using ok(6,10) pl len by (simp add: ctx_ok_def)
  ultimately have "MSG_ERR_RESPONSE bytes w = Inr (Some (c\<lparr>crc_payload := Some (p, bytes)\<rparr>), w1)"
    using ok(1) by (simp add: MSG_ERR_RESPONSE_def memcpy_to_ok)
  then show thesis
    by (rule that(2)) (use ok pl len in \<open>simp_all add: ctx_blocks_def ctx_ok_def ctx_body_def\<close>)
qed

lemma respond_err_spec:
  assumes "heap_ok w" and "bytes \<noteq> []" and "length bytes < 2 ^ 32"
  shows "respond fd (MSG_ERR_RESPONSE bytes) w = Inl NullDeref \<or>
    (\<exists>r w'. respond fd (MSG_ERR_RESPONSE bytes) w = Inr (r, w') \<and>
       response_done fd w (msg_num MSG_ERROR) bytes r w')"
proof (cases rule: msg_err_response_spec [OF assms])
  case (1 w')
  then show ?thesis by (simp add: respond_def send_command_response_context_def)
next
  case (2 c w1)
  obtain r w' where "send_command_response_context fd (Some c) w1 = Inr (r, w')"
    "response_done fd w (msg_num MSG_ERROR) bytes r w'"
    by (rule send_fresh_context [of w1 c w bytes "msg_num MSG_ERROR" fd]) (use 2 in simp_all)
  then show ?thesis using 2(1) by (simp add: respond_def)
qed

section \<open>Properties of responses\<close>

text \<open>C16. \<open>send_command_response_context\<close>: for every context as the allocator makes it, whatever the
  operating system answers, the function returns \<open>0\<close> exactly when the bytes it put on the socket
  are the header followed by the whole payload, it always frees the blocks of the context and no
  others, and it writes to no other descriptor.\<close>

theorem send_reports_delivery_and_frees:
  assumes "heap_ok w" and "ctx_ok c w"
  shows "\<exists>r w' evs. send_command_response_context fd (Some c) w = Inr (r, w') \<and>
    w_trace w' = w_trace w @ evs \<and> (\<forall>ev \<in> set evs. \<exists>bs. ev = EvSend fd bs) \<and>
    r = (if sent_on fd evs = ctx_bytes c then 0 else -1) \<and>
    w_heap w' = filter (\<lambda>a. a \<notin> set (ctx_blocks c)) (w_heap w)"
  by (rule send_spec [OF assms, of fd]) blast

definition ex_ctx :: command_response_context where
  "ex_ctx = \<lparr>crc_addr = 1, crc_header_addr = 2,
     crc_header = \<lparr>magic_number = PROTOCOL_MAGIC_NUMBER, version = 7, message_type = 5,
       timestamp_ms = 0, payload_length = 1\<rparr>, crc_payload = Some (3, [9])\<rparr>"

definition ex_heap_world :: world where
  "ex_heap_world = ok_world\<lparr>w_heap := [3, 2, 1, 0], w_next := 4\<rparr>"

theorem send_reports_delivery_and_frees_witness:
  "\<exists>r w'. send_command_response_context 5 (Some ex_ctx) ex_heap_world = Inr (r, w') \<and> w_heap w' = [0]"
  using send_reports_delivery_and_frees [of ex_heap_world ex_ctx 5]
  by (fastforce simp: heap_ok_def ctx_ok_def ex_ctx_def ex_heap_world_def ctx_blocks_def)

definition error_int_body :: "i32 \<Rightarrow> byte list" where
  "error_int_body v = enc_u32 v @ replicate 128 0"

lemma respond_err_int_spec:
  assumes "heap_ok w"
  shows "respond fd (MSG_ERR_RESPONSE_INT v) w = Inl NullDeref \<or>
    (\<exists>r w'. respond fd (MSG_ERR_RESPONSE_INT v) w = Inr (r, w') \<and>
       response_done fd w (msg_num MSG_ERROR) (error_int_body v) r w')"
proof -
  have "MSG_ERR_RESPONSE_INT v = MSG_ERR_RESPONSE (error_int_body v)"
    by (simp add: fun_eq_iff MSG_ERR_RESPONSE_INT_def enc_error_payload_def error_int_body_def)
  moreover have "length (error_int_body v) = 132" by (simp add: error_int_body_def)
  moreover have "error_int_body v \<noteq> []" by (simp add: error_int_body_def)
  ultimately show ?thesis
    using respond_err_spec [OF assms, of "error_int_body v" fd] by simp
qed

text \<open>Answering with an error code: whatever the operating system answers, the server either
  dereferences a NULL context (the allocation of the response failed, which the code does not
  check), or all memory of the response is freed again and the client has been sent an error
  message of 132 bytes with that code - wholly exactly when the call returns \<open>0\<close>. A failing first
  allocation is enough for the NULL dereference.\<close>

theorem error_reply_balanced_or_null:
  assumes "heap_ok w"
  shows "(case respond fd (MSG_ERR_RESPONSE_INT v) w of
      Inl e \<Rightarrow> e = NullDeref
    | Inr (r, w') \<Rightarrow> e_malloc (w_env w) (w_calls w) \<and>
        response_done fd w (msg_num MSG_ERROR) (error_int_body v) r w')"
proof (cases "e_malloc (w_env w) (w_calls w)")
  case True
  then show ?thesis using respond_err_int_spec [OF assms, of fd v] by auto
next
  case False
  then have "allocate_response_context len type w = Inr (None, (tick w)\<lparr>w_errno := ENOMEM\<rparr>)" for len type
    by (simp add: allocate_response_context_def platform_malloc_def malloc_def)
  then show ?thesis
    by (simp add: respond_def MSG_ERR_RESPONSE_INT_def MSG_ERR_RESPONSE_def
        send_command_response_context_def)
qed

theorem error_reply_balanced_or_null_witness:
  "respond 5 (MSG_ERR_RESPONSE_INT (-1)) (ok_world\<lparr>w_env := ok_env\<lparr>e_malloc := \<lambda>_. False\<rparr>\<rparr>) = Inl NullDeref"
  using error_reply_balanced_or_null [of "ok_world\<lparr>w_env := ok_env\<lparr>e_malloc := \<lambda>_. False\<rparr>\<rparr>" 5 "-1"]
  by (cases "respond 5 (MSG_ERR_RESPONSE_INT (-1)) (ok_world\<lparr>w_env := ok_env\<lparr>e_malloc := \<lambda>_. False\<rparr>\<rparr>)")
    (auto simp: heap_ok_def)

end
