(* ===== verification/ReadHeader.thy ===== *)
theory ReadHeader
  imports Platform Wire
begin

text \<open>
  \<open>read_header\<close>: reading a message header from a TCP stream, with the search for the magic
  number when the stream is out of step. The header is a block of 18 bytes. The read position
  is \<open>header + offset\<close> on a pointer to the struct, so an offset counts whole headers. The loop is
  modelled twice: as a function over the bytes that wait when it is called, and turn by turn, with
  bytes arriving in between; the first is the second when nothing arrives.
\<close>

section \<open>Bytes waiting on a socket\<close>

fun ans_bytes :: "recv_ans \<Rightarrow> nat" where
  "ans_bytes (Seg b bs) = Suc (length bs)"
| "ans_bytes (RecvErr e) = 0"
| "ans_bytes Eof = 0"

definition waiting :: "world \<Rightarrow> int \<Rightarrow> nat" where
  "waiting w fd = sum_list (map ans_bytes (w_inq w fd))"

lemma seg_bytes [simp]: "sum_list (map ans_bytes (seg bs)) = length bs"
  by (cases bs) simp_all

lemma seg_nonempty: "bs \<noteq> [] \<Longrightarrow> seg bs = [Seg (hd bs) (tl bs)]"
  by (cases bs) simp_all

lemma recv_seg:
  assumes "fd \<in> set (w_fds w)" and "0 < n" and "bs \<noteq> []" and "w_inq w fd = seg bs @ q"
  shows "platform_recv fd n d w = Inr (int (min n (length bs)), take n bs,
    w\<lparr>w_inq := (w_inq w)(fd := seg (drop n bs) @ q)\<rparr>)"
  using assms by (cases bs) (simp_all add: platform_recv_def Let_def)

text \<open>What a receive does, by outcome.\<close>

lemma recv_cases:
  assumes "platform_recv fd n d w = Inr (r, got, w')"
  obtains (none) "r \<le> 0" and "got = []" and "w_trace w' = w_trace w" and "w_heap w' = w_heap w"
      and "w_env w' = w_env w" and "w_sems w' = w_sems w" and "w_fds w' = w_fds w"
      and "w_next w' = w_next w"
  | (data) bs q where "fd \<in> set (w_fds w)" and "0 < n" and "bs \<noteq> []" and "w_inq w fd = seg bs @ q"
      and "r = int (min n (length bs))" and "got = take n bs"
      and "w' = w\<lparr>w_inq := (w_inq w)(fd := seg (drop n bs) @ q)\<rparr>"
proof (cases "fd \<in> set (w_fds w) \<and> 0 < n \<and> (\<exists>b bs q. w_inq w fd = Seg b bs # q)")
  case True
  then obtain b bs q where "w_inq w fd = seg (b # bs) @ q" by auto
  with True assms recv_seg [of fd w n "b # bs" q d] show thesis
    by (intro data [of "b # bs" q]) simp_all
next
  case False
  with assms show thesis
    by (intro none)
      (auto simp: platform_recv_def Let_def split: if_splits list.splits recv_ans.splits)
qed

lemma recv_consumes:
  assumes "platform_recv fd n d w = Inr (r, got, w')" and "0 < r"
  shows "waiting w' fd < waiting w fd"
  using assms(1)
proof (cases rule: recv_cases)
  case (data bs q)
  then show ?thesis by (cases bs) (simp_all add: waiting_def)
qed (use assms(2) in simp)

lemma recv_length:
  assumes "platform_recv fd n d w = Inr (r, got, w')" and "0 < r"
  shows "r = int (length got)" and "length got \<le> n" and "0 < length got"
  using assms(1)
  by (cases rule: recv_cases, use assms(2) in simp, simp add: min_def)+

section \<open>The loop\<close>

fun memchr :: "byte list \<Rightarrow> byte \<Rightarrow> nat option" where
  "memchr [] c = None"
| "memchr (b # bs) c = (if b = c then Some 0 else map_option Suc (memchr bs c))"

definition memmove_to_front :: "byte list \<Rightarrow> nat \<Rightarrow> byte list" where
  "memmove_to_front mem from = drop from mem @ drop (length mem - from) mem"

function read_header_loop ::
  "int \<Rightarrow> byte list \<Rightarrow> nat \<Rightarrow> nat \<Rightarrow> world \<Rightarrow> (int \<times> byte list \<times> world) res" where
  "read_header_loop socket header offset to_read w =
     andThen (platform_recv socket to_read True w) (\<lambda>(bytes_read, got, w1).
       if bytes_read \<le> 0 then
         (let err = w_errno w1 in
          if err = EWOULDBLOCK \<or> err = EAGAIN then Inr (1, header, w1) else Inr (-1, header, w1))
       else
         andThen (memcpy_to header (HEADER_SIZE * offset) got) (\<lambda>header1.
           if bytes_read \<noteq> int to_read then Inr (bytes_read, header1, w1)
           else if magic_number (dec_header header1) = PROTOCOL_MAGIC_NUMBER
           then Inr (int HEADER_SIZE, header1, w1)
           else (case memchr header1 0x52 of
               Some begin \<Rightarrow>
                 read_header_loop socket (memmove_to_front header1 begin)
                   (HEADER_SIZE - begin) begin w1
             | None \<Rightarrow> read_header_loop socket header1 0 HEADER_SIZE w1)))"
  by pat_completeness auto

termination
  by (relation "measure (\<lambda>(socket, _, _, _, w). waiting w socket)") (auto simp: recv_consumes)

definition read_header :: "int \<Rightarrow> byte list \<Rightarrow> world \<Rightarrow> (int \<times> byte list \<times> world) res" where
  "read_header socket header w = read_header_loop socket header 0 HEADER_SIZE w"

declare read_header_loop.simps [simp del]

section \<open>Properties of the header reader\<close>

lemma memchr_bound: "memchr bs c = Some i \<Longrightarrow> i < length bs"
  by (induction bs arbitrary: i) (auto split: if_splits)

lemma memchr_None: "memchr bs c = None \<longleftrightarrow> c \<notin> set bs"
  by (induction bs) auto

lemma replicate_eq_iff: "replicate n a = b # bs \<longleftrightarrow> 0 < n \<and> a = b \<and> bs = replicate (n - 1) a"
  by (cases n) auto

lemma memchr_skip: "c \<notin> set xs \<Longrightarrow> memchr (xs @ c # ys) c = Some (length xs)"
  by (induction xs) auto

lemma length_memmove [simp]: "from \<le> length mem \<Longrightarrow> length (memmove_to_front mem from) = length mem"
  by (simp add: memmove_to_front_def)

text \<open>What a call leaves as it was.\<close>

definition read_frame :: "int \<Rightarrow> world \<Rightarrow> world \<Rightarrow> bool" where
  "read_frame fd w w' \<longleftrightarrow> w_trace w' = w_trace w \<and> w_heap w' = w_heap w \<and> w_env w' = w_env w \<and>
     w_sems w' = w_sems w \<and> w_fds w' = w_fds w \<and> w_next w' = w_next w"

lemma recv_frame: "platform_recv fd n d w = Inr (r, got, w') \<Longrightarrow> read_frame fd w w'"
  by (erule recv_cases) (simp_all add: read_frame_def)

lemma read_frame_trans: "read_frame fd a b \<Longrightarrow> read_frame fd b c \<Longrightarrow> read_frame fd a c"
  by (simp add: read_frame_def)

text \<open>
  The loop is either at the start of a header or, after a resynchronisation, past the end of it.
\<close>

definition loop_pos :: "nat \<Rightarrow> nat \<Rightarrow> bool" where
  "loop_pos offset to_read \<longleftrightarrow> offset = 0 \<and> to_read = 18 \<or> 0 < offset \<and> offset + to_read = 18"

lemma read_header_loop_sound:
  assumes "read_header_loop fd mem offset to_read w = Inr (r, mem', w')"
    and "length mem = HEADER_SIZE" and "loop_pos offset to_read"
  shows "length mem' = HEADER_SIZE \<and> r \<in> {-1..18} - {0} \<and> read_frame fd w w' \<and>
    (r = 18 \<longrightarrow> magic_number (dec_header mem') = PROTOCOL_MAGIC_NUMBER)"
  using assms
proof (induction fd mem offset to_read w arbitrary: r mem' w' rule: read_header_loop.induct)
  case (1 fd mem offset to_read w)
  obtain n got w1 where recv: "platform_recv fd to_read True w = Inr (n, got, w1)"
    using "1.prems"(1) by (subst (asm) read_header_loop.simps) (auto simp: andThen_eq_Inr)
  note frame = recv_frame [OF recv]
  show ?case
  proof (cases "n \<le> 0")
    case True
    then show ?thesis
      using "1.prems" recv frame
      by (subst (asm) read_header_loop.simps) (auto simp: Let_def split: if_splits)
  next
    case False
    note len = recv_length [OF recv] and step = "1.prems"(1) [unfolded read_header_loop.simps [of fd mem]]
    obtain m1 where m1: "memcpy_to mem (HEADER_SIZE * offset) got = Inr m1"
      using step recv False by (auto simp: andThen_eq_Inr)
    have l1: "length m1 = HEADER_SIZE" using memcpy_to_length [OF m1] "1.prems"(2) by simp
    have "HEADER_SIZE * offset + length got \<le> HEADER_SIZE"
      using m1 "1.prems"(2) by (simp add: memcpy_to_def split: if_splits)
    then have "offset = 0" using len(3) False by linarith
    then have to_read: "to_read = 18" using "1.prems"(3) by (simp add: loop_pos_def)
    consider (short) "n \<noteq> 18" | (found) "n = 18" "magic_number (dec_header m1) = PROTOCOL_MAGIC_NUMBER"
      | (resync) b where "n = 18" "magic_number (dec_header m1) \<noteq> PROTOCOL_MAGIC_NUMBER" "memchr m1 0x52 = Some b"
      | (skip) "n = 18" "magic_number (dec_header m1) \<noteq> PROTOCOL_MAGIC_NUMBER" "memchr m1 0x52 = None"
      by (cases "memchr m1 0x52") auto
    then show ?thesis
    proof cases
      case short
      then show ?thesis using step recv m1 False len l1 frame to_read by auto
    next
      case found
      then show ?thesis using step recv m1 l1 frame to_read by auto
    next
      case (resync b)
      have b: "b < 18" using memchr_bound [OF resync(3)] l1 by simp
      have "read_header_loop fd (memmove_to_front m1 b) (18 - b) b w1 = Inr (r, mem', w')"
        using step recv m1 resync to_read by simp
      from "1.IH"(2) [OF recv refl refl False m1 _ resync(2,3) this] show ?thesis
        using resync(1) b l1 to_read frame by (auto simp: loop_pos_def intro: read_frame_trans)
    next
      case skip
      have "read_header_loop fd m1 0 18 w1 = Inr (r, mem', w')"
        using step recv m1 skip to_read by simp
      from "1.IH"(1) [OF recv refl refl False m1 _ skip(2,3) this] show ?thesis
        using skip(1) l1 to_read frame by (auto simp: loop_pos_def intro: read_frame_trans)
    qed
  qed
qed

text \<open>One turn of the loop at the start of a header, when 18 bytes arrive in one piece.\<close>

lemma read_header_block:
  assumes "fd \<in> set (w_fds w)" and "length mem = HEADER_SIZE" and "length hdr = HEADER_SIZE"
    and "w_inq w fd = seg (hdr @ rest) @ q"
  shows "read_header_loop fd mem 0 HEADER_SIZE w =
    (let w1 = w\<lparr>w_inq := (w_inq w)(fd := seg rest @ q)\<rparr> in
     if magic_number (dec_header hdr) = PROTOCOL_MAGIC_NUMBER then Inr (18, hdr, w1)
     else (case memchr hdr 0x52 of
         Some b \<Rightarrow> read_header_loop fd (memmove_to_front hdr b) (18 - b) b w1
       | None \<Rightarrow> read_header_loop fd hdr 0 HEADER_SIZE w1))"
proof -
  have "hdr \<noteq> []" using assms(3) by auto
  then have "platform_recv fd HEADER_SIZE True w =
      Inr (18, hdr, w\<lparr>w_inq := (w_inq w)(fd := seg rest @ q)\<rparr>)"
    using recv_seg [of fd w 18 "hdr @ rest" q True] assms by simp
  then show ?thesis
    using assms by (subst read_header_loop.simps) (simp add: memcpy_to_ok Let_def)
qed

text \<open>In step with the stream: when a header with the right magic number is next - possibly
  after blocks of 18 bytes without the byte \<open>0x52\<close>, each skipped as a whole - and arrives with
  them in one piece, \<open>read_header\<close> returns 18 and the header's bytes, and leaves exactly the
  bytes after it.\<close>

theorem read_header_skips_junk:
  assumes "fd \<in> set (w_fds w)" and "length mem = HEADER_SIZE" and "length hdr = HEADER_SIZE"
    and "magic_number (dec_header hdr) = PROTOCOL_MAGIC_NUMBER"
    and "\<forall>j \<in> set junk. length j = HEADER_SIZE \<and> 0x52 \<notin> set j"
    and "w_inq w fd = seg (concat junk @ hdr @ rest) @ q"
  shows "read_header fd mem w = Inr (18, hdr, w\<lparr>w_inq := (w_inq w)(fd := seg rest @ q)\<rparr>)"
  using assms
proof (induction junk arbitrary: mem w)
  case Nil
  then show ?case
    unfolding read_header_def by (subst read_header_block [of fd w mem hdr rest q]) simp_all
next
  case (Cons j junk)
  have j: "length j = HEADER_SIZE" "memchr j 0x52 = None" "0x52 \<notin> set j"
    using Cons.prems(5) by (simp_all add: memchr_None)
  have "magic_number (dec_header j) \<noteq> PROTOCOL_MAGIC_NUMBER"
  proof
    assume "magic_number (dec_header j) = PROTOCOL_MAGIC_NUMBER"
    then have "take 4 j = [0x52, 0x41, 0x49, 0x56]"
      using magic_iff [OF j(1)] by simp
    then have "0x52 \<in> set (take 4 j)" by simp
    then show False using j(3) by (blast dest: in_set_takeD)
  qed
  then show ?case
    using Cons.IH [of "w\<lparr>w_inq := (w_inq w)(fd := seg (concat junk @ hdr @ rest) @ q)\<rparr>" j]
      Cons.prems j read_header_block [of fd w mem j "concat junk @ hdr @ rest" q]
    by (simp add: read_header_def Let_def fun_upd_same del: fun_upd_apply)
qed

text \<open>C35. Out of step with the stream: when 18 bytes arrive that do not start with the magic number
  but hold the byte \<open>0x52\<close> further on, and at least one more byte follows in the same piece, the
  loop writes at \<open>header + offset\<close>, counted in headers - outside the header it was given.\<close>

theorem read_header_resync_overflows:
  assumes "fd \<in> set (w_fds w)" and "length mem = HEADER_SIZE" and "length hdr = HEADER_SIZE"
    and "magic_number (dec_header hdr) \<noteq> PROTOCOL_MAGIC_NUMBER"
    and "memchr hdr 0x52 = Some b" and "0 < b" and "rest \<noteq> []"
    and "w_inq w fd = seg (hdr @ rest) @ q"
  shows "read_header fd mem w = Inl OutOfBounds"
proof -
  let ?w1 = "w\<lparr>w_inq := (w_inq w)(fd := seg rest @ q)\<rparr>"
  let ?m = "memmove_to_front hdr b"
  have b: "b < 18" using memchr_bound [OF assms(5)] assms(3) by simp
  have "platform_recv fd b True ?w1 = Inr (int (min b (length rest)), take b rest,
      ?w1\<lparr>w_inq := (w_inq ?w1)(fd := seg (drop b rest) @ q)\<rparr>)"
    using assms(1,6,7) by (intro recv_seg) simp_all
  moreover have "\<not> int (min b (length rest)) \<le> 0" using assms(6,7) by (simp add: min_def)
  moreover have "memcpy_to ?m (HEADER_SIZE * (18 - b)) (take b rest) = Inl OutOfBounds"
  proof -
    have "length ?m = 18" using b assms(3) by simp
    moreover have "0 < length (take b rest)" using assms(6,7) by simp
    moreover have "HEADER_SIZE \<le> HEADER_SIZE * (18 - b)" using b by simp
    ultimately have "\<not> HEADER_SIZE * (18 - b) + length (take b rest) \<le> length ?m" by linarith
    then show ?thesis by (simp only: memcpy_to_def if_False)
  qed
  ultimately have "read_header_loop fd ?m (18 - b) b ?w1 = Inl OutOfBounds"
    by (subst read_header_loop.simps) simp
  then show ?thesis
    using assms by (simp add: read_header_def read_header_block [of fd w mem hdr rest q] Let_def)
qed

definition ex_hdr :: protocol_header where
  "ex_hdr = \<lparr>magic_number = PROTOCOL_MAGIC_NUMBER, version = 7, message_type = msg_num MSG_HEARTBEAT,
     timestamp_ms = 9, payload_length = 0\<rparr>"

definition ex_stream :: "byte list \<Rightarrow> world" where
  "ex_stream bs = ok_world\<lparr>w_inq := (\<lambda>_. [])(0 := seg bs)\<rparr>"

theorem read_header_skips_junk_witness:
  "\<exists>w'. read_header 0 (replicate 18 1) (ex_stream (replicate 18 0 @ enc_header ex_hdr)) =
     Inr (18, enc_header ex_hdr, w')"
  using read_header_skips_junk [of 0 "ex_stream (replicate 18 0 @ enc_header ex_hdr)" "replicate 18 1"
      "enc_header ex_hdr" "[replicate 18 0]" "[]" "[]"]
  by (simp add: ex_stream_def ex_hdr_def)

theorem read_header_resync_overflows_witness:
  "read_header 0 (replicate 18 1) (ex_stream (replicate 17 0 @ [0x52, 1])) = Inl OutOfBounds"
proof -
  have "memchr (replicate 17 0 @ [0x52]) 0x52 = Some 17"
    by (simp add: memchr_skip)
  moreover have "replicate 4 (0 :: byte) \<noteq> [0x52, 0x41, 0x49, 0x56]"
    by (auto simp: replicate_eq_iff)
  ultimately show ?thesis
    using read_header_resync_overflows [of 0 "ex_stream (replicate 17 0 @ [0x52, 1])" "replicate 18 1"
        "replicate 17 0 @ [0x52]" 17 "[1]" "[]"]
    by (simp add: ex_stream_def magic_iff)
qed

section \<open>Outcomes\<close>

text \<open>
  The outcomes on which the server acts. A short read returns the number of bytes it consumed;
  the end of the stream is told from an empty queue only by a stale error number.
\<close>

lemma read_header_short:
  assumes "fd \<in> set (w_fds w)" and "length mem = HEADER_SIZE" and "0 < length part"
    and "length part < HEADER_SIZE" and "w_inq w fd = seg part @ q"
  shows "\<exists>mem'. read_header fd mem w = Inr (int (length part), mem', w\<lparr>w_inq := (w_inq w)(fd := q)\<rparr>)"
proof -
  have "platform_recv fd 18 True w = Inr (int (length part), part, w\<lparr>w_inq := (w_inq w)(fd := q)\<rparr>)"
    using recv_seg [of fd w 18 part q True] assms by (cases part) simp_all
  then show ?thesis
    using assms(2-4) unfolding read_header_def
    by (subst read_header_loop.simps) (simp add: memcpy_to_ok)
qed

lemma read_header_eof:
  assumes "fd \<in> set (w_fds w)" and "w_inq w fd = Eof # q"
  shows "read_header fd mem w = Inr (if w_errno w = EAGAIN then 1 else -1, mem, w)"
  using assms unfolding read_header_def
  by (subst read_header_loop.simps) (simp add: platform_recv_def)

lemma recv_never_blocks: "platform_recv fd n True w \<noteq> Inl e"
  by (auto simp: platform_recv_def Let_def split: list.splits recv_ans.splits)

lemma read_header_loop_fault:
  "read_header_loop fd mem offset to_read w = Inl e \<Longrightarrow> e = OutOfBounds"
proof (induction fd mem offset to_read w rule: read_header_loop.induct)
  case (1 fd mem offset to_read w)
  note step = "1.prems" [unfolded read_header_loop.simps [of fd mem]]
  show ?case
  proof (cases "platform_recv fd to_read True w")
    case (Inl f)
    then show ?thesis using recv_never_blocks by blast
  next
    case (Inr x)
    obtain n got w1 where x: "x = (n, got, w1)" by (cases x)
    then have pos: "\<not> n \<le> 0" using step Inr by (auto simp: Let_def split: if_splits)
    show ?thesis
    proof (cases "memcpy_to mem (HEADER_SIZE * offset) got")
      case (Inl f)
      then show ?thesis using step Inr x pos by (simp add: memcpy_to_def split: if_splits)
    next
      case copied: (Inr m1)
      then show ?thesis
        using step Inr x pos "1.IH" [OF Inr x [symmetric] refl pos copied]
        by (auto split: if_splits option.splits)
    qed
  qed
qed

lemma read_header_safe: "read_header fd mem w = Inl e \<Longrightarrow> e = OutOfBounds"
  unfolding read_header_def by (rule read_header_loop_fault)

section \<open>The loop turn by turn\<close>

text \<open>
  One turn: the loop is over with a result, or goes on with another position. Between two turns the
  network may deliver more.
\<close>

datatype header_read = Done int "byte list" | Again "byte list" nat nat

definition read_header_turn ::
  "int \<Rightarrow> byte list \<Rightarrow> nat \<Rightarrow> nat \<Rightarrow> world \<Rightarrow> (header_read \<times> world) res" where
  "read_header_turn socket header offset to_read w =
     andThen (platform_recv socket to_read True w) (\<lambda>(bytes_read, got, w1).
       if bytes_read \<le> 0 then
         (let err = w_errno w1 in
          Inr (Done (if err = EWOULDBLOCK \<or> err = EAGAIN then 1 else -1) header, w1))
       else
         andThen (memcpy_to header (HEADER_SIZE * offset) got) (\<lambda>header1. Inr
           (if bytes_read \<noteq> int to_read then Done bytes_read header1
            else if magic_number (dec_header header1) = PROTOCOL_MAGIC_NUMBER then Done (int HEADER_SIZE) header1
            else (case memchr header1 0x52 of
                Some begin \<Rightarrow> Again (memmove_to_front header1 begin) (HEADER_SIZE - begin) begin
              | None \<Rightarrow> Again header1 0 HEADER_SIZE), w1)))"

lemma read_header_loop_turns:
  "read_header_loop fd mem offset to_read w =
     andThen (read_header_turn fd mem offset to_read w) (\<lambda>(x, w1).
       case x of Done r mem1 \<Rightarrow> Inr (r, mem1, w1)
       | Again mem1 offset1 to_read1 \<Rightarrow> read_header_loop fd mem1 offset1 to_read1 w1)"
  by (subst read_header_loop.simps)
    (auto simp: read_header_turn_def andThen_assoc Let_def split: option.split intro!: andThen_cong)

lemma recv_takes:
  assumes "platform_recv fd n d w = Inr (r, got, w')" and "0 < r"
  shows "waiting w' fd + length got = waiting w fd \<and> fd \<in> set (w_fds w) \<and> (\<exists>b bs q. w_inq w fd = Seg b bs # q)"
  using assms(1)
proof (cases rule: recv_cases)
  case (data bs q)
  then show ?thesis by (simp add: waiting_def seg_nonempty [of bs])
qed (use assms(2) in simp_all)

lemma header_turn_consumes:
  "read_header_turn fd mem offset to_read w = Inr (Again mem1 offset1 to_read1, w1) \<Longrightarrow> waiting w1 fd < waiting w fd"
  by (auto simp: read_header_turn_def andThen_eq_Inr Let_def not_le dest: recv_consumes split: if_splits)

text \<open>Every way a turn can end.\<close>

lemma header_turn_cases:
  assumes "length mem = HEADER_SIZE" and "loop_pos offset to_read"
  obtains (fault) "read_header_turn fd mem offset to_read w = Inl OutOfBounds" and "0 < offset"
      and "fd \<in> set (w_fds w)" and "\<exists>b bs q. w_inq w fd = Seg b bs # q"
  | (over) r mem1 w1 where "read_header_turn fd mem offset to_read w = Inr (Done r mem1, w1)"
      and "length mem1 = HEADER_SIZE" and "r \<in> {-1..18} - {0}" and "read_frame fd w w1"
      and "r = 18 \<Longrightarrow> magic_number (dec_header mem1) = PROTOCOL_MAGIC_NUMBER"
  | (again) mem1 offset1 to_read1 w1 where
      "read_header_turn fd mem offset to_read w = Inr (Again mem1 offset1 to_read1, w1)"
      and "length mem1 = HEADER_SIZE" and "loop_pos offset1 to_read1" and "read_frame fd w w1"
      and "waiting w1 fd + HEADER_SIZE = waiting w fd"
proof (cases "platform_recv fd to_read True w")
  case (Inl e)
  then show thesis using recv_never_blocks by blast
next
  case (Inr x)
  then obtain r got w1 where recv: "platform_recv fd to_read True w = Inr (r, got, w1)" by (cases x) simp
  note frame = recv_frame [OF recv]
  show thesis
  proof (cases "r \<le> 0")
    case True
    then show thesis
      using recv frame assms(1)
      by (intro over [of "if w_errno w1 = EAGAIN then 1 else -1" mem w1])
        (auto simp: read_header_turn_def split: if_splits)
  next
    case False
    then have pos: "0 < r" by simp
    note len = recv_length [OF recv pos]
    have takes: "waiting w1 fd + length got = waiting w fd" "fd \<in> set (w_fds w)" "\<exists>b bs q. w_inq w fd = Seg b bs # q"
      using recv_takes [OF recv pos] by simp_all
    show thesis
    proof (cases "offset = 0")
      case resync: False
      have "length mem < HEADER_SIZE * offset + length got"
        using resync len(3) by (cases offset) (simp_all add: assms(1))
      then have "read_header_turn fd mem offset to_read w = Inl OutOfBounds"
        using recv False by (simp add: read_header_turn_def memcpy_to_def)
      then show thesis using resync takes(2,3) by (intro fault) simp_all
    next
      case True
      then have eighteen: "to_read = 18" using assms(2) by (simp add: loop_pos_def)
      define m1 where "m1 = got @ drop (length got) mem"
      have l1: "length m1 = HEADER_SIZE" using len(2) assms(1) eighteen by (simp add: m1_def)
      have "memcpy_to mem (HEADER_SIZE * offset) got = Inr m1"
        using True len(2) assms(1) eighteen by (simp add: memcpy_to_ok m1_def)
      then have turn: "read_header_turn fd mem offset to_read w = Inr
          (if r \<noteq> 18 then Done r m1
           else if magic_number (dec_header m1) = PROTOCOL_MAGIC_NUMBER then Done 18 m1
           else case memchr m1 0x52 of Some b \<Rightarrow> Again (memmove_to_front m1 b) (18 - b) b
              | None \<Rightarrow> Again m1 0 18, w1)"
        using recv False eighteen by (simp add: read_header_turn_def)
      consider "r \<noteq> 18 \<or> magic_number (dec_header m1) = PROTOCOL_MAGIC_NUMBER"
        | (found) b where "r = 18" "magic_number (dec_header m1) \<noteq> PROTOCOL_MAGIC_NUMBER" "memchr m1 0x52 = Some b"
        | (skip) "r = 18" "magic_number (dec_header m1) \<noteq> PROTOCOL_MAGIC_NUMBER" "memchr m1 0x52 = None"
        by (cases "memchr m1 0x52") auto
      then show thesis
      proof cases
        case 1
        then show thesis
          using turn l1 frame len pos eighteen by (intro over [of r m1 w1]) auto
      next
        case found
        have "b < 18" using memchr_bound [OF found(3)] l1 by simp
        then show thesis
          using turn found l1 frame takes(1) len(1)
          by (intro again [of "memmove_to_front m1 b" "18 - b" b w1]) (auto simp: loop_pos_def)
      next
        case skip
        then show thesis
          using turn l1 frame takes(1) len(1) by (intro again [of m1 0 18 w1]) (auto simp: loop_pos_def)
      qed
    qed
  qed
qed

text \<open>
  Runs of the loop: \<open>n\<close> turns after which it goes on, while \<open>b\<close> bytes (and any errors, and the end of
  the stream) arrive in between.
\<close>

type_synonym header_state = "byte list \<times> nat \<times> nat \<times> world"

inductive header_run :: "int \<Rightarrow> header_state \<Rightarrow> nat \<Rightarrow> nat \<Rightarrow> header_state \<Rightarrow> bool" for fd s where
  start: "header_run fd s 0 0 s"
| turn: "header_run fd s n b (mem, offset, to_read, w) \<Longrightarrow>
    read_header_turn fd mem offset to_read w = Inr (Again mem1 offset1 to_read1, w1) \<Longrightarrow>
    header_run fd s (Suc n) b (mem1, offset1, to_read1, w1)"
| arrive: "header_run fd s n b (mem, offset, to_read, w) \<Longrightarrow>
    header_run fd s n (b + sum_list (map ans_bytes q))
      (mem, offset, to_read, w\<lparr>w_inq := (w_inq w)(fd := w_inq w fd @ q)\<rparr>)"

lemma header_run_inv:
  assumes "header_run fd (mem, 0, HEADER_SIZE, w) n b s" and "length mem = HEADER_SIZE"
  shows "case s of (mem', offset, to_read, v) \<Rightarrow> length mem' = HEADER_SIZE \<and> loop_pos offset to_read \<and>
    read_frame fd w v \<and> HEADER_SIZE * n + waiting v fd = waiting w fd + b"
  using assms(1)
proof (induction rule: header_run.induct)
  case start
  then show ?case using assms(2) by (simp add: loop_pos_def read_frame_def)
next
  case (turn n b mem1 offset to_read v mem2 offset2 to_read2 v2)
  then have m: "length mem1 = HEADER_SIZE" "loop_pos offset to_read" "read_frame fd w v"
    "HEADER_SIZE * n + waiting v fd = waiting w fd + b"
    by simp_all
  show ?case
    by (rule header_turn_cases [OF m(1,2), of fd v]) (use m(3,4) turn.hyps(2) in \<open>auto intro: read_frame_trans\<close>)
next
  case (arrive n b mem1 offset to_read v q)
  then show ?case by (auto simp: read_frame_def waiting_def)
qed

text \<open>Junk that keeps coming: a block of zeros before every turn.\<close>

lemma junk_turn:
  assumes "fd \<in> set (w_fds w)" and "length mem = HEADER_SIZE" and "w_inq w fd = [Seg 0 (replicate 17 0)]"
  shows "read_header_turn fd mem 0 HEADER_SIZE w =
    Inr (Again (replicate 18 0) 0 HEADER_SIZE, w\<lparr>w_inq := (w_inq w)(fd := [])\<rparr>)"
proof -
  let ?j = "replicate 18 (0 :: byte)"
  have j: "Seg 0 (replicate 17 0) = Seg (hd ?j) (tl ?j)" by (simp add: numeral_eq_Suc)
  have "w_inq w fd = seg ?j @ []" using assms(3) by (simp add: numeral_eq_Suc)
  from recv_seg [OF assms(1) _ _ this, of 18 True]
  have recv: "platform_recv fd 18 True w = Inr (18, ?j, w\<lparr>w_inq := (w_inq w)(fd := [])\<rparr>)" by simp
  have "memchr ?j 0x52 = None" by (simp add: memchr_None)
  moreover have "magic_number (dec_header ?j) \<noteq> PROTOCOL_MAGIC_NUMBER"
    using magic_iff [of ?j] by (auto simp: replicate_eq_iff)
  ultimately show ?thesis
    using recv assms(2) by (simp add: read_header_turn_def memcpy_to_ok)
qed

lemma junk_forever:
  assumes "fd \<in> set (w_fds w)" and "length mem = HEADER_SIZE" and "w_inq w fd = []"
  shows "\<exists>mem' v. header_run fd (mem, 0, HEADER_SIZE, w) n (HEADER_SIZE * n) (mem', 0, HEADER_SIZE, v) \<and>
    length mem' = HEADER_SIZE \<and> w_inq v fd = [] \<and> w_fds v = w_fds w"
proof (induction n)
  case 0
  then show ?case using assms header_run.start [of fd "(mem, 0, HEADER_SIZE, w)"] by force
next
  case (Suc n)
  then obtain mem' v where run: "header_run fd (mem, 0, HEADER_SIZE, w) n (HEADER_SIZE * n) (mem', 0, HEADER_SIZE, v)"
    and v: "length mem' = HEADER_SIZE" "w_inq v fd = []" "w_fds v = w_fds w"
    by blast
  let ?v = "v\<lparr>w_inq := (w_inq v)(fd := w_inq v fd @ [Seg 0 (replicate 17 0)])\<rparr>"
  have more: "header_run fd (mem, 0, HEADER_SIZE, w) n (HEADER_SIZE * Suc n) (mem', 0, HEADER_SIZE, ?v)"
    using header_run.arrive [OF run, of "[Seg 0 (replicate 17 0)]"] by (simp add: algebra_simps)
  have "read_header_turn fd mem' 0 HEADER_SIZE ?v =
      Inr (Again (replicate 18 0) 0 HEADER_SIZE, ?v\<lparr>w_inq := (w_inq ?v)(fd := [])\<rparr>)"
    by (rule junk_turn) (use v assms(1) in simp_all)
  from header_run.turn [OF more this] show ?case using v by force
qed

text \<open>What the reader returns: a status or count, the header, and nothing else changed.\<close>

definition header_result :: "world \<Rightarrow> int \<Rightarrow> byte list \<Rightarrow> world \<Rightarrow> bool" where
  "header_result w r mem w' \<longleftrightarrow> length mem = HEADER_SIZE \<and> r \<in> {-1..18} - {0} \<and>
     (r = 18 \<longrightarrow> take 4 mem = [0x52, 0x41, 0x49, 0x56]) \<and>
     w_trace w' = w_trace w \<and> w_heap w' = w_heap w \<and> w_fds w' = w_fds w"

lemma header_run_next:
  assumes "header_run fd (mem, 0, HEADER_SIZE, w) n b (mem1, offset, to_read, v)" and "length mem = HEADER_SIZE"
  shows "case read_header_turn fd mem1 offset to_read v of
      Inl e \<Rightarrow> e = OutOfBounds \<and> 0 < offset
    | Inr (Again _ _ _, v') \<Rightarrow> waiting v' fd + HEADER_SIZE = waiting v fd
    | Inr (Done r mem', v') \<Rightarrow> header_result w r mem' v'"
proof -
  have m: "length mem1 = HEADER_SIZE" "loop_pos offset to_read" "read_frame fd w v"
    using header_run_inv [OF assms] by simp_all
  show ?thesis
    by (rule header_turn_cases [OF m(1,2), of fd v])
      (use m(3) in \<open>auto simp: header_result_def magic_iff read_frame_def\<close>)
qed

lemma read_header_result:
  assumes "length mem = HEADER_SIZE"
  shows "case read_header fd mem w of Inl e \<Rightarrow> e = OutOfBounds | Inr (r, mem', w') \<Rightarrow> header_result w r mem' w'"
proof (cases "read_header fd mem w")
  case (Inl e)
  then show ?thesis using read_header_safe by simp
next
  case (Inr x)
  obtain r mem' w' where x: "x = (r, mem', w')" by (cases x)
  have "loop_pos 0 HEADER_SIZE" by (simp add: loop_pos_def)
  from read_header_loop_sound [OF Inr [unfolded read_header_def x] assms this] show ?thesis
    by (auto simp: Inr x header_result_def read_frame_def magic_iff)
qed



end
