(* ===== verification/Server.thy ===== *)
theory Server
  imports MoveGoal Response ReadHeader
begin

text \<open>
  The robot server of \<open>robot_protocol.c\<close>: its state, the admission and removal of the one
  client, the reception of a payload, the UDP registration, the dispatch of a command to the
  callbacks, one turn of the TCP thread and one turn of the timeout thread. The callbacks and
  the user data they share are parameters.
\<close>

section \<open>State\<close>

record client_info =
  client_socket :: int
  client_addr :: sockaddr_in
  last_command :: i64
  connected :: bool
  peer_ip :: string
  peer_port :: u16
  registered_udp_port :: u16
  udp_port_registered :: bool

definition zero_client :: client_info where
  "zero_client = \<lparr>client_socket = 0, client_addr = \<lparr>sin_family = 0, sin_port = 0, sin_addr = 0\<rparr>,
     last_command = 0, connected = False, peer_ip = [], peer_port = 0, registered_udp_port = 0,
     udp_port_registered = False\<rparr>"

text \<open>
  The callbacks get the user data and return it changed. A command handler is given the header
  and the bytes of the payload; the server frees the payload, and reads neither again.
\<close>

type_synonym 'u connection_callback = "string \<Rightarrow> u16 \<Rightarrow> 'u \<Rightarrow> world \<Rightarrow> ('u \<times> world) res"

type_synonym 'u command_callback =
  "protocol_header \<Rightarrow> byte list \<Rightarrow> 'u \<Rightarrow> world \<Rightarrow> (command_response_context option \<times> 'u \<times> world) res"

type_synonym 'u error_info_callback =
  "'u \<Rightarrow> world \<Rightarrow> (command_response_context option \<times> i32 \<times> 'u \<times> world) res"

record 'u robot_network_callbacks =
  on_connection :: "'u connection_callback option"
  on_disconnection :: "'u connection_callback option"
  handle_command :: "'u command_callback option"
  get_error_info :: "'u error_info_callback option"

record 'u robot_server_config =
  tcp_port :: u16
  udp_port :: u16
  connection_timeout_ms :: u32
  callbacks :: "'u robot_network_callbacks"

record 'u robot_server_ctx =
  tcp_socket :: int
  udp_socket :: int
  running :: int
  tcp_thread :: nat
  timeout_thread :: nat
  client_mutex :: LOCK_ID
  config :: "'u robot_server_config"
  client :: client_info
  user_data :: 'u
  ctx_addr :: nat   \<comment> \<open>the heap block of the context itself\<close>

section \<open>Text\<close>

definition digit :: "nat \<Rightarrow> char" where
  "digit d = char_of (48 + d)"

definition show_byte :: "byte \<Rightarrow> string" where
  "show_byte b = (let n = unat b in
     (if 100 \<le> n then [digit (n div 100)] else []) @
     (if 10 \<le> n then [digit (n div 10 mod 10)] else []) @ [digit (n mod 10)])"

text \<open>\<open>inet_ntop\<close> of an IPv4 address: the octets in memory order.\<close>

definition inet_ntop :: "u32 \<Rightarrow> string" where
  "inet_ntop a = (let o4 = enc_u32 a in
     show_byte (o4 ! 0) @ ''.'' @ show_byte (o4 ! 1) @ ''.'' @ show_byte (o4 ! 2) @ ''.'' @
     show_byte (o4 ! 3))"

definition bytes_of_string :: "string \<Rightarrow> byte list" where
  "bytes_of_string s = map of_char s"

section \<open>The client record\<close>

definition call_connection ::
  "'u connection_callback option \<Rightarrow> string \<Rightarrow> u16 \<Rightarrow> 'u \<Rightarrow> world \<Rightarrow> ('u \<times> world) res" where
  "call_connection cb ip port u w = (case cb of None \<Rightarrow> Inr (u, w) | Some f \<Rightarrow> f ip port u w)"

text \<open>The record of a client that has just been let in.\<close>

definition new_client :: "client_info \<Rightarrow> int \<Rightarrow> sockaddr_in \<Rightarrow> i64 \<Rightarrow> client_info" where
  "new_client c socket addr now = c\<lparr>client_socket := socket, client_addr := addr,
     last_command := now, connected := True, peer_port := platform_ntohs (sin_port addr),
     registered_udp_port := 0, udp_port_registered := False,
     peer_ip := inet_ntop (sin_addr addr)\<rparr>"

text \<open>The result of \<open>lock_take\<close> is not looked at.\<close>

definition add_client ::
  "'u robot_server_ctx \<Rightarrow> int \<Rightarrow> sockaddr_in \<Rightarrow> world \<Rightarrow> (int \<times> 'u robot_server_ctx \<times> world) res" where
  "add_client ctx socket addr w =
     andThen (lock_take (client_mutex ctx) w) (\<lambda>(_, w1).
       if connected (client ctx) then
         andThen (lock_give (client_mutex ctx) (pr_info ''Connection rejected'' w1))
           (\<lambda>(_, w2). Inr (-1, ctx, w2))
       else
         let (now, w2) = time_now w1;
             c = new_client (client ctx) socket addr now
         in andThen (call_connection (on_connection (callbacks (config ctx))) (peer_ip c)
                       (peer_port c) (user_data ctx) (pr_info ''Client connected'' w2)) (\<lambda>(u, w3).
            andThen (lock_give (client_mutex ctx) w3) (\<lambda>(_, w4).
              Inr (0, ctx\<lparr>client := c, user_data := u\<rparr>, w4))))"

definition remove_client ::
  "'u robot_server_ctx \<Rightarrow> world \<Rightarrow> ('u robot_server_ctx \<times> world) res" where
  "remove_client ctx w =
     andThen (lock_take (client_mutex ctx) w) (\<lambda>(_, w1).
       if connected (client ctx) then
         andThen (call_connection (on_disconnection (callbacks (config ctx)))
                    (peer_ip (client ctx)) (peer_port (client ctx)) (user_data ctx)
                    (pr_info ''Client disconnected'' w1)) (\<lambda>(u, w2).
           let (_, w3) = platform_close (client_socket (client ctx)) w2 in
           andThen (lock_give (client_mutex ctx) w3) (\<lambda>(_, w4).
             Inr (ctx\<lparr>client := zero_client, user_data := u\<rparr>, w4)))
       else andThen (lock_give (client_mutex ctx) w1) (\<lambda>(_, w2). Inr (ctx, w2)))"

section \<open>Receiving a payload\<close>

text \<open>
  The loop around \<open>recv\<close> with \<open>MSG_WAITALL\<close>, which may still return early. The count stays
  within \<open>payload_length\<close>, so it is kept as a natural number.
\<close>

function receive_payload ::
  "int \<Rightarrow> nat \<Rightarrow> byte list \<Rightarrow> nat \<Rightarrow> world \<Rightarrow> (bool \<times> byte list \<times> world) res" where
  "receive_payload socket payload_len payload received w =
     (if received < payload_len then
        andThen (platform_recv socket (payload_len - received) False w) (\<lambda>(ret_recv, got, w1).
          if ret_recv \<le> 0
          then Inr (True, payload, pr_error ''Failed to read entire payload'' w1)
          else andThen (memcpy_to payload received got) (\<lambda>payload1.
            receive_payload socket payload_len payload1 (received + nat ret_recv) w1))
      else Inr (False, payload, w))"
  by pat_completeness auto

termination
  by (relation "measure (\<lambda>(socket, _, _, _, w). waiting w socket)") (auto simp: recv_consumes)

declare receive_payload.simps [simp del]

section \<open>Commands\<close>

abbreviation MAX_PAYLOAD_SIZE :: nat where "MAX_PAYLOAD_SIZE \<equiv> 104016"

text \<open>
  The version check of a UDP registration, by the compile-time policy
  \<open>COMMS_VERSION_MISMATCH\<close> (0 ignore, 1 warn, 2 reject): the error to reject the client with,
  if any.
\<close>

definition version_mismatch_message :: "byte \<Rightarrow> byte list" where
  "version_mismatch_message v = bytes_of_string
     (''protocol version mismatch: client='' @ show_byte v @ '' server='' @ show_byte PROTOCOL_VERSION)"

definition check_version :: "nat \<Rightarrow> nat \<Rightarrow> byte list \<Rightarrow> world \<Rightarrow> byte list option \<times> world" where
  "check_version policy payload_len payload w =
     (if policy = 0 then (None, w)
      else if 3 \<le> payload_len then
        (let v = protocol_version_of payload in
         if v \<noteq> PROTOCOL_VERSION then
           if 2 \<le> policy
           then (Some (enc_error_payload \<lparr>error_code = -1,
                        ep_message = pad_to 128 (version_mismatch_message v)\<rparr>),
                 pr_error ''protocol version mismatch'' w)
           else (None, pr_info ''WARNING: protocol version mismatch'' w)
         else (None, w))
      else if 2 \<le> policy
        then (Some (error_int_body (-1)), pr_error ''registered without protocol version'' w)
        else (None, pr_info ''WARNING: registered without protocol version'' w))"

text \<open>
  \<open>reply\<close>: send a response on the client's socket, ignoring the status. The flag that the
  handlers return tells whether the payload has been freed and the turn is over (\<open>continue\<close>).
\<close>

definition reply ::
  "(world \<Rightarrow> (command_response_context option \<times> world) res) \<Rightarrow> 'u robot_server_ctx \<Rightarrow> world \<Rightarrow>
   (bool \<times> 'u robot_server_ctx \<times> world) res" where
  "reply mk ctx w =
     andThen (respond (client_socket (client ctx)) mk w) (\<lambda>(_, w1). Inr (False, ctx, w1))"

definition register_udp_port ::
  "nat \<Rightarrow> 'u robot_server_ctx \<Rightarrow> nat \<Rightarrow> nat \<Rightarrow> byte list \<Rightarrow> world \<Rightarrow>
   (bool \<times> 'u robot_server_ctx \<times> world) res" where
  "register_udp_port policy ctx payload_len payload_addr payload w =
     (if 2 \<le> payload_len then
        (case check_version policy payload_len payload w of
           (Some err, w1) \<Rightarrow>
             andThen (reply (MSG_ERR_RESPONSE err) ctx w1) (\<lambda>(_, ctx1, w2).
             andThen (platform_free (Some payload_addr) w2) (\<lambda>w3.
             andThen (remove_client ctx1 w3) (\<lambda>(ctx2, w4). Inr (True, ctx2, w4))))
         | (None, w1) \<Rightarrow>
             if 0 < udp_port_of payload then
               andThen (lock_take (client_mutex ctx) w1) (\<lambda>(_, w2).
                 let ctx1 = ctx\<lparr>client := (client ctx)\<lparr>registered_udp_port := udp_port_of payload,
                              udp_port_registered := True\<rparr>\<rparr> in
                 andThen (lock_give (client_mutex ctx) w2) (\<lambda>(_, w3).
                   reply MSG_OK_RESPONSE ctx1 (pr_info ''registered UDP port'' w3)))
             else reply (MSG_ERR_RESPONSE_INT (-1)) ctx (pr_info ''sent invalid UDP port'' w1))
      else reply (MSG_ERR_RESPONSE_INT (-1)) ctx (pr_info ''invalid registration payload'' w))"

text \<open>Either way the response comes from the callback, or is an error when there is none.\<close>

definition answer ::
  "command_response_context option \<Rightarrow> 'u robot_server_ctx \<Rightarrow> world \<Rightarrow>
   (bool \<times> 'u robot_server_ctx \<times> world) res" where
  "answer rsp ctx w =
     (case rsp of
        None \<Rightarrow> reply (MSG_ERR_RESPONSE_INT (-1)) ctx w
      | Some c \<Rightarrow> reply (\<lambda>w1. Inr (Some c, w1)) ctx w)"

definition dispatch ::
  "nat \<Rightarrow> 'u robot_server_ctx \<Rightarrow> protocol_header \<Rightarrow> nat \<Rightarrow> byte list \<Rightarrow> world \<Rightarrow>
   (bool \<times> 'u robot_server_ctx \<times> world) res" where
  "dispatch policy ctx header payload_addr payload w =
     (if message_type header = msg_num MSG_REGISTER_UDP_PORT
      then register_udp_port policy ctx (unat (payload_length header)) payload_addr payload w
      else if message_type header = msg_num MSG_GET_ERROR_INFO then
        (case get_error_info (callbacks (config ctx)) of
           None \<Rightarrow> answer None ctx w
         | Some f \<Rightarrow> andThen (f (user_data ctx) w) (\<lambda>(rsp, _, u, w1).
             answer rsp (ctx\<lparr>user_data := u\<rparr>) w1))
      else
        (case handle_command (callbacks (config ctx)) of
           None \<Rightarrow> answer None ctx w
         | Some f \<Rightarrow> andThen (f header payload (user_data ctx) w) (\<lambda>(rsp, u, w1).
             answer rsp (ctx\<lparr>user_data := u\<rparr>) w1)))"

text \<open>A header has been read: receive its payload and handle the command.\<close>

definition handle_message ::
  "nat \<Rightarrow> 'u robot_server_ctx \<Rightarrow> protocol_header \<Rightarrow> world \<Rightarrow> ('u robot_server_ctx \<times> world) res" where
  "handle_message policy ctx header w =
     (let payload_len = unat (payload_length header); sock = client_socket (client ctx) in
      if payload_len \<le> MAX_PAYLOAD_SIZE then
        (case platform_malloc (payload_length header) w of
           (None, w1) \<Rightarrow>
             andThen (reply (MSG_ERR_RESPONSE_INT (-1)) ctx w1) (\<lambda>(_, ctx1, w2). Inr (ctx1, w2))
         | (Some p, w1) \<Rightarrow>
             andThen (receive_payload sock payload_len (replicate payload_len 0) 0 w1)
               (\<lambda>(read_failed, payload, w2).
                 if read_failed then
                   andThen (platform_free (Some p) w2) (\<lambda>w3. remove_client ctx w3)
                 else
                   let (now, w3) = time_now w2;
                       ctx1 = ctx\<lparr>client := (client ctx)\<lparr>last_command := now\<rparr>\<rparr> in
                   andThen (dispatch policy ctx1 header p payload w3) (\<lambda>(over, ctx2, w4).
                     if over then Inr (ctx2, w4)
                     else andThen (platform_free (Some p) w4) (\<lambda>w5. Inr (ctx2, w5)))))
      else
        andThen (reply (MSG_ERR_RESPONSE_INT (-1)) ctx (pr_error ''message too large'' w))
          (\<lambda>(_, ctx1, w1). Inr (ctx1, w1)))"

text \<open>The client's socket is readable.\<close>

definition serve_client ::
  "nat \<Rightarrow> 'u robot_server_ctx \<Rightarrow> world \<Rightarrow> ('u robot_server_ctx \<times> world) res" where
  "serve_client policy ctx w =
     andThen (read_header (client_socket (client ctx)) (uninit 0 HEADER_SIZE w) w)
       (\<lambda>(bytes_read, header, w1).
         if bytes_read \<le> 0 then remove_client ctx w1
         else if bytes_read = int HEADER_SIZE then handle_message policy ctx (dec_header header) w1
         else Inr (ctx, w1))"

section \<open>The threads\<close>

definition FD_SET :: "int \<Rightarrow> int list \<Rightarrow> int list res" where
  "FD_SET fd fds = (if 0 \<le> fd \<and> fd < 1024 then Inr (fd # fds) else Inl OutOfBounds)"

text \<open>The descriptors to wait for.\<close>

definition watched :: "'u robot_server_ctx \<Rightarrow> int list res" where
  "watched ctx =
     andThen (FD_SET (tcp_socket ctx) []) (\<lambda>fds.
       if connected (client ctx) \<and> 0 \<le> client_socket (client ctx)
       then FD_SET (client_socket (client ctx)) fds else Inr fds)"

text \<open>What \<open>select\<close> leaves in the set of descriptors.\<close>

definition readable :: "'u robot_server_ctx \<Rightarrow> int list \<Rightarrow> bool \<Rightarrow> bool \<Rightarrow> int list" where
  "readable ctx fds l c =
     (if l then [tcp_socket ctx] else []) @
     (if c \<and> client_socket (client ctx) \<in> set fds \<and> client_socket (client ctx) \<noteq> tcp_socket ctx
      then [client_socket (client ctx)] else [])"

definition accept_client ::
  "'u robot_server_ctx \<Rightarrow> world \<Rightarrow> ('u robot_server_ctx \<times> world) res" where
  "accept_client ctx w =
     (case platform_accept (tcp_socket ctx) w of
        (_, None, w1) \<Rightarrow> Inr (ctx, w1)
      | (client_sock, Some addr, w1) \<Rightarrow>
          andThen (add_client ctx client_sock addr w1) (\<lambda>(r, ctx1, w2).
            if r = 0 then Inr (ctx1, w2)
            else let (_, w3) = platform_close client_sock w2 in Inr (ctx1, w3)))"

text \<open>One turn of the loop of \<open>tcp_thread_func\<close>; the flag tells whether the loop goes on.\<close>

definition tcp_turn ::
  "nat \<Rightarrow> 'u robot_server_ctx \<Rightarrow> world \<Rightarrow> (bool \<times> 'u robot_server_ctx \<times> world) res" where
  "tcp_turn policy ctx w =
     andThen (watched ctx) (\<lambda>fds.
       case platform_select fds w of
         (SelErr _, w1) \<Rightarrow>
           if w_errno w1 = EINTR then Inr (True, ctx, w1)
           else if w_errno w1 = EBADF then
             (if connected (client ctx)
              then andThen (remove_client ctx w1) (\<lambda>(ctx1, w2). Inr (True, ctx1, w2))
              else Inr (True, ctx, w1))
           else Inr (False, ctx, pr_error ''Server error - quitting'' w1)
       | (SelTimeout, w1) \<Rightarrow> Inr (True, ctx, w1)
       | (SelReady l c, w1) \<Rightarrow>
           let ready = readable ctx fds l c in
           andThen (if tcp_socket ctx \<in> set ready then accept_client ctx w1 else Inr (ctx, w1))
             (\<lambda>(ctx1, w2).
               if connected (client ctx1) \<and> client_socket (client ctx1) \<in> set ready
               then andThen (serve_client policy ctx1 w2) (\<lambda>(ctx2, w3). Inr (True, ctx2, w3))
               else Inr (True, ctx1, w2)))"

text \<open>
  The loop itself, for at most \<open>n\<close> turns: it has no end of its own but the \<open>running\<close> flag,
  which another thread clears, and an error of \<open>select\<close>.
\<close>

fun tcp_thread_func ::
  "nat \<Rightarrow> nat \<Rightarrow> 'u robot_server_ctx \<Rightarrow> world \<Rightarrow> ('u robot_server_ctx \<times> world) res" where
  "tcp_thread_func 0 policy ctx w = Inr (ctx, w)"
| "tcp_thread_func (Suc n) policy ctx w =
     (if running ctx \<noteq> 0 then
        andThen (tcp_turn policy ctx w) (\<lambda>(go_on, ctx1, w1).
          if go_on then tcp_thread_func n policy ctx1 w1 else Inr (ctx1, w1))
      else Inr (ctx, w))"

text \<open>
  One turn of \<open>timeout_thread_func\<close>. The comparison of \<open>double\<close>s is exact: the idle time is
  an integer, and \<open>connection_timeout_ms / 1000.0\<close> for 32-bit milliseconds is never rounded
  onto or across an integer it does not equal.
\<close>

definition idle_too_long :: "i64 \<Rightarrow> i64 \<Rightarrow> u32 \<Rightarrow> bool" where
  "idle_too_long now since timeout_ms \<longleftrightarrow> uint timeout_ms < (sint now - sint since) * 1000"

definition timeout_turn ::
  "'u robot_server_ctx \<Rightarrow> world \<Rightarrow> ('u robot_server_ctx \<times> world) res" where
  "timeout_turn ctx w =
     (let (now, w1) = time_now w in
      andThen (lock_take (client_mutex ctx) w1) (\<lambda>(_, w2).
        if connected (client ctx) then
          if idle_too_long now (last_command (client ctx)) (connection_timeout_ms (config ctx)) then
            andThen (lock_give (client_mutex ctx) (pr_info ''Client timed out'' w2))
              (\<lambda>(_, w3). remove_client ctx w3)
          else andThen (lock_give (client_mutex ctx) w2) (\<lambda>(_, w3). Inr (ctx, w3))
        else andThen (lock_give (client_mutex ctx) w2) (\<lambda>(_, w3). Inr (ctx, w3))))"

text \<open>Its loop, for at most \<open>n\<close> turns.\<close>

fun timeout_thread_func ::
  "nat \<Rightarrow> 'u robot_server_ctx \<Rightarrow> world \<Rightarrow> ('u robot_server_ctx \<times> world) res" where
  "timeout_thread_func 0 ctx w = Inr (ctx, w)"
| "timeout_thread_func (Suc n) ctx w =
     (if running ctx \<noteq> 0 then
        andThen (timeout_turn ctx w) (\<lambda>(ctx1, w1).
          timeout_thread_func n ctx1 (platform_usleep 100000 w1))
      else Inr (ctx, w))"

end
