(* ===== verification/ServerInv.thy ===== *)
theory ServerInv
  imports Server
begin

text \<open>
  The invariant of the server and its preservation by every operation of the TCP and timeout
  threads, for every behaviour of the operating system: who owns which heap block, the state of
  the client record, and the mutex. The laws that the callbacks must keep are the locale
  \<open>command_handler\<close>. The proofs run on a small logic of outcomes: \<open>holds F r Q\<close> says that
  \<open>r\<close> is one of the faults \<open>F\<close> or a result that satisfies \<open>Q\<close>.
\<close>

section \<open>Outcomes\<close>

text \<open>
  Two sets of faults have names. \<open>returns\<close>: none, the call returns. \<open>safe\<close>: all but those of \<open>free\<close> on a
  block that is not allocated and of a semaphore that is not there; a call that is only \<open>safe\<close> may still
  dereference NULL, leave a block or wait for ever, so \<open>safe\<close> is what is asked of the callbacks, while
  what is shown of the server itself names its faults (\<open>may_fault\<close> in \<open>ServerRaces\<close>).
\<close>

definition holds :: "fault set \<Rightarrow> 'a res \<Rightarrow> ('a \<Rightarrow> bool) \<Rightarrow> bool" where
  "holds F r Q = (case r of Inl e \<Rightarrow> e \<in> F | Inr x \<Rightarrow> Q x)"

abbreviation safe :: "'a res \<Rightarrow> ('a \<Rightarrow> bool) \<Rightarrow> bool" where
  "safe \<equiv> holds (- {DoubleFree, UseAfterFree})"

abbreviation returns :: "'a res \<Rightarrow> ('a \<Rightarrow> bool) \<Rightarrow> bool" where
  "returns \<equiv> holds {}"

lemma holds_Inr [simp]: "holds F (Inr x) Q = Q x"
  by (simp add: holds_def)

lemma holds_Inl [simp]: "holds F (Inl e) Q \<longleftrightarrow> e \<in> F"
  by (simp add: holds_def)

lemma safe_andThen:
  assumes "holds F r P" and "\<And>x. P x \<Longrightarrow> holds F (f x) Q"
  shows "holds F (andThen r f) Q"
  using assms by (cases r) (simp_all add: holds_def)

lemma safe_andThen_iff: "holds F (andThen r f) Q = holds F r (\<lambda>x. holds F (f x) Q)"
  by (cases r) (simp_all add: holds_def)

lemma safe_mono: "holds F r P \<Longrightarrow> (\<And>x. P x \<Longrightarrow> Q x) \<Longrightarrow> holds F r Q"
  by (cases r) (simp_all add: holds_def)

lemma safe_InrD: "holds F r Q \<Longrightarrow> r = Inr x \<Longrightarrow> Q x"
  by simp

lemma holds_fewer: "holds F r Q \<Longrightarrow> F \<subseteq> G \<Longrightarrow> holds G r Q"
  by (cases r) auto

lemma returns_holds: "returns r Q \<Longrightarrow> holds F r Q"
  by (cases r) (simp_all add: holds_def)

lemma returnsE:
  assumes "returns r Q"
  obtains x where "r = Inr x" and "Q x"
  using assms by (cases r) simp_all

section \<open>Ownership\<close>

text \<open>
  \<open>owns u\<close> are the heap blocks that the user data refers to; \<open>R\<close> are all others. A callback may
  change what it owns, and may hand over the blocks of one response.
\<close>

definition user_inv :: "('u \<Rightarrow> nat set) \<Rightarrow> ('u \<Rightarrow> bool) \<Rightarrow> nat set \<Rightarrow> 'u \<Rightarrow> world \<Rightarrow> bool" where
  "user_inv owns ok R u w \<longleftrightarrow>
     heap_ok w \<and> ok u \<and> owns u \<subseteq> set (w_heap w) \<and> set (w_heap w) - owns u = R"

fun rsp_blocks :: "command_response_context option \<Rightarrow> nat set" where
  "rsp_blocks None = {}"
| "rsp_blocks (Some c) = set (ctx_blocks c)"

fun rsp_ok :: "command_response_context option \<Rightarrow> world \<Rightarrow> bool" where
  "rsp_ok None w = True"
| "rsp_ok (Some c) w = ctx_ok c w"

text \<open>What a callback that was started in \<open>w\<close> may have done when it returns \<open>rsp\<close>.\<close>

definition handled ::
  "('u \<Rightarrow> nat set) \<Rightarrow> ('u \<Rightarrow> bool) \<Rightarrow> nat set \<Rightarrow> world \<Rightarrow>
   command_response_context option \<Rightarrow> 'u \<Rightarrow> world \<Rightarrow> bool" where
  "handled owns ok R w rsp u' w' \<longleftrightarrow>
     user_inv owns ok (R \<union> rsp_blocks rsp) u' w' \<and> R \<inter> rsp_blocks rsp = {} \<and> rsp_ok rsp w' \<and>
     same_io w w' \<and> w_trace w' = w_trace w"

text \<open>
  A command may do more than answer: it may write to the network, or shut a connection down. All
  that the server relies on is that it closes nothing and leaves mutexes and descriptors alone.
\<close>

definition acted ::
  "('u \<Rightarrow> nat set) \<Rightarrow> ('u \<Rightarrow> bool) \<Rightarrow> nat set \<Rightarrow> world \<Rightarrow>
   command_response_context option \<Rightarrow> 'u \<Rightarrow> world \<Rightarrow> bool" where
  "acted owns ok R w rsp u' w' \<longleftrightarrow>
     user_inv owns ok (R \<union> rsp_blocks rsp) u' w' \<and> R \<inter> rsp_blocks rsp = {} \<and> rsp_ok rsp w' \<and>
     w_env w' = w_env w \<and> w_sems w' = w_sems w \<and> w_fds w' = w_fds w \<and> closes w' = closes w"

lemma handled_acted: "handled owns ok R w rsp u w' \<Longrightarrow> acted owns ok R w rsp u w'"
  by (simp add: handled_def acted_def same_io_def)

locale command_handler =
  fixes cbs :: "'u robot_network_callbacks"
    and owns :: "'u \<Rightarrow> nat set"
    and ok :: "'u \<Rightarrow> bool"
  assumes connection_law: "on_connection cbs = Some f \<Longrightarrow> user_inv owns ok R u w \<Longrightarrow>
      returns (f ip port u w) (\<lambda>(u', w'). handled owns ok R w None u' w')"
    and disconnection_law: "on_disconnection cbs = Some f \<Longrightarrow> user_inv owns ok R u w \<Longrightarrow>
      returns (f ip port u w) (\<lambda>(u', w'). handled owns ok R w None u' w')"
    and command_law: "handle_command cbs = Some g \<Longrightarrow> user_inv owns ok R u w \<Longrightarrow>
      safe (g h bs u w) (\<lambda>(rsp, u', w'). acted owns ok R w rsp u' w')"
    and error_info_law: "get_error_info cbs = Some e \<Longrightarrow> user_inv owns ok R u w \<Longrightarrow>
      safe (e u w) (\<lambda>(rsp, _, u', w'). handled owns ok R w rsp u' w')"

section \<open>The invariant\<close>

definition lock_held :: "nat \<Rightarrow> 'u robot_server_ctx \<Rightarrow> world \<Rightarrow> bool" where
  "lock_held n ctx w \<longleftrightarrow> (\<exists>m. client_mutex ctx = Some m \<and> w_sems w m = Some n) \<and>
     (\<forall>k. e_sem_wait (w_env w) k)"

definition client_rec_inv :: "int \<Rightarrow> int list \<Rightarrow> client_info \<Rightarrow> bool" where
  "client_rec_inv listener fds c \<longleftrightarrow>
     (if connected c
      then client_socket c \<in> set fds \<and> client_socket c \<noteq> listener \<and>
        peer_ip c = inet_ntop (sin_addr (client_addr c)) \<and>
        peer_port c = platform_ntohs (sin_port (client_addr c)) \<and>
        (udp_port_registered c \<longleftrightarrow> 0 < registered_udp_port c)
      else c = zero_client)"

definition client_inv :: "'u robot_server_ctx \<Rightarrow> world \<Rightarrow> bool" where
  "client_inv ctx w \<longleftrightarrow> tcp_socket ctx \<in> set (w_fds w) \<and>
     client_rec_inv (tcp_socket ctx) (w_fds w) (client ctx)"

text \<open>The parts of the context that no operation of the threads changes.\<close>

definition fixed_part :: "'u robot_server_ctx \<Rightarrow> 'u robot_server_ctx \<Rightarrow> bool" where
  "fixed_part ctx0 ctx \<longleftrightarrow> ctx\<lparr>client := client ctx0, user_data := user_data ctx0\<rparr> = ctx0"

definition server_inv ::
  "('u \<Rightarrow> nat set) \<Rightarrow> ('u \<Rightarrow> bool) \<Rightarrow> 'u robot_server_ctx \<Rightarrow> nat set \<Rightarrow> 'u robot_server_ctx \<Rightarrow>
   world \<Rightarrow> bool" where
  "server_inv owns ok ctx0 R ctx w \<longleftrightarrow>
     user_inv owns ok R (user_data ctx) w \<and> lock_held 1 ctx w \<and> client_inv ctx w \<and>
     fixed_part ctx0 ctx"

lemma fixed_partD:
  "fixed_part ctx0 ctx \<Longrightarrow> client_mutex ctx = client_mutex ctx0"
  "fixed_part ctx0 ctx \<Longrightarrow> config ctx = config ctx0"
  "fixed_part ctx0 ctx \<Longrightarrow> tcp_socket ctx = tcp_socket ctx0"
  "fixed_part ctx0 ctx \<Longrightarrow> running ctx = running ctx0"
  by (cases ctx; cases ctx0; simp add: fixed_part_def)+

lemma fixed_part_update [simp]:
  "fixed_part ctx0 (ctx\<lparr>client := c\<rparr>) = fixed_part ctx0 ctx"
  "fixed_part ctx0 (ctx\<lparr>user_data := u\<rparr>) = fixed_part ctx0 ctx"
  by (simp_all add: fixed_part_def)

lemma fixed_part_refl [simp]: "fixed_part ctx ctx"
  by (simp add: fixed_part_def)

section \<open>Locking\<close>

lemma lock_take_inv:
  assumes "lock_held 1 ctx w"
  obtains w1 where "lock_take (client_mutex ctx) w = Inr (0, w1)" and "lock_held 0 ctx w1"
    and "w_heap w1 = w_heap w" and "w_next w1 = w_next w" and "w_fds w1 = w_fds w"
    and "w_inq w1 = w_inq w" and "w_trace w1 = w_trace w" and "w_env w1 = w_env w"
    and "w_sems w1 = (w_sems w)(the (client_mutex ctx) := Some 0)"
proof -
  obtain m where m: "client_mutex ctx = Some m" "w_sems w m = Some 1"
    using assms by (auto simp: lock_held_def)
  show thesis
    by (rule that [of "(tick w)\<lparr>w_sems := (w_sems w)(m := Some 0)\<rparr>"])
      (use m assms in \<open>simp_all add: lock_take_def lock_held_def\<close>)
qed

lemma lock_give_inv:
  assumes "lock_held 0 ctx w"
  obtains w1 where "lock_give (client_mutex ctx) w = Inr (0, w1)" and "lock_held 1 ctx w1"
    and "w_heap w1 = w_heap w" and "w_next w1 = w_next w" and "w_fds w1 = w_fds w"
    and "w_inq w1 = w_inq w" and "w_trace w1 = w_trace w" and "w_env w1 = w_env w"
    and "w_sems w1 = (w_sems w)(the (client_mutex ctx) := Some 1)"
proof -
  obtain m where m: "client_mutex ctx = Some m" "w_sems w m = Some 0"
    using assms by (auto simp: lock_held_def)
  show thesis
    by (rule that [of "(tick w)\<lparr>w_sems := (w_sems w)(m := Some 1)\<rparr>"])
      (use m assms in \<open>simp_all add: lock_give_def lock_held_def\<close>)
qed

lemma user_inv_frame:
  "user_inv owns ok R u w \<Longrightarrow> w_heap w' = w_heap w \<Longrightarrow> w_next w' = w_next w \<Longrightarrow>
   user_inv owns ok R u w'"
  by (simp add: user_inv_def heap_ok_def)

lemma lock_held_frame:
  "lock_held n ctx w \<Longrightarrow> w_sems w' = w_sems w \<Longrightarrow> w_env w' = w_env w \<Longrightarrow> lock_held n ctx w'"
  by (simp add: lock_held_def)

lemma lock_held_ctx:
  "lock_held n ctx w \<Longrightarrow> client_mutex ctx' = client_mutex ctx \<Longrightarrow> lock_held n ctx' w"
  by (simp add: lock_held_def)

section \<open>The operations of the threads\<close>

lemma same_ioD:
  "same_io w w' \<Longrightarrow> w_fds w' = w_fds w" "same_io w w' \<Longrightarrow> w_sems w' = w_sems w"
  "same_io w w' \<Longrightarrow> w_env w' = w_env w" "same_io w w' \<Longrightarrow> w_inq w' = w_inq w"
  by (simp_all add: same_io_def)

lemma client_inv_frame: "client_inv ctx w \<Longrightarrow> w_fds w' = w_fds w \<Longrightarrow> client_inv ctx w'"
  by (simp add: client_inv_def)

lemma server_inv_frame:
  "server_inv owns ok ctx0 R ctx w \<Longrightarrow> w_heap w' = w_heap w \<Longrightarrow> w_next w' = w_next w \<Longrightarrow>
   w_sems w' = w_sems w \<Longrightarrow> w_env w' = w_env w \<Longrightarrow> w_fds w' = w_fds w \<Longrightarrow>
   server_inv owns ok ctx0 R ctx w'"
  by (auto simp: server_inv_def intro: user_inv_frame lock_held_frame client_inv_frame)

text \<open>A response that is sent leaves the invariant and the client record alone.\<close>

lemma response_done_inv:
  assumes "response_done fd w type body r w'" and "user_inv owns ok R u w"
  shows "user_inv owns ok R u w'" and "same_io w w'"
  using assms by (auto simp: response_done_def user_inv_def)

lemma server_inv_response:
  assumes "server_inv owns ok ctx0 R ctx w" and "response_done fd w type body r w'"
  shows "server_inv owns ok ctx0 R ctx w'"
proof -
  have "user_inv owns ok R (user_data ctx) w" using assms(1) by (simp add: server_inv_def)
  from response_done_inv [OF assms(2) this] show ?thesis
    using assms(1)
    by (auto simp: server_inv_def same_io_def intro: lock_held_frame client_inv_frame)
qed

definition reply_post ::
  "('u \<Rightarrow> nat set) \<Rightarrow> ('u \<Rightarrow> bool) \<Rightarrow> 'u robot_server_ctx \<Rightarrow> nat set \<Rightarrow> 'u robot_server_ctx \<Rightarrow>
   bool \<times> 'u robot_server_ctx \<times> world \<Rightarrow> bool" where
  "reply_post owns ok ctx0 R ctx res \<longleftrightarrow>
     (case res of (over, ctx', w') \<Rightarrow> \<not> over \<and> ctx' = ctx \<and> server_inv owns ok ctx0 R ctx w')"

lemma server_inv_heap: "server_inv owns ok ctx0 R ctx w \<Longrightarrow> heap_ok w"
  by (simp add: server_inv_def user_inv_def)

lemma reply_ok_safe:
  assumes "server_inv owns ok ctx0 R ctx w"
  shows "safe (reply MSG_OK_RESPONSE ctx w) (reply_post owns ok ctx0 R ctx)"
  using respond_ok_spec [OF server_inv_heap [OF assms], of "client_socket (client ctx)"]
  by (auto simp: reply_def reply_post_def intro: server_inv_response [OF assms])

lemma reply_err_safe:
  assumes "server_inv owns ok ctx0 R ctx w" and "bytes \<noteq> []" and "length bytes < 2 ^ 32"
  shows "safe (reply (MSG_ERR_RESPONSE bytes) ctx w) (reply_post owns ok ctx0 R ctx)"
  using respond_err_spec [OF server_inv_heap [OF assms(1)] assms(2,3), of "client_socket (client ctx)"]
  by (auto simp: reply_def reply_post_def intro: server_inv_response [OF assms(1)])

lemma reply_err_int_safe:
  assumes "server_inv owns ok ctx0 R ctx w"
  shows "safe (reply (MSG_ERR_RESPONSE_INT v) ctx w) (reply_post owns ok ctx0 R ctx)"
  using respond_err_int_spec [OF server_inv_heap [OF assms], of "client_socket (client ctx)" v]
  by (auto simp: reply_def reply_post_def intro: server_inv_response [OF assms])

text \<open>The response of a callback: sending it gives up its blocks.\<close>

lemma answer_safe:
  assumes inv: "server_inv owns ok ctx0 R ctx w"
    and h: "acted owns ok R w rsp u w1"
  shows "safe (answer rsp (ctx\<lparr>user_data := u\<rparr>) w1)
    (\<lambda>(over, ctx', w'). \<not> over \<and> client ctx' = client ctx \<and> server_inv owns ok ctx0 R ctx' w')"
proof -
  let ?ctx = "ctx\<lparr>user_data := u\<rparr>"
  have lc: "lock_held 1 ?ctx w1" "client_inv ?ctx w1" "fixed_part ctx0 ?ctx"
    using inv h by (auto simp: acted_def server_inv_def lock_held_def client_inv_def)
  show ?thesis
  proof (cases rsp)
    case None
    then have "server_inv owns ok ctx0 R ?ctx w1"
      using h lc by (simp add: acted_def server_inv_def)
    from reply_err_int_safe [OF this] show ?thesis
      unfolding answer_def None option.case by (rule safe_mono) (auto simp: reply_post_def)
  next
    case (Some c)
    then have c: "heap_ok w1" "ctx_ok c w1"
      using h by (auto simp: acted_def user_inv_def)
    obtain r w' evs where s:
      "send_command_response_context (client_socket (client ctx)) (Some c) w1 = Inr (r, w')"
      "w_heap w' = filter (\<lambda>a. a \<notin> set (ctx_blocks c)) (w_heap w1)" "heap_ok w'" "same_io w1 w'"
      by (rule send_spec [OF c])
    have "user_inv owns ok R u w'"
      using h Some s by (auto simp: acted_def user_inv_def ctx_ok_def)
    then have "server_inv owns ok ctx0 R ?ctx w'"
      using lc same_ioD [OF s(4)] by (auto simp: server_inv_def lock_held_def client_inv_def)
    then show ?thesis using s(1) Some by (simp add: answer_def reply_def respond_def)
  qed
qed

lemma connection_call_safe:
  assumes "\<And>f. cb = Some f \<Longrightarrow> returns (f ip port u w) (\<lambda>(u', w'). handled owns ok R w None u' w')"
    and "user_inv owns ok R u w"
  shows "returns (call_connection cb ip port u w) (\<lambda>(u', w'). handled owns ok R w None u' w')"
  using assms by (cases cb) (simp_all add: call_connection_def handled_def)

text \<open>
  Inside the lock: the invariant holds but for the mutex, whose value is zero.
\<close>

definition locked_inv ::
  "('u \<Rightarrow> nat set) \<Rightarrow> ('u \<Rightarrow> bool) \<Rightarrow> 'u robot_server_ctx \<Rightarrow> nat set \<Rightarrow> 'u robot_server_ctx \<Rightarrow>
   world \<Rightarrow> bool" where
  "locked_inv owns ok ctx0 R ctx w \<longleftrightarrow>
     user_inv owns ok R (user_data ctx) w \<and> lock_held 0 ctx w \<and> client_inv ctx w \<and>
     fixed_part ctx0 ctx"

lemma locked_inv_frame:
  "locked_inv owns ok ctx0 R ctx w \<Longrightarrow> w_heap w' = w_heap w \<Longrightarrow> w_next w' = w_next w \<Longrightarrow>
   w_sems w' = w_sems w \<Longrightarrow> w_env w' = w_env w \<Longrightarrow> w_fds w' = w_fds w \<Longrightarrow>
   locked_inv owns ok ctx0 R ctx w'"
  by (auto simp: locked_inv_def intro: user_inv_frame lock_held_frame client_inv_frame)

lemma take_safe:
  assumes "server_inv owns ok ctx0 R ctx w"
    and "\<And>w1. locked_inv owns ok ctx0 R ctx w1 \<Longrightarrow> w_fds w1 = w_fds w \<Longrightarrow> w_trace w1 = w_trace w \<Longrightarrow>
      holds F (f (0, w1)) Q"
  shows "holds F (andThen (lock_take (client_mutex ctx) w) f) Q"
proof -
  have "lock_held 1 ctx w" using assms(1) by (simp add: server_inv_def)
  then obtain w1 where "lock_take (client_mutex ctx) w = Inr (0, w1)" "lock_held 0 ctx w1"
    "w_heap w1 = w_heap w" "w_next w1 = w_next w" "w_fds w1 = w_fds w" "w_trace w1 = w_trace w"
    by (rule lock_take_inv)
  moreover from this have "locked_inv owns ok ctx0 R ctx w1"
    using assms(1) by (auto simp: server_inv_def locked_inv_def intro: user_inv_frame client_inv_frame)
  ultimately show ?thesis using assms(2) by simp
qed

lemma give_safe:
  assumes "locked_inv owns ok ctx0 R ctx w" and "client_mutex ctx = m"
    and "\<And>w1. server_inv owns ok ctx0 R ctx w1 \<Longrightarrow> w_fds w1 = w_fds w \<Longrightarrow> w_trace w1 = w_trace w \<Longrightarrow>
      holds F (f (0, w1)) Q"
  shows "holds F (andThen (lock_give m w) f) Q"
proof -
  have "lock_held 0 ctx w" using assms(1) by (simp add: locked_inv_def)
  then obtain w1 where "lock_give (client_mutex ctx) w = Inr (0, w1)" "lock_held 1 ctx w1"
    "w_heap w1 = w_heap w" "w_next w1 = w_next w" "w_fds w1 = w_fds w" "w_trace w1 = w_trace w"
    by (rule lock_give_inv)
  moreover from this have "server_inv owns ok ctx0 R ctx w1"
    using assms(1) by (auto simp: server_inv_def locked_inv_def intro: user_inv_frame client_inv_frame)
  ultimately show ?thesis using assms(2,3) by simp
qed

lemma handled_locked:
  assumes "locked_inv owns ok ctx0 R ctx w" and "handled owns ok R w None u w'"
  shows "locked_inv owns ok ctx0 R (ctx\<lparr>user_data := u\<rparr>) w'"
  using assms
  by (auto simp: locked_inv_def handled_def same_io_def lock_held_def client_inv_def)

text \<open>Allocating the payload, and freeing it again.\<close>

lemma malloc_safe:
  assumes "server_inv owns ok ctx0 R ctx w"
  obtains (fail) w1 where "platform_malloc len w = (None, w1)" "server_inv owns ok ctx0 R ctx w1"
      "w_fds w1 = w_fds w" "w_trace w1 = w_trace w"
  | (ok) p w1 where "platform_malloc len w = (Some p, w1)" "p \<notin> R"
      "server_inv owns ok ctx0 (insert p R) ctx w1" "w_fds w1 = w_fds w" "w_trace w1 = w_trace w"
proof (cases rule: platform_malloc_cases [of len w])
  case (fail w1)
  then show thesis
    using assms by (intro that(1) [of w1]) (auto simp: same_io_def intro: server_inv_frame)
next
  case (ok w1)
  have u: "user_inv owns ok R (user_data ctx) w" using assms by (simp add: server_inv_def)
  then have new: "w_next w \<notin> set (w_heap w)" by (auto simp: user_inv_def heap_ok_def)
  have "user_inv owns ok (insert (w_next w) R) (user_data ctx) w1"
    using u new ok by (auto simp: user_inv_def heap_ok_def)
  moreover have "w_next w \<notin> R" using u new by (auto simp: user_inv_def)
  ultimately show thesis
    using ok assms
    by (intro that(2) [of "w_next w" w1])
      (auto simp: server_inv_def same_io_def intro: lock_held_frame client_inv_frame)
qed

lemma free_safe:
  assumes "server_inv owns ok ctx0 (insert p R) ctx w" and "p \<notin> R"
  obtains w1 where "platform_free (Some p) w = Inr w1" "server_inv owns ok ctx0 R ctx w1"
    and "w_fds w1 = w_fds w" and "w_trace w1 = w_trace w"
proof -
  let ?w1 = "w\<lparr>w_heap := remove1 p (w_heap w)\<rparr>"
  have u: "user_inv owns ok (insert p R) (user_data ctx) w" using assms by (simp add: server_inv_def)
  then have p: "p \<in> set (w_heap w)" "p \<notin> owns (user_data ctx)" by (auto simp: user_inv_def)
  have "user_inv owns ok R (user_data ctx) ?w1"
    using u p assms(2) by (auto simp: user_inv_def heap_ok_def dest: notin_set_remove1)
  then have "server_inv owns ok ctx0 R ctx ?w1"
    using assms by (auto simp: server_inv_def intro: lock_held_frame client_inv_frame)
  then show thesis using p by (intro that [of ?w1]) (simp_all add: platform_free_def)
qed

text \<open>Receiving touches neither the heap nor the locks.\<close>

lemma platform_recv_safe: "safe (platform_recv fd n d w) (\<lambda>_. True)"
  by (auto simp: platform_recv_def Let_def split: list.split recv_ans.split)

lemma receive_payload_safe:
  "safe (receive_payload fd n payload received w)
     (\<lambda>(_, payload', w'). read_frame fd w w' \<and> length payload' = length payload)"
proof (induction fd n payload received w rule: receive_payload.induct)
  case (1 fd n payload received w)
  show ?case
  proof (cases "received < n")
    case False
    then show ?thesis by (subst receive_payload.simps) (simp add: read_frame_def)
  next
    case True
    show ?thesis
    proof (cases "platform_recv fd (n - received) False w")
      case (Inl e)
      then show ?thesis
        using platform_recv_safe [of fd "n - received" False w] True
        by (subst receive_payload.simps) simp
    next
      case (Inr res)
      obtain r got w1 where res: "res = (r, got, w1)" by (cases res)
      have frame: "read_frame fd w w1" using recv_frame Inr res by blast
      show ?thesis
      proof (cases "r \<le> 0")
        case neg: True
        then show ?thesis
          using True Inr res frame
          by (subst receive_payload.simps) (simp add: read_frame_def)
      next
        case pos: False
        show ?thesis
        proof (cases "memcpy_to payload received got")
          case (Inl e)
          then have "e = OutOfBounds" by (simp add: memcpy_to_def split: if_splits)
          then show ?thesis
            using True Inr Inl res pos by (subst receive_payload.simps) simp
        next
          case copied: (Inr payload1)
          have "safe (receive_payload fd n payload1 (received + nat r) w1)
              (\<lambda>(_, payload', w'). read_frame fd w1 w' \<and> length payload' = length payload1)"
            using "1.IH" [OF True Inr res [symmetric] refl pos copied] by simp
          then show ?thesis
            using True Inr res pos copied frame memcpy_to_length [OF copied]
            by (subst receive_payload.simps) (auto elim!: safe_mono intro: read_frame_trans)
        qed
      qed
    qed
  qed
qed

lemma server_inv_read_frame:
  "server_inv owns ok ctx0 R ctx w \<Longrightarrow> read_frame fd w w' \<Longrightarrow> server_inv owns ok ctx0 R ctx w'"
  by (erule server_inv_frame) (simp_all add: read_frame_def)

lemma check_version_frame:
  assumes "check_version policy n payload w = (e, w1)" and "server_inv owns ok ctx0 R ctx w"
  shows "server_inv owns ok ctx0 R ctx w1" and "w_fds w1 = w_fds w"
    and "e = Some bytes \<Longrightarrow> length bytes = 132"
proof -
  have "\<exists>l s. w1 = w \<or> w1 = pr l s w"
    using assms(1) by (auto simp: check_version_def Let_def split: if_splits)
  then show "server_inv owns ok ctx0 R ctx w1" and "w_fds w1 = w_fds w"
    using assms(2) by (auto intro: server_inv_frame)
  show "e = Some bytes \<Longrightarrow> length bytes = 132"
    using assms(1)
    by (auto simp: check_version_def Let_def enc_error_payload_def error_int_body_def
        split: if_splits)
qed

context command_handler
begin

lemma connection_safe:
  assumes "locked_inv owns ok ctx0 R ctx w" and "callbacks (config ctx0) = cbs"
  shows "holds F (call_connection (on_connection (callbacks (config ctx))) ip port (user_data ctx) w)
      (\<lambda>(u, w'). locked_inv owns ok ctx0 R (ctx\<lparr>user_data := u\<rparr>) w' \<and> w_fds w' = w_fds w \<and> w_trace w' = w_trace w)"
    and "holds F (call_connection (on_disconnection (callbacks (config ctx))) ip port (user_data ctx) w)
      (\<lambda>(u, w'). locked_inv owns ok ctx0 R (ctx\<lparr>user_data := u\<rparr>) w' \<and> w_fds w' = w_fds w \<and> w_trace w' = w_trace w)"
proof -
  have c: "callbacks (config ctx) = cbs" and u: "user_inv owns ok R (user_data ctx) w"
    using assms by (auto simp: locked_inv_def fixed_partD)
  have post: "locked_inv owns ok ctx0 R (ctx\<lparr>user_data := u\<rparr>) w' \<and> w_fds w' = w_fds w \<and> w_trace w' = w_trace w"
    if "handled owns ok R w None u w'" for u w'
    using handled_locked [OF assms(1) that] that by (simp add: handled_def same_io_def)
  show "holds F (call_connection (on_connection (callbacks (config ctx))) ip port (user_data ctx) w)
      (\<lambda>(u, w'). locked_inv owns ok ctx0 R (ctx\<lparr>user_data := u\<rparr>) w' \<and> w_fds w' = w_fds w \<and> w_trace w' = w_trace w)"
    unfolding c by (rule safe_mono, rule returns_holds, rule connection_call_safe [OF _ u], rule connection_law [OF _ u])
      (use post in auto)
  show "holds F (call_connection (on_disconnection (callbacks (config ctx))) ip port (user_data ctx) w)
      (\<lambda>(u, w'). locked_inv owns ok ctx0 R (ctx\<lparr>user_data := u\<rparr>) w' \<and> w_fds w' = w_fds w \<and> w_trace w' = w_trace w)"
    unfolding c by (rule safe_mono, rule returns_holds, rule connection_call_safe [OF _ u], rule disconnection_law [OF _ u])
      (use post in auto)
qed

text \<open>Letting a client in and sending it away always return.\<close>

lemma add_client_safe:
  assumes inv: "server_inv owns ok ctx0 R ctx w" and cbs: "callbacks (config ctx0) = cbs"
    and sock: "sock \<in> set (w_fds w)" "sock \<noteq> tcp_socket ctx"
  shows "holds F (add_client ctx sock addr w) (\<lambda>(r, ctx', w').
    server_inv owns ok ctx0 R ctx' w' \<and> w_fds w' = w_fds w \<and> w_trace w' = w_trace w \<and>
    (if connected (client ctx) then r = -1 \<and> ctx' = ctx
     else r = 0 \<and> connected (client ctx') \<and> client_socket (client ctx') = sock \<and>
       client_addr (client ctx') = addr \<and> \<not> udp_port_registered (client ctx')))"
proof (cases "connected (client ctx)")
  case True
  show ?thesis
    unfolding add_client_def
    by (rule take_safe [OF inv], simp add: True, rule give_safe [OF _ refl])
      (auto intro: locked_inv_frame)
next
  case False
  let ?Q = "\<lambda>(r, ctx', w'). server_inv owns ok ctx0 R ctx' w' \<and> w_fds w' = w_fds w \<and> w_trace w' = w_trace w \<and>
    (if connected (client ctx) then r = -1 \<and> ctx' = ctx
     else r = 0 \<and> connected (client ctx') \<and> client_socket (client ctx') = sock \<and>
       client_addr (client ctx') = addr \<and> \<not> udp_port_registered (client ctx'))"
  define c where "c w1 = new_client (client ctx) sock addr (e_time (w_env w1) (w_calls w1))" for w1 :: world
  have eq: "add_client ctx sock addr w = andThen (lock_take (client_mutex ctx) w) (\<lambda>(_, w1).
      andThen (call_connection (on_connection (callbacks (config ctx))) (peer_ip (c w1))
          (peer_port (c w1)) (user_data ctx) (pr_info ''Client connected'' (tick w1))) (\<lambda>(u, w3).
        andThen (lock_give (client_mutex ctx) w3) (\<lambda>(_, w4).
          Inr (0, ctx\<lparr>client := c w1, user_data := u\<rparr>, w4))))"
    by (simp add: add_client_def False time_now_def c_def Let_def)
  show ?thesis
    unfolding eq
  proof (rule take_safe [OF inv], unfold prod.case)
    fix w1 assume l: "locked_inv owns ok ctx0 R ctx w1" and fds: "w_fds w1 = w_fds w" "w_trace w1 = w_trace w"
    have lc: "locked_inv owns ok ctx0 R (ctx\<lparr>client := c w1\<rparr>) (pr_info ''Client connected'' (tick w1))"
      using l sock fds
      by (auto simp: locked_inv_def client_inv_def client_rec_inv_def c_def new_client_def
          lock_held_def user_inv_def heap_ok_def)
    show "holds F (andThen (call_connection (on_connection (callbacks (config ctx))) (peer_ip (c w1))
          (peer_port (c w1)) (user_data ctx) (pr_info ''Client connected'' (tick w1))) (\<lambda>(u, w3).
        andThen (lock_give (client_mutex ctx) w3) (\<lambda>(_, w4).
          Inr (0, ctx\<lparr>client := c w1, user_data := u\<rparr>, w4))))
      ?Q"
    proof (rule safe_andThen, rule connection_safe(1) [OF lc cbs, simplified], clarify)
      fix u w3 assume "locked_inv owns ok ctx0 R (ctx\<lparr>client := c w1, user_data := u\<rparr>) w3"
        and "w_fds w3 = w_fds w1" "w_trace w3 = w_trace w1"
      then show "holds F (andThen (lock_give (client_mutex ctx) w3) (\<lambda>(_, w4).
          Inr (0, ctx\<lparr>client := c w1, user_data := u\<rparr>, w4))) ?Q"
        by (intro give_safe) (simp_all add: c_def new_client_def False fds)
    qed
  qed
qed

lemma remove_client_safe:
  assumes inv: "server_inv owns ok ctx0 R ctx w" and cbs: "callbacks (config ctx0) = cbs"
  shows "holds F (remove_client ctx w) (\<lambda>(ctx', w').
    server_inv owns ok ctx0 R ctx' w' \<and> client ctx' = zero_client \<and>
    w_fds w' = (if connected (client ctx) then removeAll (client_socket (client ctx)) (w_fds w)
                else w_fds w) \<and>
    w_trace w' = w_trace w @ (if connected (client ctx) then [EvClose (client_socket (client ctx))] else []))"
proof (cases "connected (client ctx)")
  case False
  then have zero: "client ctx = zero_client"
    using inv by (simp add: server_inv_def client_inv_def client_rec_inv_def)
  show ?thesis
    unfolding remove_client_def
    by (rule take_safe [OF inv], simp add: False, rule give_safe [OF _ refl]) (auto simp: zero)
next
  case True
  let ?Q = "\<lambda>(ctx', w'). server_inv owns ok ctx0 R ctx' w' \<and> client ctx' = zero_client \<and>
    w_fds w' = (if connected (client ctx) then removeAll (client_socket (client ctx)) (w_fds w)
                else w_fds w) \<and>
    w_trace w' = w_trace w @ (if connected (client ctx) then [EvClose (client_socket (client ctx))] else [])"
  have sock: "client_socket (client ctx) \<in> set (w_fds w)" "client_socket (client ctx) \<noteq> tcp_socket ctx"
    using inv True by (auto simp: server_inv_def client_inv_def client_rec_inv_def)
  show ?thesis
    unfolding remove_client_def
  proof (rule take_safe [OF inv], simp only: prod.case True if_True)
    fix w1 assume l: "locked_inv owns ok ctx0 R ctx w1" and fds: "w_fds w1 = w_fds w" "w_trace w1 = w_trace w"
    have lp: "locked_inv owns ok ctx0 R ctx (pr_info ''Client disconnected'' w1)"
      using l by (rule locked_inv_frame) simp_all
    show "holds F (andThen (call_connection (on_disconnection (callbacks (config ctx)))
            (peer_ip (client ctx)) (peer_port (client ctx)) (user_data ctx)
            (pr_info ''Client disconnected'' w1)) (\<lambda>(u, w2).
          let (_, w3) = platform_close (client_socket (client ctx)) w2 in
          andThen (lock_give (client_mutex ctx) w3) (\<lambda>(_, w4).
            Inr (ctx\<lparr>client := zero_client, user_data := u\<rparr>, w4))))
       (\<lambda>(ctx', w'). server_inv owns ok ctx0 R ctx' w' \<and> client ctx' = zero_client \<and>
         w_fds w' = removeAll (client_socket (client ctx)) (w_fds w) \<and>
         w_trace w' = w_trace w @ [EvClose (client_socket (client ctx))])"
    proof (rule safe_andThen, rule connection_safe(2) [OF lp cbs], clarify)
      fix u w2 assume l2: "locked_inv owns ok ctx0 R (ctx\<lparr>user_data := u\<rparr>) w2"
        and fds2: "w_fds w2 = w_fds (pr_info ''Client disconnected'' w1)"
          "w_trace w2 = w_trace (pr_info ''Client disconnected'' w1)"
      let ?s = "client_socket (client ctx)"
      let ?w3 = "emit (EvClose ?s) (w2\<lparr>w_fds := removeAll ?s (w_fds w2)\<rparr>)"
      have open2: "?s \<in> set (w_fds w2)" using sock fds fds2 by simp
      have "locked_inv owns ok ctx0 R (ctx\<lparr>client := zero_client, user_data := u\<rparr>) ?w3"
        using l2 sock
        by (auto simp: locked_inv_def client_inv_def client_rec_inv_def zero_client_def
            lock_held_def user_inv_def heap_ok_def)
      then show "holds F (let (_, w3) = platform_close ?s w2 in
          andThen (lock_give (client_mutex ctx) w3) (\<lambda>(_, w4).
            Inr (ctx\<lparr>client := zero_client, user_data := u\<rparr>, w4)))
       (\<lambda>(ctx', w'). server_inv owns ok ctx0 R ctx' w' \<and> client ctx' = zero_client \<and>
         w_fds w' = removeAll ?s (w_fds w) \<and>
         w_trace w' = w_trace w @ [EvClose ?s])"
        using open2 fds fds2
        by (simp add: platform_close_def Let_def) (erule give_safe, simp_all)
    qed
  qed
qed

lemma register_safe:
  assumes inv: "server_inv owns ok ctx0 (insert p R) ctx w" and p: "p \<notin> R"
    and cbs: "callbacks (config ctx0) = cbs" and con: "connected (client ctx)"
  shows "safe (register_udp_port policy ctx n p payload w) (\<lambda>(over, ctx', w').
    server_inv owns ok ctx0 (if over then R else insert p R) ctx' w')"
proof -
  let ?Q = "\<lambda>(over, ctx', w'). server_inv owns ok ctx0 (if over then R else insert p R) ctx' w'"
  have err: "safe (reply (MSG_ERR_RESPONSE_INT (-1)) ctx (pr l s w1)) ?Q"
    if "server_inv owns ok ctx0 (insert p R) ctx w1" for l s w1
    by (rule safe_mono, rule reply_err_int_safe, rule server_inv_frame [OF that])
      (auto simp: reply_post_def)
  obtain e w1 where v: "check_version policy n payload w = (e, w1)"
    by (cases "check_version policy n payload w")
  note w1 = check_version_frame [OF v inv]
  consider "\<not> 2 \<le> n" | (rej) bytes where "2 \<le> n" "e = Some bytes" | (invalid) "2 \<le> n" "e = None" "udp_port_of payload = 0"
    | (good) "2 \<le> n" "e = None" "0 < udp_port_of payload"
    by (cases e) (auto simp: word_gt_0)
  then show ?thesis
  proof cases
    case 1
    then show ?thesis using err [OF inv] by (simp add: register_udp_port_def)
  next
    case rej
    have "safe (andThen (reply (MSG_ERR_RESPONSE bytes) ctx w1) (\<lambda>(_, ctx1, w2).
        andThen (platform_free (Some p) w2) (\<lambda>w3.
        andThen (remove_client ctx1 w3) (\<lambda>(ctx2, w4). Inr (True, ctx2, w4))))) ?Q"
    proof (rule safe_andThen, rule reply_err_safe [OF w1(1)])
      have "length bytes = 132" by (rule w1(3) [OF rej(2)])
      then show "bytes \<noteq> []" "length bytes < 2 ^ 32" by auto
      fix x assume "reply_post owns ok ctx0 (insert p R) ctx x"
      then obtain w2 where x: "x = (False, ctx, w2)" "server_inv owns ok ctx0 (insert p R) ctx w2"
        by (auto simp: reply_post_def)
      obtain w3 where w3: "platform_free (Some p) w2 = Inr w3" "server_inv owns ok ctx0 R ctx w3"
        by (rule free_safe [OF x(2) p])
      show "safe (case x of (_, ctx1, w2) \<Rightarrow> andThen (platform_free (Some p) w2) (\<lambda>w3.
          andThen (remove_client ctx1 w3) (\<lambda>(ctx2, w4). Inr (True, ctx2, w4)))) ?Q"
        by (simp add: x(1) w3(1))
          (rule safe_andThen [OF remove_client_safe [OF w3(2) cbs]], auto)
    qed
    then show ?thesis using rej v by (simp add: register_udp_port_def)
  next
    case invalid
    then show ?thesis using err [OF w1(1)] v by (simp add: register_udp_port_def)
  next
    case good
    let ?ctx1 = "ctx\<lparr>client := (client ctx)\<lparr>registered_udp_port := udp_port_of payload,
        udp_port_registered := True\<rparr>\<rparr>"
    have "safe (andThen (lock_take (client_mutex ctx) w1) (\<lambda>(_, w2).
        andThen (lock_give (client_mutex ctx) w2) (\<lambda>(_, w3).
          reply MSG_OK_RESPONSE ?ctx1 (pr_info ''registered UDP port'' w3)))) ?Q"
    proof (rule take_safe [OF w1(1)], unfold prod.case, rule give_safe [where ctx = ?ctx1], unfold prod.case)
      fix w2 assume "locked_inv owns ok ctx0 (insert p R) ctx w2"
      then show "locked_inv owns ok ctx0 (insert p R) ?ctx1 w2"
        using con good by (auto simp: locked_inv_def client_inv_def client_rec_inv_def lock_held_def)
    next
      fix w3 assume "server_inv owns ok ctx0 (insert p R) ?ctx1 w3"
      then have "server_inv owns ok ctx0 (insert p R) ?ctx1 (pr_info ''registered UDP port'' w3)"
        by (rule server_inv_frame) simp_all
      from reply_ok_safe [OF this]
      show "safe (reply MSG_OK_RESPONSE ?ctx1 (pr_info ''registered UDP port'' w3)) ?Q"
        by (rule safe_mono) (auto simp: reply_post_def)
    qed simp
    then show ?thesis using good v by (simp add: register_udp_port_def)
  qed
qed

lemma dispatch_safe:
  assumes inv: "server_inv owns ok ctx0 (insert p R) ctx w" and p: "p \<notin> R"
    and cbs: "callbacks (config ctx0) = cbs" and con: "connected (client ctx)"
  shows "safe (dispatch policy ctx h p payload w) (\<lambda>(over, ctx', w').
    server_inv owns ok ctx0 (if over then R else insert p R) ctx' w')"
proof -
  let ?Q = "\<lambda>(over, ctx', w'). server_inv owns ok ctx0 (if over then R else insert p R) ctx' w'"
  have c: "callbacks (config ctx) = cbs" and u: "user_inv owns ok (insert p R) (user_data ctx) w"
    using inv cbs by (auto simp: server_inv_def fixed_partD)
  have ans: "safe (answer rsp (ctx\<lparr>user_data := u\<rparr>) w1) ?Q"
    if "acted owns ok (insert p R) w rsp u w1" for rsp u w1
    by (rule safe_mono [OF answer_safe [OF inv that]]) auto
  have none: "safe (answer None ctx w) ?Q"
    using reply_err_int_safe [OF inv, of "-1"]
    by (auto simp: answer_def reply_post_def elim!: safe_mono)
  show ?thesis
  proof (cases "message_type h = msg_num MSG_REGISTER_UDP_PORT")
    case True
    then show ?thesis using register_safe [OF assms] by (simp add: dispatch_def)
  next
    case noreg: False
    show ?thesis
    proof (cases "message_type h = msg_num MSG_GET_ERROR_INFO")
      case True
      show ?thesis
      proof (cases "get_error_info cbs")
        case None
        then show ?thesis using noreg True none c by (simp add: dispatch_def)
      next
        case (Some f)
        show ?thesis
          using noreg True Some c
          by (simp add: dispatch_def) (rule safe_andThen [OF error_info_law [OF Some u]], auto intro: ans handled_acted)
      qed
    next
      case noinfo: False
      show ?thesis
      proof (cases "handle_command cbs")
        case None
        then show ?thesis using noreg noinfo none c by (simp add: dispatch_def)
      next
        case (Some f)
        show ?thesis
          using noreg noinfo Some c
          by (simp add: dispatch_def) (rule safe_andThen [OF command_law [OF Some u]], auto intro: ans)
      qed
    qed
  qed
qed

lemma handle_message_safe:
  assumes inv: "server_inv owns ok ctx0 R ctx w" and cbs: "callbacks (config ctx0) = cbs"
    and con: "connected (client ctx)"
  shows "safe (handle_message policy ctx h w) (\<lambda>(ctx', w'). server_inv owns ok ctx0 R ctx' w')"
proof (cases "unat (payload_length h) \<le> MAX_PAYLOAD_SIZE")
  case False
  have "server_inv owns ok ctx0 R ctx (pr_error ''message too large'' w)"
    by (rule server_inv_frame [OF inv]) simp_all
  from reply_err_int_safe [OF this, of "-1"] show ?thesis
    using False by (simp add: handle_message_def) (erule safe_andThen, auto simp: reply_post_def)
next
  case small: True
  show ?thesis
  proof (cases rule: malloc_safe [OF inv, of "payload_length h"])
    case (1 w1)
    from reply_err_int_safe [OF 1(2), of "-1"] show ?thesis
      using small 1(1) by (simp add: handle_message_def) (erule safe_andThen, auto simp: reply_post_def)
  next
    case (2 p w1)
    let ?n = "unat (payload_length h)"
    let ?ctx1 = "\<lambda>now. ctx\<lparr>client := (client ctx)\<lparr>last_command := now\<rparr>\<rparr>"
    have dead: "safe (andThen (platform_free (Some p) w2) (\<lambda>w3. remove_client ctx w3))
        (\<lambda>(ctx', w'). server_inv owns ok ctx0 R ctx' w')"
      if i2: "server_inv owns ok ctx0 (insert p R) ctx w2" for w2
    proof -
      obtain w3 where w3: "platform_free (Some p) w2 = Inr w3" "server_inv owns ok ctx0 R ctx w3"
        by (rule free_safe [OF i2 2(2)])
      show ?thesis using w3(1) by simp (rule safe_mono [OF remove_client_safe [OF w3(2) cbs]], auto)
    qed
    have live: "safe (andThen (dispatch policy (?ctx1 now) h p payload w3) (\<lambda>(over, ctx2, w4).
        if over then Inr (ctx2, w4)
        else andThen (platform_free (Some p) w4) (\<lambda>w5. Inr (ctx2, w5))))
        (\<lambda>(ctx', w'). server_inv owns ok ctx0 R ctx' w')"
      if i3: "server_inv owns ok ctx0 (insert p R) (?ctx1 now) w3" for now payload w3
    proof (rule safe_andThen, rule dispatch_safe [OF i3 2(2) cbs], simp add: con, clarify)
      fix over ctx2 w4
      assume i4: "server_inv owns ok ctx0 (if over then R else insert p R) ctx2 w4"
      show "safe (if over then Inr (ctx2, w4)
          else andThen (platform_free (Some p) w4) (\<lambda>w5. Inr (ctx2, w5)))
          (\<lambda>(ctx', w'). server_inv owns ok ctx0 R ctx' w')"
      proof (cases over)
        case True
        then show ?thesis using i4 by simp
      next
        case False
        then have "server_inv owns ok ctx0 (insert p R) ctx2 w4" using i4 by simp
        then show ?thesis using False by (elim free_safe [OF _ 2(2)]) simp
      qed
    qed
    have time: "server_inv owns ok ctx0 (insert p R) (?ctx1 (fst (time_now w2))) (snd (time_now w2))"
      if "server_inv owns ok ctx0 (insert p R) ctx w2" for w2
      using that con
      by (auto simp: time_now_def server_inv_def client_inv_def client_rec_inv_def lock_held_def
          user_inv_def heap_ok_def)
    show ?thesis
      using small 2(1)
      by (simp add: handle_message_def Let_def)
        (rule safe_andThen [OF receive_payload_safe],
          auto simp: case_prod_beta dest!: server_inv_read_frame [OF 2(3)] intro: dead live time)
  qed
qed

lemma serve_client_safe:
  assumes inv: "server_inv owns ok ctx0 R ctx w" and cbs: "callbacks (config ctx0) = cbs"
    and con: "connected (client ctx)"
  shows "safe (serve_client policy ctx w) (\<lambda>(ctx', w'). server_inv owns ok ctx0 R ctx' w')"
proof -
  let ?mem = "uninit 0 HEADER_SIZE w"
  have "safe (read_header (client_socket (client ctx)) ?mem w)
      (\<lambda>(r, mem, w1). server_inv owns ok ctx0 R ctx w1)"
  proof (cases "read_header (client_socket (client ctx)) ?mem w")
    case (Inl e)
    then show ?thesis using read_header_safe by fastforce
  next
    case (Inr x)
    then show ?thesis
      using read_header_loop_sound [of "client_socket (client ctx)" ?mem 0 18 w]
      by (cases x) (auto simp: read_header_def loop_pos_def intro: server_inv_read_frame [OF inv])
  qed
  then show ?thesis
    unfolding serve_client_def
  proof (rule safe_andThen, clarify)
    fix r mem w1 assume i: "server_inv owns ok ctx0 R ctx w1"
    have "safe (remove_client ctx w1) (\<lambda>(ctx', w'). server_inv owns ok ctx0 R ctx' w')"
      by (rule safe_mono [OF remove_client_safe [OF i cbs]]) auto
    with i show "safe (if r \<le> 0 then remove_client ctx w1
        else if r = int HEADER_SIZE then handle_message policy ctx (dec_header mem) w1
        else Inr (ctx, w1)) (\<lambda>(ctx', w'). server_inv owns ok ctx0 R ctx' w')"
      using handle_message_safe [OF i cbs con, of policy "dec_header mem"] by simp
  qed
qed

lemma accept_client_safe:
  assumes inv: "server_inv owns ok ctx0 R ctx w" and cbs: "callbacks (config ctx0) = cbs"
  shows "safe (accept_client ctx w) (\<lambda>(ctx', w'). server_inv owns ok ctx0 R ctx' w' \<and>
    (connected (client ctx) \<longrightarrow> ctx' = ctx))"
proof (cases "e_accept (w_env w) (w_calls w)")
  case None
  have "platform_accept (tcp_socket ctx) w = (-1, None, tick w)"
    using None inv by (simp add: platform_accept_def server_inv_def client_inv_def)
  moreover have "server_inv owns ok ctx0 R ctx (tick w)" by (rule server_inv_frame [OF inv]) simp_all
  ultimately show ?thesis by (simp add: accept_client_def)
next
  case (Some aq)
  obtain addr q where aq: "aq = (addr, q)" by (cases aq)
  let ?s = "first_free (w_fds w)"
  let ?w1 = "(tick w)\<lparr>w_fds := ?s # w_fds w, w_inq := (w_inq w)(?s := q)\<rparr>"
  have tcp: "tcp_socket ctx \<in> set (w_fds w)" using inv by (simp add: server_inv_def client_inv_def)
  then have acc: "platform_accept (tcp_socket ctx) w = (?s, Some addr, ?w1)"
    using Some aq by (simp add: platform_accept_def Let_def)
  have fresh: "?s \<noteq> tcp_socket ctx" "connected (client ctx) \<Longrightarrow> client_socket (client ctx) \<noteq> ?s"
    using tcp inv first_free_fresh [of "w_fds w"]
    by (auto simp: server_inv_def client_inv_def client_rec_inv_def)
  have i1: "server_inv owns ok ctx0 R ctx ?w1"
    using inv by (auto simp: server_inv_def client_inv_def client_rec_inv_def lock_held_def
        user_inv_def heap_ok_def)
  show ?thesis
    unfolding accept_client_def acc
  proof (simp only: prod.case option.case,
      rule safe_andThen [OF add_client_safe [OF i1 cbs]], simp, simp add: fresh, clarify)
    fix r :: int and ctx1 w2
    assume i2: "server_inv owns ok ctx0 R ctx1 w2" and fds: "w_fds w2 = w_fds ?w1"
      and r: "if connected (client ctx) then r = -1 \<and> ctx1 = ctx
        else r = 0 \<and> connected (client ctx1) \<and> client_socket (client ctx1) = ?s \<and>
          client_addr (client ctx1) = addr \<and> \<not> udp_port_registered (client ctx1)"
    show "safe (if r = 0 then Inr (ctx1, w2)
        else let (_, w3) = platform_close ?s w2 in Inr (ctx1, w3))
      (\<lambda>(ctx', w'). server_inv owns ok ctx0 R ctx' w' \<and> (connected (client ctx) \<longrightarrow> ctx' = ctx))"
    proof (cases "connected (client ctx)")
      case False
      then show ?thesis using r i2 by simp
    next
      case True
      let ?w3 = "emit (EvClose ?s) (w2\<lparr>w_fds := removeAll ?s (w_fds w2)\<rparr>)"
      have "server_inv owns ok ctx0 R ctx ?w3"
        using i2 r True fds fresh
        by (auto simp: server_inv_def client_inv_def client_rec_inv_def lock_held_def
            user_inv_def heap_ok_def)
      moreover have "platform_close ?s w2 = (0, ?w3)" using fds by (simp add: platform_close_def)
      ultimately show ?thesis using True r by simp
    qed
  qed
qed

text \<open>One turn of either thread keeps the invariant.\<close>

lemma tcp_turn_safe:
  assumes inv: "server_inv owns ok ctx0 R ctx w" and cbs: "callbacks (config ctx0) = cbs"
  shows "safe (tcp_turn policy ctx w) (\<lambda>(_, ctx', w'). server_inv owns ok ctx0 R ctx' w')"
proof (cases "watched ctx")
  case (Inl e)
  then have "e = OutOfBounds"
    by (auto simp: watched_def FD_SET_def split: if_splits)
  then show ?thesis using Inl by (simp add: tcp_turn_def)
next
  case (Inr fds)
  obtain a w1 where sel: "platform_select fds w = (a, w1)" by (cases "platform_select fds w")
  have i1: "server_inv owns ok ctx0 R ctx w1"
    using sel
    by (intro server_inv_frame [OF inv])
      (auto simp: platform_select_def split: if_splits select_ans.splits)
  have gone: "safe (remove_client ctx w1) (\<lambda>(ctx', w'). server_inv owns ok ctx0 R ctx' w')"
    by (rule safe_mono [OF remove_client_safe [OF i1 cbs]]) auto
  show ?thesis
  proof (cases a)
    case (SelErr e)
    have "server_inv owns ok ctx0 R ctx (pr_error ''Server error - quitting'' w1)"
      by (rule server_inv_frame [OF i1]) simp_all
    then show ?thesis
      using Inr sel SelErr i1 gone [unfolded case_prod_beta]
      by (auto simp: tcp_turn_def safe_andThen_iff case_prod_beta)
  next
    case SelTimeout
    then show ?thesis using Inr sel i1 by (simp add: tcp_turn_def)
  next
    case (SelReady l c)
    let ?ready = "readable ctx fds l c"
    have acc: "safe (if tcp_socket ctx \<in> set ?ready then accept_client ctx w1 else Inr (ctx, w1))
        (\<lambda>(ctx1, w2). server_inv owns ok ctx0 R ctx1 w2)"
      using i1 by (auto intro: safe_mono [OF accept_client_safe [OF i1 cbs]])
    have serve: "safe (if connected (client ctx1) \<and> client_socket (client ctx1) \<in> set ?ready
        then andThen (serve_client policy ctx1 w2) (\<lambda>(ctx2, w3). Inr (True, ctx2, w3))
        else Inr (True, ctx1, w2)) (\<lambda>(_, ctx', w'). server_inv owns ok ctx0 R ctx' w')"
      if "server_inv owns ok ctx0 R ctx1 w2" for ctx1 w2
      using that
      by (auto simp: safe_andThen_iff case_prod_beta intro: safe_mono [OF serve_client_safe [OF that cbs]])
    show ?thesis
      unfolding tcp_turn_def Inr sel SelReady andThen_Inr prod.case select_ans.case Let_def
      by (rule safe_andThen [OF acc]) (use serve in auto)
  qed
qed

lemma timeout_turn_safe:
  assumes inv: "server_inv owns ok ctx0 R ctx w" and cbs: "callbacks (config ctx0) = cbs"
  shows "safe (timeout_turn ctx w) (\<lambda>(ctx', w'). server_inv owns ok ctx0 R ctx' w')"
proof -
  have i1: "server_inv owns ok ctx0 R ctx (tick w)" by (rule server_inv_frame [OF inv]) simp_all
  have gone: "safe (remove_client ctx w2) (\<lambda>(ctx', w'). server_inv owns ok ctx0 R ctx' w')"
    if "server_inv owns ok ctx0 R ctx w2" for w2
    by (rule safe_mono [OF remove_client_safe [OF that cbs]]) auto
  show ?thesis
    unfolding timeout_turn_def time_now_def Let_def prod.case
    by (rule take_safe [OF i1])
      (auto intro!: give_safe [OF _ refl] intro: gone locked_inv_frame)
qed

end

end
