(* ===== verification/ServerProps.thy ===== *)
theory ServerProps
  imports ServerInv
begin

text \<open>
  What the server does: the invariant over every interleaving of turns, exclusive control, the
  delivery of a command whatever way the network cuts the stream, the UDP registration by
  policy, the timeout, and the cases in which a client or its bytes are lost.
\<close>

section \<open>The stream of a socket\<close>

text \<open>The bytes that can be read before an error or the end of the stream.\<close>

fun lead :: "recv_ans list \<Rightarrow> byte list" where
  "lead (Seg b bs # q) = b # bs @ lead q"
| "lead _ = []"

lemma lead_seg [simp]: "lead (seg bs @ q) = bs @ lead q"
  by (cases bs) simp_all

lemma lead_nonempty: "lead q \<noteq> [] \<Longrightarrow> \<exists>bs q'. q = seg bs @ q' \<and> bs \<noteq> []"
proof (cases q rule: lead.cases)
  case (1 b bs q')
  then show ?thesis by (intro exI [of _ "b # bs"]) simp
qed simp_all

lemma receive_payload_stream:
  assumes "fd \<in> set (w_fds w)" and "received \<le> n" and "length payload = n"
    and "n - received \<le> length (lead (w_inq w fd))"
  shows "\<exists>q. receive_payload fd n payload received w =
      Inr (False, take received payload @ take (n - received) (lead (w_inq w fd)),
        w\<lparr>w_inq := (w_inq w)(fd := q)\<rparr>) \<and>
    lead q = drop (n - received) (lead (w_inq w fd))"
  using assms
proof (induction fd n payload received w rule: receive_payload.induct)
  case (1 fd n payload received w)
  show ?case
  proof (cases "received < n")
    case False
    then show ?thesis
      using "1.prems" by (subst receive_payload.simps) (auto intro!: exI [of _ "w_inq w fd"])
  next
    case True
    then obtain bs q where q: "w_inq w fd = seg bs @ q" "bs \<noteq> []"
      using "1.prems"(4) lead_nonempty [of "w_inq w fd"] by force
    define k where "k = min (n - received) (length bs)"
    let ?w1 = "w\<lparr>w_inq := (w_inq w)(fd := seg (drop k bs) @ q)\<rparr>"
    let ?pl = "take received payload @ take k bs @ drop (received + k) payload"
    have k: "0 < k" "k \<le> n - received" "k \<le> length bs" using True q(2) by (auto simp: k_def)
    have cut: "take (n - received) bs = take k bs" "drop (n - received) bs = drop k bs"
      by (auto simp: k_def min_def)
    have recv: "platform_recv fd (n - received) False w = Inr (int k, take k bs, ?w1)"
      using recv_seg [OF "1.prems"(1) _ q(2,1), of "n - received" False] True
      by (simp add: k_def cut)
    have copy: "memcpy_to payload received (take k bs) = Inr ?pl"
      using "1.prems"(2,3) k True by (simp add: memcpy_to_ok)
    have eq: "receive_payload fd n payload received w = receive_payload fd n ?pl (received + k) ?w1"
      using True recv copy k(1) by (subst receive_payload.simps) simp
    let ?L = "lead (w_inq w fd)"
    have L: "lead (w_inq ?w1 fd) = drop k ?L" "take k ?L = take k bs" using q(1) k(3) by simp_all
    have room: "n - (received + k) \<le> length (lead (w_inq ?w1 fd))"
      using "1.prems"(4) k unfolding L length_drop by linarith
    have IH: "\<exists>q'. receive_payload fd n ?pl (received + k) ?w1 =
        Inr (False, take (received + k) ?pl @ take (n - (received + k)) (lead (w_inq ?w1 fd)),
          ?w1\<lparr>w_inq := (w_inq ?w1)(fd := q')\<rparr>) \<and>
        lead q' = drop (n - (received + k)) (lead (w_inq ?w1 fd))"
    proof (rule "1.IH" [OF True recv refl refl _ copy, unfolded nat_int])
      show "\<not> int k \<le> 0" using k(1) by simp
      show "fd \<in> set (w_fds ?w1)" using "1.prems"(1) by simp
      show "received + k \<le> n" using k(2) True by simp
      show "length ?pl = n" using "1.prems"(3) k True by simp
    qed (rule room)
    have parts: "take (received + k) ?pl = take received payload @ take k bs"
      "n - (received + k) = n - received - k"
      using "1.prems"(2,3) k by simp_all
    have sum: "k + (n - received - k) = n - received" "n - received - k + k = n - received"
      using k(2) by simp_all
    have split: "take k ?L @ take (n - received - k) (drop k ?L) = take (n - received) ?L"
      by (simp only: take_add [symmetric] sum)
    have rest: "drop (n - received - k) (drop k ?L) = drop (n - received) ?L"
      by (simp only: drop_drop sum)
    have fin: "take received payload @ take k bs @ take (n - received - k) (drop k ?L) =
        take received payload @ take (n - received) ?L"
      by (simp only: split [symmetric] L(2))
    from IH obtain q' where q': "receive_payload fd n ?pl (received + k) ?w1 =
        Inr (False, take (received + k) ?pl @ take (n - (received + k)) (lead (w_inq ?w1 fd)),
          ?w1\<lparr>w_inq := (w_inq ?w1)(fd := q')\<rparr>)"
      "lead q' = drop (n - (received + k)) (lead (w_inq ?w1 fd))" by blast
    have w': "?w1\<lparr>w_inq := (w_inq ?w1)(fd := q')\<rparr> = w\<lparr>w_inq := (w_inq w)(fd := q')\<rparr>" by simp
    show ?thesis
      by (rule exI [of _ q'])
        (simp only: eq q' parts L(1) append_assoc fin rest w' simp_thms)
  qed
qed

section \<open>Interleavings of turns\<close>

text \<open>
  A schedule of whole turns: \<open>True\<close> is a turn of the TCP thread, \<open>False\<close> one of the timeout
  thread.
\<close>

fun run_turns :: "nat \<Rightarrow> bool list \<Rightarrow> 'u robot_server_ctx \<Rightarrow> world \<Rightarrow> ('u robot_server_ctx \<times> world) res" where
  "run_turns policy [] ctx w = Inr (ctx, w)"
| "run_turns policy (True # s) ctx w =
     andThen (tcp_turn policy ctx w) (\<lambda>(_, ctx1, w1). run_turns policy s ctx1 w1)"
| "run_turns policy (False # s) ctx w =
     andThen (timeout_turn ctx w) (\<lambda>(ctx1, w1). run_turns policy s ctx1 w1)"

text \<open>The invariant of the server, over every schedule of turns of its two threads, for every
  behaviour of the network and of memory allocation, every command and every compile-time
  policy: no heap block is freed twice or used after it was freed; every block that is neither
  the user data's nor the server's from the start has been freed again, so nothing leaks; the
  mutex is free between turns; a connected client has an open socket of its own and a record that
  fits its address; a server without client has an all-zero record; and a UDP port is registered
  only with a number above zero. The callbacks may do anything that keeps the laws of
  \<open>command_handler\<close>.\<close>

theorem server_invariant_all_schedules:
  assumes "command_handler (callbacks (config ctx0)) owns ok"
    and "server_inv owns ok ctx0 R ctx w"
  shows "safe (run_turns policy s ctx w) (\<lambda>(ctx', w'). server_inv owns ok ctx0 R ctx' w')"
  using assms(2)
proof (induction s arbitrary: ctx w)
  case Nil
  then show ?case by simp
next
  case (Cons b s)
  have tcp: "safe (tcp_turn policy ctx w) (\<lambda>(_, ctx', w'). server_inv owns ok ctx0 R ctx' w')"
    by (rule command_handler.tcp_turn_safe [OF assms(1) Cons.prems refl])
  have timeout: "safe (timeout_turn ctx w) (\<lambda>(ctx', w'). server_inv owns ok ctx0 R ctx' w')"
    by (rule command_handler.timeout_turn_safe [OF assms(1) Cons.prems refl])
  show ?case
    by (cases b) (auto intro: safe_andThen [OF tcp] safe_andThen [OF timeout] Cons.IH)
qed

text \<open>A server for examples: no callbacks, mutex 1, listening on descriptor 3.\<close>

definition no_callbacks :: "'u robot_network_callbacks" where
  "no_callbacks = \<lparr>on_connection = None, on_disconnection = None, handle_command = None,
     get_error_info = None\<rparr>"

definition ex_server :: "nat robot_server_ctx" where
  "ex_server = \<lparr>tcp_socket = 3, udp_socket = 4, running = 1, tcp_thread = 1, timeout_thread = 2,
     client_mutex = Some 1, config = \<lparr>tcp_port = 27654, udp_port = 27655,
       connection_timeout_ms = 1000, callbacks = no_callbacks\<rparr>,
     client = zero_client, user_data = 0, ctx_addr = 0\<rparr>"

definition ex_client :: client_info where
  "ex_client = zero_client\<lparr>client_socket := 5, connected := True, peer_ip := inet_ntop 0,
     peer_port := platform_ntohs 0\<rparr>"

definition ex_net :: "recv_ans list \<Rightarrow> world" where
  "ex_net q = ok_world\<lparr>w_next := 2, w_heap := [1, 0], w_sems := (\<lambda>_. None)(1 := Some 1),
     w_fds := [0, 1, 2, 3, 4, 5], w_inq := (\<lambda>_. [])(5 := q)\<rparr>"

lemma no_callbacks_handler: "command_handler no_callbacks (\<lambda>_. {}) (\<lambda>_. True)"
  by unfold_locales (simp_all add: no_callbacks_def)

lemma ex_server_sel [simp]:
  "callbacks (config ex_server) = no_callbacks" "client_mutex ex_server = Some 1"
  "tcp_socket ex_server = 3" "client ex_server = zero_client" "user_data ex_server = 0"
  "connection_timeout_ms (config ex_server) = 1000"
  by (simp_all add: ex_server_def)

lemma zero_client_sel [simp]: "\<not> connected zero_client" "\<not> udp_port_registered zero_client"
  "registered_udp_port zero_client = 0" "client_socket zero_client = 0"
  by (simp_all add: zero_client_def)

lemma ex_client_sel [simp]: "connected ex_client" "client_socket ex_client = 5"
  by (simp_all add: ex_client_def)

lemma ex_net_sel [simp]:
  "w_env (ex_net q) = ok_env" "w_next (ex_net q) = 2" "w_heap (ex_net q) = [1, 0]"
  "w_sems (ex_net q) = (\<lambda>_. None)(1 := Some 1)" "w_fds (ex_net q) = [0, 1, 2, 3, 4, 5]"
  "w_inq (ex_net q) = (\<lambda>_. [])(5 := q)" "w_errno (ex_net q) = 0" "w_calls (ex_net q) = 0"
  "w_trace (ex_net q) = []"
  by (simp_all add: ex_net_def)

lemma ex_server_inv:
  "server_inv (\<lambda>_. {}) (\<lambda>_. True) ex_server {0, 1} ex_server (ex_net q)"
  "server_inv (\<lambda>_. {}) (\<lambda>_. True) ex_server {0, 1} (ex_server\<lparr>client := ex_client\<rparr>) (ex_net q)"
  by (auto simp: server_inv_def user_inv_def heap_ok_def lock_held_def client_inv_def
      client_rec_inv_def ex_client_def zero_client_def)

theorem server_invariant_all_schedules_witness:
  "safe (run_turns 1 [True, False, True] (ex_server\<lparr>client := ex_client\<rparr>) (ex_net [Eof]))
     (\<lambda>(ctx', w'). server_inv (\<lambda>_. {}) (\<lambda>_. True) ex_server {0, 1} ctx' w')"
  by (rule server_invariant_all_schedules, simp add: no_callbacks_handler, rule ex_server_inv)

text \<open>Exclusive control: while a client is connected, a new connection is accepted and closed at
  once, whoever it comes from; the record of the client, its socket and everything else of the
  server are as before.\<close>

theorem exclusive_control:
  assumes "lock_held 1 ctx w" and "connected (client ctx)" and "tcp_socket ctx \<in> set (w_fds w)"
    and "e_accept (w_env w) (w_calls w) = Some (addr, q)"
  shows "\<exists>w'. accept_client ctx w = Inr (ctx, w') \<and> w_fds w' = w_fds w \<and> w_heap w' = w_heap w \<and>
    w_trace w' = w_trace w @ [EvClose (first_free (w_fds w))] \<and> lock_held 1 ctx w'"
proof -
  let ?s = "first_free (w_fds w)"
  let ?w1 = "(tick w)\<lparr>w_fds := ?s # w_fds w, w_inq := (w_inq w)(?s := q)\<rparr>"
  have "lock_held 1 ctx ?w1" using assms(1) by (simp add: lock_held_def)
  then obtain w2 where t: "lock_take (client_mutex ctx) ?w1 = Inr (0, w2)" "lock_held 0 ctx w2"
    "w_heap w2 = w_heap ?w1" "w_fds w2 = w_fds ?w1" "w_trace w2 = w_trace ?w1"
    by (rule lock_take_inv)
  have "lock_held 0 ctx (pr_info ''Connection rejected'' w2)"
    using t(2) by (rule lock_held_frame) simp_all
  then obtain w3 where g: "lock_give (client_mutex ctx) (pr_info ''Connection rejected'' w2) = Inr (0, w3)"
    "lock_held 1 ctx w3" "w_heap w3 = w_heap w2" "w_fds w3 = w_fds w2" "w_trace w3 = w_trace w2"
    by (rule lock_give_inv) simp
  have "platform_accept (tcp_socket ctx) w = (?s, Some addr, ?w1)"
    using assms(3,4) by (simp add: platform_accept_def Let_def)
  moreover have "add_client ctx ?s addr ?w1 = Inr (-1, ctx, w3)"
    using t(1) g(1) assms(2) by (simp add: add_client_def)
  moreover have "platform_close ?s w3 = (0, emit (EvClose ?s) (w3\<lparr>w_fds := w_fds w\<rparr>))"
    using t(4) g(4) first_free_fresh [of "w_fds w"] by (simp add: platform_close_def)
  ultimately show ?thesis
    using t g by (simp add: accept_client_def) (auto intro: lock_held_frame)
qed

definition crowded_env :: env where
  "crowded_env = ok_env\<lparr>e_accept := \<lambda>_. Some (\<lparr>sin_family = 2, sin_port = 0, sin_addr = 1\<rparr>, [])\<rparr>"

theorem exclusive_control_witness:
  "\<exists>w'. accept_client (ex_server\<lparr>client := ex_client\<rparr>) (ex_net []\<lparr>w_env := crowded_env\<rparr>) =
     Inr (ex_server\<lparr>client := ex_client\<rparr>, w') \<and> w_fds w' = [0, 1, 2, 3, 4, 5]"
proof -
  have "lock_held 1 (ex_server\<lparr>client := ex_client\<rparr>) (ex_net []\<lparr>w_env := crowded_env\<rparr>)"
    by (simp add: lock_held_def crowded_env_def)
  from exclusive_control [OF this] show ?thesis
    by (fastforce simp: crowded_env_def)
qed

section \<open>Delivery of a command\<close>

lemma malloc_small:
  assumes "unat len \<le> MAX_PAYLOAD_SIZE" and "e_malloc (w_env w) (w_calls w)"
  shows "platform_malloc len w =
    (Some (w_next w), (tick w)\<lparr>w_next := Suc (w_next w), w_heap := w_next w # w_heap w\<rparr>)"
proof -
  have "unat len < 2 ^ 31" using assms(1) by simp
  then have "int (unat len) < int (2 ^ 31)" by (simp only: of_nat_less_iff)
  then have "uint len < 2 ^ 31" by simp
  then have "sint len = uint len"
    unfolding sint_uint by (intro signed_take_bit_int_eq_self) (simp_all add: order.trans [of _ 0])
  then have "\<not> sint len < 0" by simp
  then show ?thesis using assms(2) by (simp add: platform_malloc_def malloc_def Let_def)
qed

lemma handle_message_delivers:
  assumes "client_socket (client ctx) \<in> set (w_fds w)"
    and "unat (payload_length h) \<le> MAX_PAYLOAD_SIZE"
    and "unat (payload_length h) \<le> length (lead (w_inq w (client_socket (client ctx))))"
    and "e_malloc (w_env w) (w_calls w)"
  shows "\<exists>w1 now.
    handle_message policy ctx h w =
      andThen (dispatch policy (ctx\<lparr>client := (client ctx)\<lparr>last_command := now\<rparr>\<rparr>) h (w_next w)
          (take (unat (payload_length h)) (lead (w_inq w (client_socket (client ctx))))) w1)
        (\<lambda>(over, ctx2, w4). if over then Inr (ctx2, w4)
           else andThen (platform_free (Some (w_next w)) w4) (\<lambda>w5. Inr (ctx2, w5))) \<and>
    lead (w_inq w1 (client_socket (client ctx))) =
      drop (unat (payload_length h)) (lead (w_inq w (client_socket (client ctx)))) \<and>
    w_trace w1 = w_trace w \<and> w_heap w1 = w_next w # w_heap w \<and> w_fds w1 = w_fds w"
proof -
  let ?s = "client_socket (client ctx)" and ?n = "unat (payload_length h)"
  let ?w0 = "(tick w)\<lparr>w_next := Suc (w_next w), w_heap := w_next w # w_heap w\<rparr>"
  obtain q where q: "receive_payload ?s ?n (replicate ?n 0) 0 ?w0 =
      Inr (False, take ?n (lead (w_inq w ?s)), ?w0\<lparr>w_inq := (w_inq w)(?s := q)\<rparr>)"
    "lead q = drop ?n (lead (w_inq w ?s))"
    using receive_payload_stream [of ?s ?w0 0 ?n "replicate ?n 0"] assms(1,3) by auto
  let ?w1 = "tick (?w0\<lparr>w_inq := (w_inq w)(?s := q)\<rparr>)"
  have "handle_message policy ctx h w =
      andThen (dispatch policy (ctx\<lparr>client := (client ctx)
            \<lparr>last_command := e_time (w_env w) (Suc (w_calls w))\<rparr>\<rparr>) h (w_next w)
          (take ?n (lead (w_inq w ?s))) ?w1)
        (\<lambda>(over, ctx2, w4). if over then Inr (ctx2, w4)
           else andThen (platform_free (Some (w_next w)) w4) (\<lambda>w5. Inr (ctx2, w5)))"
    using assms(2) by (simp add: handle_message_def malloc_small [OF assms(2,4)] q(1) time_now_def Let_def)
  then show ?thesis
    by (intro exI [of _ ?w1] exI [of _ "e_time (w_env w) (Suc (w_calls w))"]) (simp add: q(2))
qed

text \<open>C5. Delivery of a command: when a header with the right magic number arrives in one piece and the
  bytes after it - however the network cuts them - hold the payload it announces, of at most
  104016 bytes, the server calls the command handler once, with this header and exactly the
  payload's bytes, sends its response, and frees the payload; what is left on the stream are the
  bytes after the payload.\<close>

theorem command_delivered:
  assumes "client_socket (client ctx) \<in> set (w_fds w)"
    and "w_inq w (client_socket (client ctx)) = seg (enc_header h @ rest) @ q"
    and "magic_number h = PROTOCOL_MAGIC_NUMBER"
    and "unat (payload_length h) \<le> MAX_PAYLOAD_SIZE"
    and "unat (payload_length h) \<le> length (rest @ lead q)"
    and "message_type h \<notin> {msg_num MSG_REGISTER_UDP_PORT, msg_num MSG_GET_ERROR_INFO}"
    and "handle_command (callbacks (config ctx)) = Some f"
    and "e_malloc (w_env w) (w_calls w)"
  shows "\<exists>w1 now.
    serve_client policy ctx w =
      andThen (f h (take (unat (payload_length h)) (rest @ lead q)) (user_data ctx) w1) (\<lambda>(rsp, u, w2).
      andThen (answer rsp (ctx\<lparr>client := (client ctx)\<lparr>last_command := now\<rparr>, user_data := u\<rparr>) w2)
        (\<lambda>(_, ctx2, w3).
      andThen (platform_free (Some (w_next w)) w3) (\<lambda>w4. Inr (ctx2, w4)))) \<and>
    lead (w_inq w1 (client_socket (client ctx))) =
      drop (unat (payload_length h)) (rest @ lead q) \<and>
    w_trace w1 = w_trace w \<and> w_heap w1 = w_next w # w_heap w"
proof -
  let ?s = "client_socket (client ctx)"
  let ?w0 = "w\<lparr>w_inq := (w_inq w)(?s := seg rest @ q)\<rparr>"
  have hdr: "read_header ?s (uninit 0 18 w) w = Inr (18, enc_header h, ?w0)"
    using read_header_skips_junk [of ?s w "uninit 0 18 w" "enc_header h" "[]" rest q] assms(1-3)
    by simp
  have over: "answer rsp c w' = Inr (b, c', w'') \<Longrightarrow> \<not> b" for rsp and c c' :: "'a robot_server_ctx" and w' b w''
    by (auto simp: answer_def reply_def andThen_eq_Inr split: option.splits)
  have cont: "andThen (answer rsp c w') (\<lambda>(over, ctx2, w4). if over then Inr (ctx2, w4)
           else andThen (platform_free p w4) (\<lambda>w5. Inr (ctx2, w5))) =
      andThen (answer rsp c w') (\<lambda>(_, ctx2, w4). andThen (platform_free p w4) (\<lambda>w5. Inr (ctx2, w5)))"
    for rsp and c :: "'a robot_server_ctx" and w' p
    using over [of rsp c w'] by (cases "answer rsp c w'") auto
  have nx: "w_next ?w0 = w_next w" by simp
  obtain w1 now where w1: "handle_message policy ctx h ?w0 =
      andThen (dispatch policy (ctx\<lparr>client := (client ctx)\<lparr>last_command := now\<rparr>\<rparr>) h (w_next w)
          (take (unat (payload_length h)) (rest @ lead q)) w1)
        (\<lambda>(over, ctx2, w4). if over then Inr (ctx2, w4)
           else andThen (platform_free (Some (w_next w)) w4) (\<lambda>w5. Inr (ctx2, w5)))"
    "lead (w_inq w1 ?s) = drop (unat (payload_length h)) (rest @ lead q)"
    "w_trace w1 = w_trace w" "w_heap w1 = w_next w # w_heap w"
    using handle_message_delivers [of ctx ?w0 h policy, unfolded nx] assms(1,4,5,8) by auto
  let ?c = "ctx\<lparr>client := (client ctx)\<lparr>last_command := now\<rparr>\<rparr>"
    and ?p = "take (unat (payload_length h)) (rest @ lead q)"
  have "serve_client policy ctx w =
      andThen (f h ?p (user_data ctx) w1) (\<lambda>(rsp, u, w2).
      andThen (answer rsp (?c\<lparr>user_data := u\<rparr>) w2) (\<lambda>(over, ctx2, w4).
        if over then Inr (ctx2, w4)
        else andThen (platform_free (Some (w_next w)) w4) (\<lambda>w5. Inr (ctx2, w5))))"
    using w1(1) assms(6,7) hdr
    by (cases "f h ?p (user_data ctx) w1") (auto simp: serve_client_def dispatch_def)
  then show ?thesis
    unfolding cont using w1(2-4) by (intro exI [of _ w1] exI [of _ now]) simp
qed

definition probe_server :: "nat robot_server_ctx" where
  "probe_server = ex_server\<lparr>client := ex_client, config := (config ex_server)
     \<lparr>callbacks := no_callbacks\<lparr>handle_command :=
       Some (\<lambda>h bs u w. if bs = [7, 8] then Inl Blocked else Inl DivByZero)\<rparr>\<rparr>\<rparr>"

definition probe_hdr :: protocol_header where
  "probe_hdr = \<lparr>magic_number = PROTOCOL_MAGIC_NUMBER, version = 7, message_type = 3,
     timestamp_ms = 9, payload_length = 2\<rparr>"

text \<open>The payload arrives in two pieces, the second with a byte of the next message.\<close>

theorem command_delivered_witness:
  "serve_client 1 probe_server (ex_net [Seg 0x52 (tl (enc_header probe_hdr) @ [7]), Seg 8 [9]]) = Inl Blocked"
proof -
  have "enc_header probe_hdr = 0x52 # tl (enc_header probe_hdr)"
    using magic_bytes by (simp add: enc_header_def probe_hdr_def)
  then have "seg (enc_header probe_hdr @ [7]) = [Seg 0x52 (tl (enc_header probe_hdr) @ [7])]"
    by (metis append_Cons seg.simps(2))
  then show ?thesis
    using command_delivered [of probe_server "ex_net [Seg 0x52 (tl (enc_header probe_hdr) @ [7]), Seg 8 [9]]"
        probe_hdr "[7]" "[Seg 8 [9]]" "\<lambda>h bs u w. if bs = [7, 8] then Inl Blocked else Inl DivByZero" 1]
    by (simp add: probe_server_def probe_hdr_def)
qed

section \<open>Registration of the UDP port\<close>

text \<open>
  With memory to spare, a reply never fails to be made.
\<close>

definition plenty :: "world \<Rightarrow> bool" where
  "plenty w \<longleftrightarrow> (\<forall>k. e_malloc (w_env w) k)"

lemma allocate_plenty:
  assumes "plenty w" and "unat len \<le> MAX_PAYLOAD_SIZE"
  shows "allocate_response_context len type w \<noteq> Inr (None, w')"
proof -
  have m: "platform_malloc l v = (Some (w_next v), (tick v)\<lparr>w_next := Suc (w_next v), w_heap := w_next v # w_heap v\<rparr>)"
    if "w_env v = w_env w" "unat l \<le> MAX_PAYLOAD_SIZE" for l v
    using that assms(1) by (intro malloc_small) (simp_all add: plenty_def)
  show ?thesis
    using assms(2)
    by (simp add: allocate_response_context_def m get_timestamp_ms_def clock_gettime_def Let_def)
qed

text \<open>Which registrations the server accepts, by compile-time policy.\<close>

definition version_ok :: "nat \<Rightarrow> byte list \<Rightarrow> bool" where
  "version_ok n payload \<longleftrightarrow> 3 \<le> n \<and> protocol_version_of payload = PROTOCOL_VERSION"

definition registration_accepted :: "nat \<Rightarrow> nat \<Rightarrow> byte list \<Rightarrow> bool" where
  "registration_accepted policy n payload \<longleftrightarrow>
     2 \<le> n \<and> 0 < udp_port_of payload \<and> (2 \<le> policy \<longrightarrow> version_ok n payload)"

definition registration_rejected :: "nat \<Rightarrow> nat \<Rightarrow> byte list \<Rightarrow> bool" where
  "registration_rejected policy n payload \<longleftrightarrow> 2 \<le> policy \<and> 2 \<le> n \<and> \<not> version_ok n payload"

lemma check_version_verdict:
  assumes "check_version policy n payload w = (e, w1)" and "2 \<le> n"
  shows "(\<exists>bytes. e = Some bytes) \<longleftrightarrow> registration_rejected policy n payload"
  using assms by (auto simp: check_version_def registration_rejected_def version_ok_def Let_def split: if_splits)

lemma reply_same_client:
  "reply mk ctx w = Inr (over, ctx', w') \<Longrightarrow> ctx' = ctx \<and> \<not> over"
  by (auto simp: reply_def andThen_eq_Inr)

lemma remove_client_zero:
  "remove_client ctx w = Inr (ctx', w') \<Longrightarrow> connected (client ctx) \<Longrightarrow> client ctx' = zero_client"
  by (auto simp: remove_client_def andThen_eq_Inr case_prod_beta Let_def)

lemma register_verdict:
  assumes "register_udp_port policy ctx n p payload w = Inr (over, ctx', w')"
    and "connected (client ctx)"
  shows "over = registration_rejected policy n payload \<and>
    client ctx' =
      (if registration_rejected policy n payload then zero_client
       else if registration_accepted policy n payload
       then (client ctx)\<lparr>registered_udp_port := udp_port_of payload, udp_port_registered := True\<rparr>
       else client ctx)"
proof (cases "2 \<le> n")
  case False
  then have "ctx' = ctx \<and> \<not> over"
    using assms(1) by (auto simp: register_udp_port_def dest: reply_same_client)
  then show ?thesis
    using False by (simp add: registration_rejected_def registration_accepted_def)
next
  case True
  obtain e w1 where v: "check_version policy n payload w = (e, w1)"
    by (cases "check_version policy n payload w")
  note verdict = check_version_verdict [OF v True]
  show ?thesis
  proof (cases e)
    case (Some bytes)
    then obtain w2 w3 where "remove_client ctx w2 = Inr (ctx', w3)" and over
      using assms(1) v True
      by (auto simp: register_udp_port_def andThen_eq_Inr dest!: reply_same_client)
    then show ?thesis using remove_client_zero assms(2) verdict Some by auto
  next
    case None
    then have nrej: "\<not> registration_rejected policy n payload" using verdict by auto
    show ?thesis
    proof (cases "0 < udp_port_of payload")
      case True
      then have "registration_accepted policy n payload"
        using nrej \<open>2 \<le> n\<close> by (simp add: registration_accepted_def registration_rejected_def)
      then show ?thesis
        using assms(1) v None True \<open>2 \<le> n\<close> nrej
        by (auto simp: register_udp_port_def andThen_eq_Inr dest!: reply_same_client)
    next
      case False
      then show ?thesis
        using assms(1) v None \<open>2 \<le> n\<close> nrej
        by (auto simp: register_udp_port_def registration_accepted_def dest!: reply_same_client)
    qed
  qed
qed

lemma respond_plenty:
  assumes "heap_ok w" and "plenty w" and "mk = MSG_OK_RESPONSE \<or>
    (\<exists>bytes. mk = MSG_ERR_RESPONSE bytes \<and> bytes \<noteq> [] \<and> length bytes \<le> MAX_PAYLOAD_SIZE)"
  shows "\<exists>r w' type body. respond fd mk w = Inr (r, w') \<and> response_done fd w type body r w'"
  using assms(3)
proof
  assume mk: "mk = MSG_OK_RESPONSE"
  show ?thesis
  proof (cases rule: allocate_spec [OF assms(1), of 0 "msg_num MSG_OK"])
    case (1 w')
    then show ?thesis using allocate_plenty [OF assms(2), of 0] by simp
  next
    case ok: (2 c w1)
    obtain r w' where "send_command_response_context fd (Some c) w1 = Inr (r, w')"
      "response_done fd w (msg_num MSG_OK) [] r w'"
      by (rule send_fresh_context [of w1 c w "[]" "msg_num MSG_OK" fd])
        (use ok in \<open>simp_all add: ctx_body_def\<close>)
    then show ?thesis using ok(1) by (auto simp: mk respond_def MSG_OK_RESPONSE_def)
  qed
next
  assume "\<exists>bytes. mk = MSG_ERR_RESPONSE bytes \<and> bytes \<noteq> [] \<and> length bytes \<le> MAX_PAYLOAD_SIZE"
  then obtain bytes where mk: "mk = MSG_ERR_RESPONSE bytes" "bytes \<noteq> []" "length bytes \<le> MAX_PAYLOAD_SIZE"
    by blast
  then have small: "length bytes < 2 ^ 32" by simp
  show ?thesis
  proof (cases rule: msg_err_response_spec [OF assms(1) mk(2) small])
    case (1 w')
    have "unat (word_of_nat (length bytes) :: u32) \<le> MAX_PAYLOAD_SIZE"
      using mk(3) by (simp add: unat_of_nat)
    note no = allocate_plenty [OF assms(2) this]
    obtain ctx1 w1 where a: "allocate_response_context (word_of_nat (length bytes)) (msg_num MSG_ERROR) w =
        Inr (ctx1, w1)"
      using 1(1) by (auto simp: MSG_ERR_RESPONSE_def andThen_eq_Inr)
    then obtain c where "ctx1 = Some c" using no by (cases ctx1) auto
    with a 1(1) have False
      by (auto simp: MSG_ERR_RESPONSE_def andThen_eq_Inr split: option.splits if_splits)
    then show ?thesis ..
  next
    case (2 c w1)
    obtain r w' where "send_command_response_context fd (Some c) w1 = Inr (r, w')"
      "response_done fd w (msg_num MSG_ERROR) bytes r w'"
      by (rule send_fresh_context [of w1 c w bytes "msg_num MSG_ERROR" fd]) (use 2 in simp_all)
    then show ?thesis using 2(1) by (auto simp: respond_def mk(1))
  qed
qed

lemma reply_plenty:
  assumes "heap_ok w" and "plenty w" and "mk = MSG_OK_RESPONSE \<or>
    (\<exists>bytes. mk = MSG_ERR_RESPONSE bytes \<and> bytes \<noteq> [] \<and> length bytes \<le> MAX_PAYLOAD_SIZE)"
  obtains w' where "reply mk ctx w = Inr (False, ctx, w')" and "w_heap w' = w_heap w" and "heap_ok w'"
    and "same_io w w'"
  using respond_plenty [OF assms, of "client_socket (client ctx)"]
  by (auto simp: reply_def response_done_def)

lemma err_int_is_err: "MSG_ERR_RESPONSE_INT v = MSG_ERR_RESPONSE (error_int_body v)"
  by (simp add: fun_eq_iff MSG_ERR_RESPONSE_INT_def enc_error_payload_def error_int_body_def)

lemma reply_err_int_plenty:
  assumes "heap_ok w" and "plenty w"
  obtains w' where "reply (MSG_ERR_RESPONSE_INT v) ctx w = Inr (False, ctx, w')"
    and "w_heap w' = w_heap w" and "heap_ok w'" and "same_io w w'"
  by (rule reply_plenty [OF assms, of "MSG_ERR_RESPONSE_INT v" ctx], unfold err_int_is_err)
    (auto simp: error_int_body_def)

lemma remove_client_returns:
  assumes "lock_held 1 ctx w" and "on_disconnection (callbacks (config ctx)) = None"
  obtains ctx' w' where "remove_client ctx w = Inr (ctx', w')" and "w_heap w' = w_heap w"
proof -
  obtain w1 where t: "lock_take (client_mutex ctx) w = Inr (0, w1)" "lock_held 0 ctx w1"
    "w_heap w1 = w_heap w"
    by (rule lock_take_inv [OF assms(1)])
  let ?close = "platform_close (client_socket (client ctx)) (pr_info ''Client disconnected'' w1)"
  obtain r w2 where c: "?close = (r, w2)" by (cases ?close)
  then have c2: "lock_held 0 ctx w2" "w_heap w2 = w_heap w1"
    using t(2) by (auto simp: platform_close_def intro: lock_held_frame split: if_splits)
  obtain w3 where g2: "lock_give (client_mutex ctx) w2 = Inr (0, w3)" "w_heap w3 = w_heap w2"
    by (rule lock_give_inv [OF c2(1)])
  obtain w4 where g1: "lock_give (client_mutex ctx) w1 = Inr (0, w4)" "w_heap w4 = w_heap w1"
    by (rule lock_give_inv [OF t(2)])
  show thesis
    by (cases "connected (client ctx)")
      (use t c c2 g1 g2 assms(2) that in \<open>auto simp: remove_client_def call_connection_def\<close>)
qed

lemma register_returns:
  assumes "lock_held 1 ctx w" and "heap_ok w" and "plenty w" and "p \<in> set (w_heap w)"
    and "on_disconnection (callbacks (config ctx)) = None"
  shows "\<exists>over ctx' w'. register_udp_port policy ctx n p payload w = Inr (over, ctx', w')"
proof -
  obtain e w1 where v: "check_version policy n payload w = (e, w1)"
    by (cases "check_version policy n payload w")
  have "\<exists>l s. w1 = w \<or> w1 = pr l s w"
    using v by (auto simp: check_version_def Let_def split: if_splits)
  then have w1: "heap_ok w1" "plenty w1" "lock_held 1 ctx w1" "w_heap w1 = w_heap w"
    using assms(1-3) by (auto simp: heap_ok_def plenty_def lock_held_def)
  have err: "\<exists>over ctx' w'. reply (MSG_ERR_RESPONSE_INT (-1)) ctx (pr l s w2) = Inr (over, ctx', w')"
    if "heap_ok w2" "plenty w2" for l s w2
    by (rule reply_err_int_plenty [of "pr l s w2" "-1" ctx]) (use that in \<open>auto simp: heap_ok_def plenty_def\<close>)
  show ?thesis
  proof (cases "2 \<le> n")
    case False
    then show ?thesis using err assms(2,3) by (simp add: register_udp_port_def)
  next
    case n: True
    show ?thesis
    proof (cases e)
      case (Some bytes)
      then have bytes: "length bytes = 132"
        using v by (auto simp: check_version_def Let_def enc_error_payload_def error_int_body_def
            split: if_splits)
      then have "bytes \<noteq> []" by auto
      obtain w2 where w2: "reply (MSG_ERR_RESPONSE bytes) ctx w1 = Inr (False, ctx, w2)"
        "w_heap w2 = w_heap w1" "same_io w1 w2"
        by (rule reply_plenty [OF w1(1,2), of "MSG_ERR_RESPONSE bytes" ctx]) (use bytes \<open>bytes \<noteq> []\<close> in auto)
      let ?w3 = "w2\<lparr>w_heap := remove1 p (w_heap w2)\<rparr>"
      have w3: "platform_free (Some p) w2 = Inr ?w3"
        using assms(4) w2 w1 by (simp add: platform_free_def)
      have locked: "lock_held 1 ctx ?w3"
        using w2(3) by (intro lock_held_frame [OF w1(3)]) (simp_all add: same_io_def)
      obtain ctx' w4 where "remove_client ctx ?w3 = Inr (ctx', w4)"
        by (rule remove_client_returns [OF locked assms(5)])
      then show ?thesis using n v Some w2(1) w3 by (auto simp: register_udp_port_def)
    next
      case None
      let ?ctx1 = "ctx\<lparr>client := (client ctx)\<lparr>registered_udp_port := udp_port_of payload,
        udp_port_registered := True\<rparr>\<rparr>"
      obtain w2 where t: "lock_take (client_mutex ctx) w1 = Inr (0, w2)" "lock_held 0 ctx w2"
        "w_heap w2 = w_heap w1" "w_next w2 = w_next w1" "w_env w2 = w_env w1"
        by (rule lock_take_inv [OF w1(3)])
      obtain w3 where g: "lock_give (client_mutex ctx) w2 = Inr (0, w3)"
        "w_heap w3 = w_heap w2" "w_next w3 = w_next w2" "w_env w3 = w_env w2"
        by (rule lock_give_inv [OF t(2)])
      have "heap_ok (pr_info ''registered UDP port'' w3)" "plenty (pr_info ''registered UDP port'' w3)"
        using w1 t g by (simp_all add: heap_ok_def plenty_def)
      then obtain w4 where "reply MSG_OK_RESPONSE ?ctx1 (pr_info ''registered UDP port'' w3) =
          Inr (False, ?ctx1, w4)"
        by (rule reply_plenty [of _ MSG_OK_RESPONSE]) auto
      then show ?thesis
        using n v None t(1) g(1) err [OF w1(1,2)] by (auto simp: register_udp_port_def)
    qed
  qed
qed

text \<open>C7. UDP registration: on every input and under each of the three policies, the client's port is
  recorded exactly when the payload has room for a port, the port is not zero, and - only when
  mismatches are rejected - the version byte is there and right; a client rejected for its
  version is disconnected, its record zeroed and the payload freed; in all other cases the
  record is unchanged. With memory to spare, and without a disconnection callback that could stop it, the
  registration always comes to its end.\<close>

theorem registration_by_policy:
  assumes "connected (client ctx)"
  shows "(\<forall>over ctx' w'. register_udp_port policy ctx n p payload w = Inr (over, ctx', w') \<longrightarrow>
      over = registration_rejected policy n payload \<and>
      client ctx' =
        (if registration_rejected policy n payload then zero_client
         else if registration_accepted policy n payload
         then (client ctx)\<lparr>registered_udp_port := udp_port_of payload, udp_port_registered := True\<rparr>
         else client ctx)) \<and>
    (lock_held 1 ctx w \<and> heap_ok w \<and> plenty w \<and> p \<in> set (w_heap w) \<and>
      on_disconnection (callbacks (config ctx)) = None \<longrightarrow>
      (\<exists>over ctx' w'. register_udp_port policy ctx n p payload w = Inr (over, ctx', w')))"
  using register_verdict [OF _ assms, of policy n p payload w] register_returns [of ctx w p policy n payload]
  by blast

theorem registration_by_policy_witness:
  "\<exists>over ctx' w'. register_udp_port 1 (ex_server\<lparr>client := ex_client\<rparr>) 3 1 [0x34, 0x12, 6] (ex_net []) =
      Inr (over, ctx', w') \<and> \<not> over \<and> registered_udp_port (client ctx') = 0x1234"
proof -
  let ?ctx = "ex_server\<lparr>client := ex_client\<rparr>"
  have inv: "lock_held 1 ?ctx (ex_net [])" "heap_ok (ex_net [])"
    using ex_server_inv(2) [of "[]"] by (simp_all add: server_inv_def user_inv_def)
  have "\<not> registration_rejected 1 3 [0x34, 0x12, 6]" "registration_accepted 1 3 [0x34, 0x12, 6]"
    "udp_port_of [0x34, 0x12, 6] = 0x1234"
    by (simp_all add: registration_rejected_def registration_accepted_def udp_port_of_def dec_u16_def slice_def)
  then show ?thesis
    using registration_by_policy [of ?ctx 1 3 1 "[0x34, 0x12, 6]" "ex_net []"] inv
    by (auto simp: plenty_def no_callbacks_def)
qed

section \<open>How a client or its bytes are lost\<close>

text \<open>A client that has closed its connection: when \<open>errno\<close> happens to hold \<open>EAGAIN\<close> from an
  earlier call, the end of the stream is taken for an empty queue, and the turn ends with nothing
  done - the client stays connected, and the next turn finds the same; with any other \<open>errno\<close>
  the client is removed.\<close>

theorem closed_connection_by_errno:
  assumes "client_socket (client ctx) \<in> set (w_fds w)"
    and "w_inq w (client_socket (client ctx)) = Eof # q"
  shows "serve_client policy ctx w =
    (if w_errno w = EAGAIN then Inr (ctx, w) else remove_client ctx w)"
  using read_header_eof [OF assms] by (simp add: serve_client_def)

theorem closed_connection_by_errno_witness:
  "serve_client 1 (ex_server\<lparr>client := ex_client\<rparr>) (ex_net [Eof]\<lparr>w_errno := EAGAIN\<rparr>) =
     Inr (ex_server\<lparr>client := ex_client\<rparr>, ex_net [Eof]\<lparr>w_errno := EAGAIN\<rparr>)"
  using closed_connection_by_errno [of "ex_server\<lparr>client := ex_client\<rparr>" "ex_net [Eof]\<lparr>w_errno := EAGAIN\<rparr>" "[]" 1]
  by simp

text \<open>C38. A header that the network delivers in two pieces is lost: the first piece is taken off the
  stream and forgotten, whatever it holds, and the server goes on as if nothing had come.\<close>

theorem split_header_lost:
  assumes "client_socket (client ctx) \<in> set (w_fds w)"
    and "w_inq w (client_socket (client ctx)) = seg part @ q"
    and "0 < length part" and "length part < HEADER_SIZE"
  shows "serve_client policy ctx w =
    Inr (ctx, w\<lparr>w_inq := (w_inq w)(client_socket (client ctx) := q)\<rparr>)"
proof -
  obtain mem' where "read_header (client_socket (client ctx)) (uninit 0 18 w) w =
      Inr (int (length part), mem', w\<lparr>w_inq := (w_inq w)(client_socket (client ctx) := q)\<rparr>)"
    using read_header_short [of "client_socket (client ctx)" w "uninit 0 18 w" part q] assms by auto
  then show ?thesis using assms(3,4) by (auto simp: serve_client_def)
qed

theorem split_header_lost_witness:
  "serve_client 1 (ex_server\<lparr>client := ex_client\<rparr>) (ex_net [Seg 0x52 [0x41, 0x49], Seg 0x56 [7]]) =
     Inr (ex_server\<lparr>client := ex_client\<rparr>, ex_net [Seg 0x52 [0x41, 0x49], Seg 0x56 [7]]
       \<lparr>w_inq := ((\<lambda>_. [])(5 := [Seg 0x52 [0x41, 0x49], Seg 0x56 [7]]))(5 := [Seg 0x56 [7]])\<rparr>)"
  using split_header_lost [of "ex_server\<lparr>client := ex_client\<rparr>"
      "ex_net [Seg 0x52 [0x41, 0x49], Seg 0x56 [7]]" "[0x52, 0x41, 0x49]" "[Seg 0x56 [7]]" 1]
  by simp

text \<open>A payload announced as longer than 104016 bytes: the client is sent an error, and its
  connection, its record and every byte on the stream are left as they are - the bytes of the
  payload will be read as headers.\<close>

theorem oversized_payload_stays:
  assumes "heap_ok w" and "plenty w" and "MAX_PAYLOAD_SIZE < unat (payload_length h)"
  shows "\<exists>w' r. handle_message policy ctx h w = Inr (ctx, w') \<and> w_inq w' = w_inq w \<and>
    response_done (client_socket (client ctx)) (pr_error ''message too large'' w)
      (msg_num MSG_ERROR) (error_int_body (-1)) r w'"
proof -
  let ?w1 = "pr_error ''message too large'' w"
  have w1: "heap_ok ?w1" "plenty ?w1" using assms(1,2) by (simp_all add: heap_ok_def plenty_def)
  have "MSG_ERR_RESPONSE_INT (-1) = MSG_OK_RESPONSE \<or> (\<exists>bytes.
      MSG_ERR_RESPONSE_INT (-1) = MSG_ERR_RESPONSE bytes \<and> bytes \<noteq> [] \<and> length bytes \<le> MAX_PAYLOAD_SIZE)"
    by (intro disjI2 exI [of _ "error_int_body (-1)"]) (simp add: err_int_is_err error_int_body_def)
  from respond_plenty [OF w1 this] obtain r w' where
    a: "respond (client_socket (client ctx)) (MSG_ERR_RESPONSE_INT (-1)) ?w1 = Inr (r, w')"
    by blast
  then have fin: "response_done (client_socket (client ctx)) ?w1 (msg_num MSG_ERROR) (error_int_body (-1)) r w'"
    using respond_err_int_spec [OF w1(1), of "client_socket (client ctx)" "-1"] by auto
  then have "w_inq w' = w_inq w" by (simp add: response_done_def same_io_def)
  with fin show ?thesis
    using a assms(3)
    by (intro exI [of _ w'] exI [of _ r]) (simp add: handle_message_def reply_def)
qed

theorem oversized_payload_stays_witness:
  "\<exists>w'. handle_message 1 (ex_server\<lparr>client := ex_client\<rparr>) (probe_hdr\<lparr>payload_length := 200000\<rparr>)
      (ex_net [Seg 1 [2]]) = Inr (ex_server\<lparr>client := ex_client\<rparr>, w') \<and>
    w_inq w' = (\<lambda>_. [])(5 := [Seg 1 [2]])"
proof -
  have "heap_ok (ex_net [Seg 1 [2]])" "plenty (ex_net [Seg 1 [2]])"
    by (simp_all add: heap_ok_def plenty_def)
  from oversized_payload_stays [OF this, of "probe_hdr\<lparr>payload_length := 200000\<rparr>" 1 "ex_server\<lparr>client := ex_client\<rparr>"]
  show ?thesis by (auto simp: probe_hdr_def)
qed

section \<open>The idle timeout\<close>

lemma remove_client_calls:
  assumes "remove_client ctx w = Inr (ctx', w')" and "connected (client ctx)"
  shows "\<exists>w1 w2. call_connection (on_disconnection (callbacks (config ctx))) (peer_ip (client ctx))
    (peer_port (client ctx)) (user_data ctx) w1 = Inr (user_data ctx', w2)"
  using assms by (auto simp: remove_client_def andThen_eq_Inr split_def Let_def) (metis prod.collapse)

text \<open>C8. The timeout thread removes the client exactly when it has been idle for longer than the
  configured time, whatever callbacks are installed that keep the laws of a handler: with the clock at
  \<open>now\<close>, a connected client whose last command was at \<open>since\<close> is disconnected when
  \<open>(now - since) * 1000\<close> exceeds the milliseconds configured - the callback is called with its address
  and port, its socket is closed and its record zeroed; otherwise, and when no client is connected,
  nothing changes. The turn always returns, with the invariant of the server kept.\<close>

theorem timeout_removes_idle_client:
  assumes "command_handler (callbacks (config ctx0)) owns ok" and "server_inv owns ok ctx0 R ctx w"
  shows "\<exists>ctx' w'. timeout_turn ctx w = Inr (ctx', w') \<and> server_inv owns ok ctx0 R ctx' w' \<and>
    (if connected (client ctx) \<and>
        uint (connection_timeout_ms (config ctx)) <
          (sint (e_time (w_env w) (w_calls w)) - sint (last_command (client ctx))) * 1000
     then client ctx' = zero_client \<and> w_trace w' = w_trace w @ [EvClose (client_socket (client ctx))] \<and>
       w_fds w' = removeAll (client_socket (client ctx)) (w_fds w) \<and>
       (\<exists>w1 w2. call_connection (on_disconnection (callbacks (config ctx))) (peer_ip (client ctx))
          (peer_port (client ctx)) (user_data ctx) w1 = Inr (user_data ctx', w2))
     else ctx' = ctx \<and> w_trace w' = w_trace w \<and> w_fds w' = w_fds w)"
proof -
  let ?idle = "connected (client ctx) \<and> idle_too_long (e_time (w_env w) (w_calls w)) (last_command (client ctx))
    (connection_timeout_ms (config ctx))"
  have "returns (timeout_turn ctx w) (\<lambda>(ctx', w'). server_inv owns ok ctx0 R ctx' w' \<and>
      (if ?idle then client ctx' = zero_client \<and> w_trace w' = w_trace w @ [EvClose (client_socket (client ctx))] \<and>
         w_fds w' = removeAll (client_socket (client ctx)) (w_fds w) \<and>
         (\<exists>w1 w2. call_connection (on_disconnection (callbacks (config ctx))) (peer_ip (client ctx))
            (peer_port (client ctx)) (user_data ctx) w1 = Inr (user_data ctx', w2))
       else ctx' = ctx \<and> w_trace w' = w_trace w \<and> w_fds w' = w_fds w))" (is "returns _ ?post")
  proof -
    let ?gone = "\<lambda>(ctx', w'). server_inv owns ok ctx0 R ctx' w' \<and> client ctx' = zero_client \<and>
      w_trace w' = w_trace w @ [EvClose (client_socket (client ctx))] \<and>
      w_fds w' = removeAll (client_socket (client ctx)) (w_fds w) \<and>
      (\<exists>w1 w2. call_connection (on_disconnection (callbacks (config ctx))) (peer_ip (client ctx))
         (peer_port (client ctx)) (user_data ctx) w1 = Inr (user_data ctx', w2))"
    have gone: "returns (remove_client ctx v) ?gone"
      if v: "server_inv owns ok ctx0 R ctx v" "w_trace v = w_trace w" "w_fds v = w_fds w" and idle: ?idle for v
    proof -
      obtain c w' where r: "remove_client ctx v = Inr (c, w')" "server_inv owns ok ctx0 R c w'"
        "client c = zero_client" "w_fds w' = removeAll (client_socket (client ctx)) (w_fds v)"
        "w_trace w' = w_trace v @ [EvClose (client_socket (client ctx))]"
        by (rule returnsE [OF command_handler.remove_client_safe [OF assms(1) v(1) refl]]) (use idle in auto)
      from remove_client_calls [OF r(1)] show ?thesis using r v idle by simp
    qed
    have i1: "server_inv owns ok ctx0 R ctx (tick w)" by (rule server_inv_frame [OF assms(2)]) simp_all
    show ?thesis
      unfolding timeout_turn_def time_now_def Let_def prod.case
      by (rule take_safe [OF i1])
        (auto intro!: give_safe [OF _ refl] intro: gone locked_inv_frame)
  qed
  then obtain ctx' w' where "timeout_turn ctx w = Inr (ctx', w')" "?post (ctx', w')"
    by (elim returnsE) auto
  then show ?thesis unfolding idle_too_long_def by (intro exI [of _ ctx'] exI [of _ w']) simp
qed

text \<open>Two seconds after its last command a client times out; the callback counts such clients.\<close>

definition counting_callbacks :: "nat robot_network_callbacks" where
  "counting_callbacks = no_callbacks\<lparr>on_disconnection := Some (\<lambda>ip port n w. Inr (Suc n, w))\<rparr>"

lemma counting_handler: "command_handler counting_callbacks (\<lambda>_. {}) (\<lambda>_. True)"
  by unfold_locales (auto simp: counting_callbacks_def no_callbacks_def handled_def user_inv_def)

theorem timeout_removes_idle_client_witness:
  "\<exists>ctx' w'. timeout_turn (ex_server\<lparr>client := ex_client, config := (config ex_server)\<lparr>callbacks := counting_callbacks\<rparr>\<rparr>)
      (ex_net []\<lparr>w_env := ok_env\<lparr>e_time := \<lambda>_. 2\<rparr>\<rparr>) = Inr (ctx', w') \<and> client ctx' = zero_client \<and>
    w_trace w' = [EvClose 5] \<and> user_data ctx' = Suc (user_data ex_server)"
proof -
  let ?w = "ex_net []\<lparr>w_env := ok_env\<lparr>e_time := \<lambda>_. 2\<rparr>\<rparr>"
    and ?ctx = "ex_server\<lparr>client := ex_client, config := (config ex_server)\<lparr>callbacks := counting_callbacks\<rparr>\<rparr>"
  have h: "command_handler (callbacks (config ?ctx)) (\<lambda>_. {}) (\<lambda>_. True)" using counting_handler by simp
  have "server_inv (\<lambda>_. {}) (\<lambda>_. True) ?ctx {0, 1} ?ctx ?w"
    using ex_server_inv(2) [of "[]"]
    by (auto simp: server_inv_def user_inv_def heap_ok_def lock_held_def client_inv_def client_rec_inv_def)
  moreover have "last_command ex_client = 0" by (simp add: ex_client_def zero_client_def)
  ultimately show ?thesis
    using timeout_removes_idle_client [OF h, of "{0, 1}" ?ctx ?w]
    by (auto simp: counting_callbacks_def call_connection_def)
qed

end
