(* ===== verification/Payloads.thy ===== *)
theory Payloads
  imports Wire
begin

text \<open>
  The rest of \<open>protocol.h\<close>: the enumerations of group types, axis types, goal states and
  operating modes, and the payloads of the commands about goals, motion, groups and
  capabilities, with their sizes and layouts. A command handler reads and writes these.
\<close>

section \<open>Enumerations\<close>

datatype group_type_t = GROUP_TYPE_ROBOT | GROUP_TYPE_BASE | GROUP_TYPE_STATION

fun group_type_num :: "group_type_t \<Rightarrow> byte" where
  "group_type_num GROUP_TYPE_ROBOT = 0"
| "group_type_num GROUP_TYPE_BASE = 1"
| "group_type_num GROUP_TYPE_STATION = 2"

datatype axis_type_protocol_t = AXIS_TYPE_ROTARY | AXIS_TYPE_LINEAR | AXIS_TYPE_INVALID

fun axis_type_num :: "axis_type_protocol_t \<Rightarrow> byte" where
  "axis_type_num AXIS_TYPE_ROTARY = 0"
| "axis_type_num AXIS_TYPE_LINEAR = 1"
| "axis_type_num AXIS_TYPE_INVALID = 2"

datatype goal_state_t =
    GOAL_STATE_PENDING | GOAL_STATE_ACTIVE | GOAL_STATE_SUCCEEDED | GOAL_STATE_CANCELLED
  | GOAL_STATE_ABORTED

fun goal_state_num :: "goal_state_t \<Rightarrow> byte" where
  "goal_state_num GOAL_STATE_PENDING = 0"
| "goal_state_num GOAL_STATE_ACTIVE = 1"
| "goal_state_num GOAL_STATE_SUCCEEDED = 2"
| "goal_state_num GOAL_STATE_CANCELLED = 3"
| "goal_state_num GOAL_STATE_ABORTED = 4"

datatype robot_mode_t = ROBOT_MODE_UNKNOWN | ROBOT_MODE_TEACH | ROBOT_MODE_PLAY | ROBOT_MODE_REMOTE

fun robot_mode_num :: "robot_mode_t \<Rightarrow> i32" where
  "robot_mode_num ROBOT_MODE_UNKNOWN = 0"
| "robot_mode_num ROBOT_MODE_TEACH = 1"
| "robot_mode_num ROBOT_MODE_PLAY = 2"
| "robot_mode_num ROBOT_MODE_REMOTE = 3"

definition GROUP_ID_ALL :: i32 where "GROUP_ID_ALL = -1"

section \<open>Payloads with one field\<close>

text \<open>
  \<open>motion_mode_payload_t\<close> and \<open>boolean_payload_t\<close> are one byte, \<open>cancel_goal_payload_t\<close> and
  \<open>group_id_t\<close> one 32-bit integer.
\<close>

definition motion_mode_of :: "byte list \<Rightarrow> byte" where
  "motion_mode_of payload = payload ! 0"

definition enc_boolean :: "byte \<Rightarrow> byte list" where
  "enc_boolean v = [v]"

definition cancel_goal_id :: "byte list \<Rightarrow> i32" where
  "cancel_goal_id payload = dec_u32 (slice 0 4 payload)"

definition group_id_of :: "byte list \<Rightarrow> i32" where
  "group_id_of payload = dec_u32 (slice 0 4 payload)"

section \<open>Coordinates\<close>

record cartesian_payload =
  cp_group_id :: i32
  cartesianCoord :: "u64 list"

definition enc_cartesian :: "cartesian_payload \<Rightarrow> byte list" where
  "enc_cartesian p = enc_u32 (cp_group_id p) @ enc_doubles (cartesianCoord p)"

definition dec_cartesian :: "byte list \<Rightarrow> cartesian_payload" where
  "dec_cartesian bs = \<lparr>cp_group_id = dec_u32 (slice 0 4 bs), cartesianCoord = dec_doubles 8 (slice 4 64 bs)\<rparr>"

record position_angle_degree_payload =
  pa_group_id :: i32
  positionAngleDegree :: "u64 list"

definition enc_position_angle :: "position_angle_degree_payload \<Rightarrow> byte list" where
  "enc_position_angle p = enc_u32 (pa_group_id p) @ enc_doubles (positionAngleDegree p)"

definition dec_position_angle :: "byte list \<Rightarrow> position_angle_degree_payload" where
  "dec_position_angle bs =
     \<lparr>pa_group_id = dec_u32 (slice 0 4 bs), positionAngleDegree = dec_doubles 8 (slice 4 64 bs)\<rparr>"

section \<open>Goals\<close>

record goal_accepted_payload =
  ga_goal_id :: i32
  ga_num_trajectory_accepted :: u32
  ga_timestamp_ms :: i64

definition enc_goal_accepted :: "goal_accepted_payload \<Rightarrow> byte list" where
  "enc_goal_accepted p = enc_u32 (ga_goal_id p) @ enc_u32 (ga_num_trajectory_accepted p) @
     enc_u64 (ga_timestamp_ms p)"

definition dec_goal_accepted :: "byte list \<Rightarrow> goal_accepted_payload" where
  "dec_goal_accepted bs = \<lparr>ga_goal_id = dec_u32 (slice 0 4 bs),
     ga_num_trajectory_accepted = dec_u32 (slice 4 4 bs), ga_timestamp_ms = dec_u64 (slice 8 8 bs)\<rparr>"

record goal_status_payload =
  gs_goal_id :: i32
  gs_current_queue_size :: u32
  gs_progress :: u64               \<comment> \<open>the bits of a \<open>double\<close>\<close>
  gs_timestamp_ms :: i64
  gs_abort_code :: i32
  gs_state :: byte
  gs_abort_message :: "byte list"

definition enc_goal_status :: "goal_status_payload \<Rightarrow> byte list" where
  "enc_goal_status p = enc_u32 (gs_goal_id p) @ enc_u32 (gs_current_queue_size p) @
     enc_u64 (gs_progress p) @ enc_u64 (gs_timestamp_ms p) @ enc_u32 (gs_abort_code p) @
     [gs_state p] @ gs_abort_message p"

definition dec_goal_status :: "byte list \<Rightarrow> goal_status_payload" where
  "dec_goal_status bs = \<lparr>gs_goal_id = dec_u32 (slice 0 4 bs),
     gs_current_queue_size = dec_u32 (slice 4 4 bs), gs_progress = dec_u64 (slice 8 8 bs),
     gs_timestamp_ms = dec_u64 (slice 16 8 bs), gs_abort_code = dec_u32 (slice 24 4 bs),
     gs_state = bs ! 28, gs_abort_message = slice 29 128 bs\<rparr>"

section \<open>Capabilities\<close>

record group_capability =
  gc_group_id :: byte
  gc_group_type :: byte
  gc_group_sub_index :: byte
  gc_num_axes :: byte
  gc_axis_types :: "byte list"
  gc_base_axis_motion :: "byte list"    \<comment> \<open>\<open>int8_t\<close>\<close>
  gc_interpolation_period_us :: i32

definition enc_group_capability :: "group_capability \<Rightarrow> byte list" where
  "enc_group_capability g = [gc_group_id g] @ [gc_group_type g] @ [gc_group_sub_index g] @
     [gc_num_axes g] @ gc_axis_types g @ gc_base_axis_motion g @ enc_u32 (gc_interpolation_period_us g)"

definition dec_group_capability :: "byte list \<Rightarrow> group_capability" where
  "dec_group_capability bs = \<lparr>gc_group_id = bs ! 0, gc_group_type = bs ! 1,
     gc_group_sub_index = bs ! 2, gc_num_axes = bs ! 3, gc_axis_types = slice 4 8 bs,
     gc_base_axis_motion = slice 12 8 bs, gc_interpolation_period_us = dec_u32 (slice 20 4 bs)\<rparr>"

record capabilities_payload =
  cap_protocol_version :: byte
  cap_num_groups :: byte
  cap_groups :: "group_capability list"
  cap_build_id :: "byte list"

definition enc_capabilities :: "capabilities_payload \<Rightarrow> byte list" where
  "enc_capabilities c = [cap_protocol_version c] @ [cap_num_groups c] @
     enc_array enc_group_capability (cap_groups c) @ cap_build_id c"

definition dec_capabilities :: "byte list \<Rightarrow> capabilities_payload" where
  "dec_capabilities bs = \<lparr>cap_protocol_version = bs ! 0, cap_num_groups = bs ! 1,
     cap_groups = dec_array 24 dec_group_capability MAX_GROUPS (slice 2 120 bs),
     cap_build_id = slice 122 256 bs\<rparr>"

abbreviation GOAL_ACCEPTED_SIZE :: nat where "GOAL_ACCEPTED_SIZE \<equiv> 16"
abbreviation GOAL_STATUS_SIZE :: nat where "GOAL_STATUS_SIZE \<equiv> 157"
abbreviation CAPABILITIES_SIZE :: nat where "CAPABILITIES_SIZE \<equiv> 378"

section \<open>Sizes and round trips\<close>

definition wf_goal_status :: "goal_status_payload \<Rightarrow> bool" where
  "wf_goal_status p \<longleftrightarrow> length (gs_abort_message p) = VIAM_ERROR_MESSAGE_MAX_LEN"

definition wf_group_capability :: "group_capability \<Rightarrow> bool" where
  "wf_group_capability g \<longleftrightarrow> length (gc_axis_types g) = MAX_AXES \<and> length (gc_base_axis_motion g) = MAX_AXES"

definition wf_capabilities :: "capabilities_payload \<Rightarrow> bool" where
  "wf_capabilities c \<longleftrightarrow> length (cap_groups c) = MAX_GROUPS \<and> length (cap_build_id c) = 256 \<and>
     (\<forall>g \<in> set (cap_groups c). wf_group_capability g)"

lemma length_enc_goal_accepted [simp]: "length (enc_goal_accepted p) = GOAL_ACCEPTED_SIZE"
  by (simp add: enc_goal_accepted_def)

lemma dec_enc_goal_accepted [simp]: "dec_goal_accepted (enc_goal_accepted p) = p"
  by (simp add: dec_goal_accepted_def enc_goal_accepted_def)

lemma length_enc_goal_status [simp]: "wf_goal_status p \<Longrightarrow> length (enc_goal_status p) = GOAL_STATUS_SIZE"
  by (simp add: enc_goal_status_def wf_goal_status_def)

lemma dec_enc_goal_status: "wf_goal_status p \<Longrightarrow> dec_goal_status (enc_goal_status p) = p"
  by (simp add: dec_goal_status_def enc_goal_status_def wf_goal_status_def nth_append)

lemma length_enc_group_capability [simp]: "wf_group_capability g \<Longrightarrow> length (enc_group_capability g) = 24"
  by (simp add: enc_group_capability_def wf_group_capability_def)

lemma dec_enc_group_capability:
  "wf_group_capability g \<Longrightarrow> dec_group_capability (enc_group_capability g) = g"
  by (simp add: dec_group_capability_def enc_group_capability_def wf_group_capability_def nth_append)

lemma length_enc_capabilities [simp]: "wf_capabilities c \<Longrightarrow> length (enc_capabilities c) = CAPABILITIES_SIZE"
  by (simp add: enc_capabilities_def wf_capabilities_def length_enc_array [where sz = 24])

lemma dec_enc_capabilities:
  assumes "wf_capabilities c"
  shows "dec_capabilities (enc_capabilities c) = c"
proof -
  have len: "length (enc_array enc_group_capability (cap_groups c)) = 120"
    using assms by (simp add: wf_capabilities_def length_enc_array [where sz = 24])
  have "dec_array 24 dec_group_capability 5 (enc_array enc_group_capability (cap_groups c)) = cap_groups c"
    using dec_enc_array [of "cap_groups c" enc_group_capability 24 dec_group_capability 5 "[]"] assms
    by (simp add: wf_capabilities_def dec_enc_group_capability)
  then show ?thesis
    using assms len by (simp add: dec_capabilities_def enc_capabilities_def wf_capabilities_def nth_append)
qed

text \<open>The payloads of goals and capabilities have the sizes their comments state - 16, 157 and
  378 bytes - and decoding what was encoded gives the payload back.\<close>

theorem payload_round_trip:
  "length (enc_goal_accepted a) = 16 \<and> dec_goal_accepted (enc_goal_accepted a) = a \<and>
   (wf_goal_status s \<longrightarrow> length (enc_goal_status s) = 157 \<and> dec_goal_status (enc_goal_status s) = s) \<and>
   (wf_capabilities c \<longrightarrow> length (enc_capabilities c) = 378 \<and> dec_capabilities (enc_capabilities c) = c)"
  by (simp add: dec_enc_goal_status dec_enc_capabilities)

definition ex_capabilities :: capabilities_payload where
  "ex_capabilities = \<lparr>cap_protocol_version = 7, cap_num_groups = 1,
     cap_groups = replicate 5 \<lparr>gc_group_id = 0, gc_group_type = 1, gc_group_sub_index = 0, gc_num_axes = 6,
       gc_axis_types = replicate 8 1, gc_base_axis_motion = replicate 8 255,
       gc_interpolation_period_us = 4000\<rparr>,
     cap_build_id = replicate 256 0\<rparr>"

definition ex_goal_status :: goal_status_payload where
  "ex_goal_status = \<lparr>gs_goal_id = 9, gs_current_queue_size = 1, gs_progress = 0, gs_timestamp_ms = 5,
     gs_abort_code = -1, gs_state = goal_state_num GOAL_STATE_ABORTED, gs_abort_message = replicate 128 65\<rparr>"

theorem payload_round_trip_witness:
  "dec_capabilities (enc_capabilities ex_capabilities) = ex_capabilities \<and>
   dec_goal_status (enc_goal_status ex_goal_status) = ex_goal_status"
  using payload_round_trip [of _ ex_goal_status ex_capabilities]
  by (simp add: ex_capabilities_def wf_capabilities_def wf_group_capability_def ex_goal_status_def
      wf_goal_status_def)

text \<open>C18. The wire format. The header is 18 bytes, of which the first four are \<open>RAIV\<close> exactly when the
  magic number is right; decoding inverts encoding, and every 18 bytes are the encoding of the
  header they decode to, so no two byte strings carry the same header. The payloads have the sizes
  their comments state - 267 and 89 bytes for the two statuses, 16, 157 and 378 for goals and
  capabilities - and decoding what was encoded gives the payload back, field by field.\<close>

theorem wire_round_trip:
  assumes "length bs = HEADER_SIZE" and "wf_status s" and "wf_robot_status r" and "wf_goal_status g" and "wf_capabilities c"
  shows "dec_header (enc_header h) = h \<and> enc_header (dec_header bs) = bs \<and>
    (take 4 (enc_header h) = [0x52, 0x41, 0x49, 0x56] \<longleftrightarrow> magic_number h = PROTOCOL_MAGIC_NUMBER) \<and>
    dec_status (enc_status s) = s \<and> length (enc_status s) = 267 \<and>
    dec_robot_status (enc_robot_status r) = r \<and> length (enc_robot_status r) = 89 \<and>
    dec_goal_accepted (enc_goal_accepted a) = a \<and> length (enc_goal_accepted a) = 16 \<and>
    dec_goal_status (enc_goal_status g) = g \<and> length (enc_goal_status g) = 157 \<and>
    dec_capabilities (enc_capabilities c) = c \<and> length (enc_capabilities c) = 378"
  using packed_round_trip [OF assms(1-3), of h] payload_round_trip [of a g c] assms(4,5) by blast

theorem wire_round_trip_witness:
  "enc_header (dec_header (replicate 18 7)) = replicate 18 7 \<and> dec_status (enc_status ex_status) = ex_status \<and>
   dec_goal_status (enc_goal_status ex_goal_status) = ex_goal_status \<and>
   dec_capabilities (enc_capabilities ex_capabilities) = ex_capabilities"
proof -
  have "wf_goal_status ex_goal_status" "wf_capabilities ex_capabilities"
    by (simp_all add: ex_goal_status_def wf_goal_status_def ex_capabilities_def wf_capabilities_def wf_group_capability_def)
  from wire_round_trip [OF _ ex_status_wf this, of "replicate 18 7"] show ?thesis by simp
qed

end
