(* ===== verification/MockRobot.thy ===== *)
theory MockRobot
  imports ServerInv Payloads Logging
begin

unbundle bit_operations_syntax

text \<open>
  \<open>tests/protocol/mock_robot.c\<close>: the robot behind the server in the repository's own example
  program and tests, and so the provider of the four callbacks. Its state is the user data of
  the server. A \<open>double\<close> is its 64 bits; the only computed ones are constants and the progress
  of a goal, whose quotient is an argument, and the faded
  velocities and torques, whose factor is one too.
\<close>

section \<open>State\<close>

record mock_group =
  mg_positions :: "u64 list"
  mg_velocities :: "u64 list"
  mg_torques :: "u64 list"
  mg_corrected_positions :: "u64 list"
  mg_trajectory_active :: bool
  mg_in_motion :: bool
  mg_stored :: "(nat \<times> byte list) option"      \<comment> \<open>\<open>stored_trajectory_buffer\<close>\<close>
  mg_stored_size :: u32
  mg_goal_id :: i32
  mg_goal_state :: goal_state_t
  mg_goal_progress :: u64
  mg_goal_start_time :: i64
  mg_group_type :: byte
  mg_num_axes :: byte
  mg_axis_types :: "byte list"
  mg_base_axis_motion :: "byte list"

record mock_robot =
  mr_num_groups :: byte
  mr_groups :: "mock_group list"
  mr_servo_power_on :: bool
  mr_last_heartbeat :: i64
  mr_sequence_counter :: u32
  mr_connection_count :: u32
  mr_disconnection_count :: u32
  mr_command_count :: u32
  mr_has_error_info :: bool
  mr_last_error_message :: "byte list"           \<comment> \<open>\<open>char [256]\<close>, up to its terminator\<close>
  mr_mode :: i32
  mr_motion_mode :: byte
  mr_e_stopped :: bool
  mr_drives_powered :: bool
  mr_motion_possible :: bool
  mr_in_error :: bool
  mr_error_codes :: "i32 list"
  mr_error_count :: i32

definition zero_group :: mock_group where
  "zero_group = \<lparr>mg_positions = replicate 8 0, mg_velocities = replicate 8 0, mg_torques = replicate 8 0,
     mg_corrected_positions = replicate 8 0, mg_trajectory_active = False, mg_in_motion = False,
     mg_stored = None, mg_stored_size = 0, mg_goal_id = 0, mg_goal_state = GOAL_STATE_PENDING,
     mg_goal_progress = 0, mg_goal_start_time = 0, mg_group_type = 0, mg_num_axes = 0,
     mg_axis_types = replicate 8 0, mg_base_axis_motion = replicate 8 0\<rparr>"

text \<open>The loop over the axes of a base group runs to \<open>num_axes\<close>, whatever that is.\<close>

definition init_group :: "byte \<Rightarrow> byte \<Rightarrow> mock_group res" where
  "init_group gtype axes =
     (let n = unat axes;
          g = zero_group\<lparr>mg_group_type := gtype, mg_num_axes := axes,
                mg_axis_types := map (\<lambda>i. axis_type_num (if i < n then AXIS_TYPE_ROTARY else AXIS_TYPE_INVALID))
                  [0..<MAX_AXES],
                mg_base_axis_motion := replicate MAX_AXES (-1)\<rparr> in
      if gtype \<noteq> group_type_num GROUP_TYPE_BASE then Inr g
      else if MAX_AXES < n then Inl OutOfBounds
      else Inr (g\<lparr>mg_axis_types := replicate n (axis_type_num AXIS_TYPE_LINEAR) @ drop n (mg_axis_types g),
                  mg_base_axis_motion := map word_of_nat [0..<n] @ drop n (mg_base_axis_motion g)\<rparr>))"

fun init_groups :: "(byte \<times> byte) list \<Rightarrow> mock_group list res" where
  "init_groups [] = Inr []"
| "init_groups ((t, a) # gs) =
     andThen (init_group t a) (\<lambda>g. andThen (init_groups gs) (\<lambda>rest. Inr (g # rest)))"

definition initial_robot :: "mock_group list \<Rightarrow> mock_robot" where
  "initial_robot gs = \<lparr>mr_num_groups = word_of_nat (length gs),
     mr_groups = gs @ replicate (MAX_GROUPS - length gs) zero_group,
     mr_servo_power_on = False, mr_last_heartbeat = 0, mr_sequence_counter = 1, mr_connection_count = 0,
     mr_disconnection_count = 0, mr_command_count = 0, mr_has_error_info = False,
     mr_last_error_message = [], mr_mode = robot_mode_num ROBOT_MODE_TEACH, mr_motion_mode = 0,
     mr_e_stopped = False, mr_drives_powered = False, mr_motion_possible = False, mr_in_error = False,
     mr_error_codes = replicate (MAX_ALARM_COUNT + 1) 0, mr_error_count = 0\<rparr>"

definition mock_robot_init_multi :: "(byte \<times> byte) list \<Rightarrow> mock_robot res" where
  "mock_robot_init_multi groups =
     andThen (init_groups (take MAX_GROUPS groups)) (\<lambda>gs. Inr (initial_robot gs))"

definition mock_robot_init :: "mock_robot res" where
  "mock_robot_init = mock_robot_init_multi [(group_type_num GROUP_TYPE_ROBOT, 6)]"

section \<open>Simple commands\<close>

definition set_error_info :: "byte list \<Rightarrow> mock_robot \<Rightarrow> mock_robot" where
  "set_error_info msg r = r\<lparr>mr_has_error_info := True, mr_last_error_message := take 255 msg\<rparr>"

definition mock_robot_power_on :: "mock_robot \<Rightarrow> world \<Rightarrow> int \<times> mock_robot \<times> world" where
  "mock_robot_power_on r w =
     (let (t, w1) = get_timestamp_ms w in
      (0, r\<lparr>mr_servo_power_on := True, mr_drives_powered := True, mr_motion_possible := True,
            mr_last_heartbeat := t\<rparr>, pr_info ''[MOCK] Servo power ON'' w1))"

text \<open>
  The bits of \<open>i * 1.0\<close>, \<open>i * 0.1\<close>, \<open>i * 0.01\<close> and \<open>i * 1.0 + 0.01\<close> in IEEE arithmetic, for the
  axes \<open>0\<close> to \<open>7\<close>.
\<close>

definition start_positions :: "u64 list" where
  "start_positions = [0x0000000000000000, 0x3FF0000000000000, 0x4000000000000000, 0x4008000000000000,
     0x4010000000000000, 0x4014000000000000, 0x4018000000000000, 0x401C000000000000]"

definition start_velocities :: "u64 list" where
  "start_velocities = [0x0000000000000000, 0x3FB999999999999A, 0x3FC999999999999A, 0x3FD3333333333334,
     0x3FD999999999999A, 0x3FE0000000000000, 0x3FE3333333333334, 0x3FE6666666666667]"

definition start_torques :: "u64 list" where
  "start_torques = [0x0000000000000000, 0x3F847AE147AE147B, 0x3F947AE147AE147B, 0x3F9EB851EB851EB8,
     0x3FA47AE147AE147B, 0x3FA999999999999A, 0x3FAEB851EB851EB8, 0x3FB1EB851EB851EC]"

definition start_corrected :: "u64 list" where
  "start_corrected = [0x3F847AE147AE147B, 0x3FF028F5C28F5C29, 0x4000147AE147AE14, 0x4008147AE147AE14,
     0x40100A3D70A3D70A, 0x40140A3D70A3D70A, 0x40180A3D70A3D70A, 0x401C0A3D70A3D70A]"

definition overwrite :: "nat \<Rightarrow> 'a list \<Rightarrow> 'a list \<Rightarrow> 'a list" where
  "overwrite n new old = take n new @ drop n old"

definition power_message :: "byte list" where
  "power_message = bytes_of_string
     (''Cannot start trajectory: servo power must be enabled first. Use TURN_SERVO_POWER_ON '' @
      ''command to enable servo power.'')"

definition mock_robot_start_trajectory :: "mock_robot \<Rightarrow> world \<Rightarrow> (int \<times> mock_robot \<times> world) res" where
  "mock_robot_start_trajectory r w =
     (if mr_servo_power_on r then
        let g = mr_groups r ! 0; n = unat (mg_num_axes g) in
        if mr_groups r = [] \<or> MAX_AXES < n then Inl OutOfBounds
        else Inr (0, r\<lparr>mr_groups := (mr_groups r)
               [0 := g\<lparr>mg_trajectory_active := True, mg_in_motion := True,
                       mg_positions := overwrite n start_positions (mg_positions g),
                       mg_velocities := overwrite n start_velocities (mg_velocities g),
                       mg_torques := overwrite n start_torques (mg_torques g),
                       mg_corrected_positions := overwrite n start_corrected (mg_corrected_positions g)\<rparr>]\<rparr>,
             pr_info ''[MOCK] Trajectory started'' w)
      else
        Inr (-1, (set_error_info power_message r)\<lparr>mr_in_error := True,
               mr_error_codes := (mr_error_codes r)[0 := 100], mr_error_count := 1\<rparr>,
             pr_info ''[MOCK] Cannot start trajectory - servo power is OFF'' w))"

definition mock_robot_heartbeat :: "i64 \<Rightarrow> mock_robot \<Rightarrow> int \<times> mock_robot" where
  "mock_robot_heartbeat timestamp r = (0, r\<lparr>mr_last_heartbeat := timestamp\<rparr>)"

definition test_error_message :: "byte list" where
  "test_error_message = bytes_of_string
     (''Test error command executed. This command is designed to always fail for testing purposes. '' @
      ''Error details: simulated fault condition in axis controller #3.'')"

definition mock_robot_test_error_command :: "mock_robot \<Rightarrow> int \<times> mock_robot" where
  "mock_robot_test_error_command r =
     (-42, (set_error_info test_error_message r)\<lparr>mr_in_error := True,
        mr_error_codes := (mr_error_codes r)[0 := 42], mr_error_count := 1\<rparr>)"

definition mock_robot_reset_errors :: "mock_robot \<Rightarrow> int \<times> mock_robot" where
  "mock_robot_reset_errors r =
     (0, r\<lparr>mr_in_error := False, mr_error_count := 0, mr_has_error_info := False,
           mr_last_error_message := [], mr_error_codes := replicate (MAX_ALARM_COUNT + 1) 0\<rparr>)"

text \<open>The string in the caller's buffer, which starts out empty and has room for \<open>n\<close> bytes.\<close>

definition mock_robot_get_error_info :: "nat \<Rightarrow> mock_robot \<Rightarrow> byte list \<times> mock_robot" where
  "mock_robot_get_error_info n r =
     (if mr_has_error_info r
      then (take (n - 1) (mr_last_error_message r), r\<lparr>mr_has_error_info := False, mr_last_error_message := []\<rparr>)
      else ([], r))"

definition mock_robot_set_motion_mode :: "byte \<Rightarrow> mock_robot \<Rightarrow> int \<times> mock_robot" where
  "mock_robot_set_motion_mode m r = (0, r\<lparr>mr_motion_mode := m\<rparr>)"

text \<open>The groups in use.\<close>

definition used_groups :: "mock_robot \<Rightarrow> mock_group list" where
  "used_groups r = take (unat (mr_num_groups r)) (mr_groups r)"

definition mock_robot_is_in_motion :: "mock_robot \<Rightarrow> byte" where
  "mock_robot_is_in_motion r = (if \<exists>g \<in> set (used_groups r). mg_in_motion g then 1 else 0)"

section \<open>Stopping\<close>

definition has_active_goal :: "mock_group \<Rightarrow> bool" where
  "has_active_goal g \<longleftrightarrow> mg_goal_id g \<noteq> 0 \<and>
     (mg_goal_state g = GOAL_STATE_ACTIVE \<or> mg_goal_state g = GOAL_STATE_PENDING)"

definition abort_group :: "mock_group \<Rightarrow> mock_group" where
  "abort_group g = g\<lparr>mg_in_motion := False, mg_trajectory_active := False,
     mg_goal_state := (if has_active_goal g then GOAL_STATE_ABORTED else mg_goal_state g)\<rparr>"

definition mock_robot_stop_motion :: "mock_robot \<Rightarrow> world \<Rightarrow> byte \<times> mock_robot \<times> world" where
  "mock_robot_stop_motion r w =
     (let n = unat (mr_num_groups r);
          moving = (\<lambda>g. mg_in_motion g \<or> has_active_goal g);
          stopped = (if \<exists>g \<in> set (used_groups r). moving g then 1 else 0) in
      (stopped,
       r\<lparr>mr_groups := map (\<lambda>g. if moving g then abort_group g else g) (used_groups r) @ drop n (mr_groups r)\<rparr>,
       pr_info (if stopped = 1 then ''[MOCK] All motion stopped'' else ''[MOCK] No motion to stop'') w))"

definition mock_robot_stop_group :: "i32 \<Rightarrow> mock_robot \<Rightarrow> world \<Rightarrow> byte \<times> mock_robot \<times> world" where
  "mock_robot_stop_group idx r w =
     (let i = sint idx; k = nat i in
      if i < 0 \<or> int (unat (mr_num_groups r)) \<le> i
      then (0, r, pr_error ''[MOCK] Invalid group_index for stop'' w)
      else (1, r\<lparr>mr_groups := (mr_groups r)[k := abort_group (mr_groups r ! k)]\<rparr>,
            pr_info ''[MOCK] Stopped motion for group'' w))"

section \<open>Goals\<close>

definition find_group_with_goal :: "mock_robot \<Rightarrow> i32 \<Rightarrow> nat option" where
  "find_group_with_goal r goal_id =
     find (\<lambda>i. mg_goal_id (mr_groups r ! i) = goal_id) [0..<unat (mr_num_groups r)]"

text \<open>
  Replacing the stored trajectory: free the old block, allocate and copy the new one. The goal
  is in the memory \<open>trajectory\<close>; the flag tells whether it is stored.
\<close>

definition store_trajectory ::
  "byte list \<Rightarrow> mock_group \<Rightarrow> world \<Rightarrow> (bool \<times> mock_group \<times> world) res" where
  "store_trajectory trajectory g w =
     andThen (read_u32 trajectory 8) (\<lambda>trajectory_size.
     andThen (read_u32 trajectory (MOVE_GOAL_TOLERANCE_SIZE_OFFSET trajectory_size)) (\<lambda>tolerance_size.
       let required_size = (ucast (MOVE_GOAL_CALC_SIZE trajectory_size tolerance_size) :: u32);
           empty = g\<lparr>mg_stored := None, mg_stored_size := 0\<rparr> in
       andThen (platform_free (map_option fst (mg_stored g)) w) (\<lambda>w1.
         let g1 = (if mg_stored g = None then g else empty) in
         case malloc w1 of
           (None, w2) \<Rightarrow> Inr (False, g1, pr_error ''[MOCK] Failed to allocate trajectory storage'' w2)
         | (Some a, w2) \<Rightarrow>
             andThen (move_goal_deep_copy (Some trajectory) (Some (uninit a (unat required_size) w2))
                        required_size w2) (\<lambda>(copied, dest, w3).
               if copied
               then Inr (True, g1\<lparr>mg_stored := map_option (Pair a) dest, mg_stored_size := required_size\<rparr>, w3)
               else andThen (platform_free (Some a) (pr_error ''[MOCK] Failed to deep copy trajectory'' w3))
                      (\<lambda>w4. Inr (False, empty, w4))))))"

text \<open>\<open>do goal_id = rand(); while (goal_id == 0)\<close>: it ends when a number other than \<open>0\<close> is drawn.\<close>

partial_function (option) draw_goal_id :: "world \<Rightarrow> (i32 \<times> world) option" where
  "draw_goal_id w =
     (let (n, w1) = rand w in
      if (word_of_nat n :: i32) = 0 then draw_goal_id w1 else Some (word_of_nat n, w1))"

text \<open>The result is the goal's number, or \<open>-1\<close>.\<close>

definition mock_robot_accept_goal ::
  "byte list \<Rightarrow> mock_robot \<Rightarrow> world \<Rightarrow> (i32 \<times> mock_robot \<times> world) res" where
  "mock_robot_accept_goal trajectory r w =
     (if \<not> mr_servo_power_on r
      then Inr (-1, r, pr_info ''[MOCK] Cannot accept goal - servo power is OFF'' w)
      else andThen (read_u32 trajectory 4) (\<lambda>grp_idx.
        if unat (mr_num_groups r) \<le> unat grp_idx then Inr (-1, r, pr_error ''[MOCK] Invalid group_index'' w)
        else
          let k = unat grp_idx; g = mr_groups r ! k in
          if has_active_goal g then Inr (-1, r, pr_info ''[MOCK] Cannot accept goal - active goal'' w)
          else andThen (store_trajectory trajectory g w) (\<lambda>(stored, g1, w1).
            if \<not> stored then Inr (-1, r\<lparr>mr_groups := (mr_groups r)[k := g1]\<rparr>, w1)
            else
              (case draw_goal_id w1 of
                 None \<Rightarrow> Inl Blocked
               | Some (goal_id, w2) \<Rightarrow>
                   let (now, w3) = get_timestamp_ms w2;
                       g2 = g1\<lparr>mg_goal_id := goal_id, mg_goal_state := GOAL_STATE_ACTIVE,
                              mg_goal_progress := 0, mg_goal_start_time := now,
                              mg_trajectory_active := True, mg_in_motion := True\<rparr> in
                   Inr (goal_id, r\<lparr>mr_groups := (mr_groups r)[k := g2]\<rparr>,
                        pr_info ''[MOCK] Goal accepted'' w3)))))"

definition mock_robot_move_goal ::
  "byte list \<Rightarrow> mock_robot \<Rightarrow> world \<Rightarrow> (int \<times> mock_robot \<times> world) res" where
  "mock_robot_move_goal trajectory r w =
     andThen (read_u32 trajectory 4) (\<lambda>grp_idx.
       if unat (mr_num_groups r) \<le> unat grp_idx then Inr (-1, r, pr_error ''[MOCK] Invalid group_index'' w)
       else
         let k = unat grp_idx in
         andThen (store_trajectory trajectory (mr_groups r ! k) w) (\<lambda>(stored, g1, w1).
           if \<not> stored then Inr (-1, r\<lparr>mr_groups := (mr_groups r)[k := g1]\<rparr>, w1)
           else Inr (0, r\<lparr>mr_groups := (mr_groups r)
                  [k := g1\<lparr>mg_trajectory_active := True, mg_in_motion := True\<rparr>]\<rparr>,
                pr_info ''[MOCK] Move goal stored'' w1)))"

definition mock_robot_echo_trajectory :: "byte \<Rightarrow> mock_robot \<Rightarrow> byte list option" where
  "mock_robot_echo_trajectory idx r =
     (if unat (mr_num_groups r) \<le> unat idx then None
      else map_option snd (mg_stored (mr_groups r ! unat idx)))"

definition mock_robot_cancel_goal :: "i32 \<Rightarrow> mock_robot \<Rightarrow> world \<Rightarrow> int \<times> mock_robot \<times> world" where
  "mock_robot_cancel_goal goal_id r w =
     (case find_group_with_goal r goal_id of
        None \<Rightarrow> (-1, r, pr_info ''[MOCK] Cannot cancel goal - goal ID not found'' w)
      | Some k \<Rightarrow>
          let g = mr_groups r ! k in
          if mg_goal_state g \<noteq> GOAL_STATE_PENDING \<and> mg_goal_state g \<noteq> GOAL_STATE_ACTIVE
          then (-1, r, pr_info ''[MOCK] Cannot cancel goal - already in terminal state'' w)
          else (0, r\<lparr>mr_groups := (mr_groups r)[k := g\<lparr>mg_goal_state := GOAL_STATE_CANCELLED,
                   mg_in_motion := False, mg_trajectory_active := False\<rparr>]\<rparr>,
                pr_info ''[MOCK] Goal cancelled'' w))"

text \<open>The four fields it writes, in the payload as it was allocated.\<close>

definition mock_robot_get_goal_status ::
  "i32 \<Rightarrow> mock_robot \<Rightarrow> byte list \<Rightarrow> world \<Rightarrow> int \<times> byte list \<times> world" where
  "mock_robot_get_goal_status goal_id r status w =
     (case find_group_with_goal r goal_id of
        None \<Rightarrow> (-1, status, pr_info ''[MOCK] Goal ID not found'' w)
      | Some k \<Rightarrow>
          let g = mr_groups r ! k; (now, w1) = get_timestamp_ms w in
          (0, enc_goal_status ((dec_goal_status status)\<lparr>gs_goal_id := mg_goal_id g,
                gs_state := goal_state_num (mg_goal_state g), gs_progress := mg_goal_progress g,
                gs_timestamp_ms := now\<rparr>), w1))"

text \<open>
  The simulation's clock, which the main loop of the example program advances. \<open>progress\<close> is the
  quotient \<open>(double) elapsed / 1000.0\<close>, which reaches \<open>1.0\<close> exactly when \<open>elapsed\<close> reaches \<open>1000\<close>.
\<close>

definition goal_progress :: "(i64 \<Rightarrow> u64) \<Rightarrow> i64 \<Rightarrow> mock_group \<Rightarrow> mock_group" where
  "goal_progress progress now g =
     (if mg_goal_id g = 0 \<or> mg_goal_state g \<noteq> GOAL_STATE_ACTIVE then g
      else let elapsed = now - mg_goal_start_time g in
        if 1000 \<le> sint elapsed
        then g\<lparr>mg_goal_progress := 0x3FF0000000000000, mg_goal_state := GOAL_STATE_SUCCEEDED,
               mg_in_motion := False, mg_trajectory_active := False\<rparr>
        else g\<lparr>mg_goal_progress := progress elapsed\<rparr>)"

fun update_groups :: "(i64 \<Rightarrow> u64) \<Rightarrow> mock_group list \<Rightarrow> world \<Rightarrow> mock_group list \<times> world" where
  "update_groups progress [] w = ([], w)"
| "update_groups progress (g # gs) w =
     (if mg_goal_id g = 0 \<or> mg_goal_state g \<noteq> GOAL_STATE_ACTIVE
      then let (gs1, w1) = update_groups progress gs w in (g # gs1, w1)
      else let (now, w1) = get_timestamp_ms w; (gs1, w2) = update_groups progress gs w1 in
        (goal_progress progress now g # gs1, w2))"

definition mock_robot_update_goal_progress :: "(i64 \<Rightarrow> u64) \<Rightarrow> mock_robot \<Rightarrow> world \<Rightarrow> mock_robot \<times> world" where
  "mock_robot_update_goal_progress progress r w =
     (let (gs, w1) = update_groups progress (used_groups r) w in
      (r\<lparr>mr_groups := gs @ drop (unat (mr_num_groups r)) (mr_groups r)\<rparr>, w1))"

text \<open>
  The whole simulation step. While the servo power is off, the velocities and torques of the
  active axes fade: \<open>fade\<close> is the product of a \<open>double\<close> with the constant \<open>0.95\<close>.
\<close>

definition fade_group :: "(u64 \<Rightarrow> u64) \<Rightarrow> mock_group \<Rightarrow> mock_group" where
  "fade_group fade g =
     (let n = unat (mg_num_axes g) in
      g\<lparr>mg_velocities := overwrite n (map fade (mg_velocities g)) (mg_velocities g),
        mg_torques := overwrite n (map fade (mg_torques g)) (mg_torques g)\<rparr>)"

definition mock_robot_update ::
  "(u64 \<Rightarrow> u64) \<Rightarrow> (i64 \<Rightarrow> u64) \<Rightarrow> mock_robot \<Rightarrow> world \<Rightarrow> (mock_robot \<times> world) res" where
  "mock_robot_update fade progress r w =
     (if mr_servo_power_on r then Inr (mock_robot_update_goal_progress progress r w)
      else if \<exists>g \<in> set (used_groups r). MAX_AXES < unat (mg_num_axes g) then Inl OutOfBounds
      else Inr (mock_robot_update_goal_progress progress
             (r\<lparr>mr_groups := map (fade_group fade) (used_groups r) @
                drop (unat (mr_num_groups r)) (mr_groups r)\<rparr>) w))"

section \<open>Status\<close>

text \<open>\<open>old\<close> is the caller's structure, of which only the active axes are written.\<close>

definition mock_robot_get_status :: "mock_robot \<Rightarrow> status_payload \<Rightarrow> i64 \<Rightarrow> byte \<Rightarrow> status_payload res" where
  "mock_robot_get_status r old now idx =
     (if unat (mr_num_groups r) \<le> unat idx
      then Inr \<lparr>group_index = 0, group_type = 0, sp_timestamp = 0, num_axes = 0, position = replicate 8 0,
             velocity = replicate 8 0, torque = replicate 8 0, position_corrected = replicate 8 0\<rparr>
      else let g = mr_groups r ! unat idx; n = unat (mg_num_axes g) in
        if MAX_AXES < n then Inl OutOfBounds
        else Inr \<lparr>group_index = idx, group_type = mg_group_type g, sp_timestamp = now,
               num_axes = mg_num_axes g, position = overwrite n (mg_positions g) (position old),
               velocity = overwrite n (mg_velocities g) (velocity old),
               torque = overwrite n (mg_torques g) (torque old),
               position_corrected = overwrite n (mg_corrected_positions g) (position_corrected old)\<rparr>)"

definition motion_bits :: "mock_group list \<Rightarrow> byte" where
  "motion_bits gs = fold (\<lambda>(i, g) b. if mg_in_motion g then b OR push_bit i 1 else b) (enumerate 0 gs) 0"

definition flag :: "bool \<Rightarrow> byte" where
  "flag b = (if b then 1 else 0)"

definition mock_robot_get_robot_status :: "mock_robot \<Rightarrow> i64 \<Rightarrow> robot_status_payload res" where
  "mock_robot_get_robot_status r now =
     (let n = min (MAX_ALARM_COUNT + 1) (nat (sint (mr_error_count r))) in
      if sint (mr_error_count r) < 0 then Inl OutOfBounds
      else Inr \<lparr>rs_ts = now, rs_mode = mr_mode r, rs_e_stopped = flag (mr_e_stopped r),
             rs_drives_powered = flag (mr_drives_powered r), rs_motion_possible = flag (mr_motion_possible r),
             rs_in_motion = motion_bits (used_groups r), rs_in_error = flag (mr_in_error r),
             rs_error_codes = overwrite n (mr_error_codes r) (replicate (MAX_ALARM_COUNT + 1) 0),
             rs_size = mr_error_count r\<rparr>)"

section \<open>The callbacks\<close>

text \<open>A response of a type with one byte or more, whose payload is filled in after allocation.\<close>

definition store_payload :: "byte list \<Rightarrow> command_response_context \<Rightarrow> command_response_context res" where
  "store_payload bytes c =
     (case crc_payload c of
        None \<Rightarrow> if bytes = [] then Inr c else Inl NullDeref
      | Some (p, bs) \<Rightarrow> andThen (memcpy_to bs 0 bytes) (\<lambda>bs1. Inr (c\<lparr>crc_payload := Some (p, bs1)\<rparr>)))"

type_synonym mock_reply = "(command_response_context option \<times> mock_robot \<times> world) res"

definition err_reply :: "int \<Rightarrow> mock_robot \<Rightarrow> world \<Rightarrow> mock_reply" where
  "err_reply err r w =
     andThen (MSG_ERR_RESPONSE (enc_u32 (word_of_int err)) w) (\<lambda>(c, w1). Inr (c, r, w1))"

definition status_reply :: "int \<Rightarrow> mock_robot \<Rightarrow> world \<Rightarrow> mock_reply" where
  "status_reply err r w =
     (if err \<noteq> 0 then err_reply err r w else andThen (MSG_OK_RESPONSE w) (\<lambda>(c, w1). Inr (c, r, w1)))"

definition boolean_reply :: "message_type \<Rightarrow> byte \<Rightarrow> mock_robot \<Rightarrow> world \<Rightarrow> mock_reply" where
  "boolean_reply type v r w =
     andThen (allocate_response_context 1 (msg_num type) w) (\<lambda>(ctx, w1).
       case ctx of
         None \<Rightarrow> err_reply (-1) r w1
       | Some c \<Rightarrow> andThen (store_payload (enc_boolean v) c) (\<lambda>c1. Inr (Some c1, r, w1)))"

definition move_goal_command :: "protocol_header \<Rightarrow> byte list \<Rightarrow> mock_robot \<Rightarrow> world \<Rightarrow> mock_reply" where
  "move_goal_command h payload r w =
     andThen (move_goal_from_payload (Some payload) (payload_length h) w) (\<lambda>(goal, w1).
       case goal of
         None \<Rightarrow> err_reply (-1) r (pr_info ''[SERVER] Failed to validate move goal payload'' w1)
       | Some move_goal \<Rightarrow>
           andThen (mock_robot_accept_goal move_goal r w1) (\<lambda>(goal_id, r1, w2).
             if sint goal_id < 0 then err_reply (sint goal_id) r1 w2
             else andThen (allocate_response_context 16 (msg_num MSG_GOAL_ACCEPTED) w2) (\<lambda>(ctx, w3).
               case ctx of
                 None \<Rightarrow> err_reply (-1) r1 w3
               | Some c \<Rightarrow>
                   let (now, w4) = get_timestamp_ms w3 in
                   andThen (read_u32 move_goal 8) (\<lambda>n.
                   andThen (store_payload (enc_goal_accepted \<lparr>ga_goal_id = goal_id,
                              ga_num_trajectory_accepted = n, ga_timestamp_ms = now\<rparr>) c)
                     (\<lambda>c1. Inr (Some c1, r1, w4))))))"

definition echo_command :: "mock_robot \<Rightarrow> world \<Rightarrow> mock_reply" where
  "echo_command r w =
     (case mock_robot_echo_trajectory 0 r of
        None \<Rightarrow> err_reply (-1) r w
      | Some stored \<Rightarrow>
          andThen (read_u32 stored 8) (\<lambda>trajectory_size.
          andThen (read_u32 stored (MOVE_GOAL_TOLERANCE_SIZE_OFFSET trajectory_size)) (\<lambda>tolerance_size.
            let response_size = MOVE_GOAL_CALC_SIZE trajectory_size tolerance_size in
            andThen (allocate_response_context (ucast response_size) (msg_num MSG_ECHO_TRAJECTORY) w)
              (\<lambda>(ctx, w1).
                case ctx of
                  None \<Rightarrow> err_reply (-1) r w1
                | Some c \<Rightarrow>
                    andThen (memcpy_from stored 0 (unat response_size)) (\<lambda>bytes.
                    andThen (store_payload bytes c) (\<lambda>c1. Inr (Some c1, r, w1)))))))"

definition goal_status_command :: "byte list \<Rightarrow> mock_robot \<Rightarrow> world \<Rightarrow> mock_reply" where
  "goal_status_command payload r w =
     andThen (allocate_response_context 157 (msg_num MSG_GOAL_STATUS) w) (\<lambda>(ctx, w1).
       case ctx of
         None \<Rightarrow> err_reply (-1) r w1
       | Some c \<Rightarrow>
           andThen (read_u32 payload 0) (\<lambda>goal_id.
             let (err, status, w2) = mock_robot_get_goal_status goal_id r (ctx_body c) w1 in
             if err \<noteq> 0
             then andThen (free_command_response_context (Some c) w2) (\<lambda>w3. err_reply err r w3)
             else andThen (store_payload status c) (\<lambda>c1. Inr (Some c1, r, w2))))"

definition mock_capabilities :: "mock_robot \<Rightarrow> capabilities_payload" where
  "mock_capabilities r =
     (let gs = take MAX_GROUPS (used_groups r) in
      \<lparr>cap_protocol_version = PROTOCOL_VERSION, cap_num_groups = mr_num_groups r,
       cap_groups = map (\<lambda>(i, g). \<lparr>gc_group_id = word_of_nat i, gc_group_type = mg_group_type g,
             gc_group_sub_index = word_of_nat i, gc_num_axes = mg_num_axes g,
             gc_axis_types = mg_axis_types g, gc_base_axis_motion = mg_base_axis_motion g,
             gc_interpolation_period_us = 4000\<rparr>) (enumerate 0 gs) @
         replicate (MAX_GROUPS - length gs) \<lparr>gc_group_id = 0, gc_group_type = 0, gc_group_sub_index = 0,
             gc_num_axes = 0, gc_axis_types = replicate 8 0, gc_base_axis_motion = replicate 8 0,
             gc_interpolation_period_us = 0\<rparr>,
       cap_build_id = replicate 256 0\<rparr>)"

definition handle_get_capabilities :: "mock_robot \<Rightarrow> world \<Rightarrow> mock_reply" where
  "handle_get_capabilities r w =
     andThen (allocate_response_context 378 (msg_num MSG_CAPABILITIES) w) (\<lambda>(ctx, w1).
       case ctx of
         None \<Rightarrow> Inr (None, r, w1)
       | Some c \<Rightarrow> andThen (store_payload (enc_capabilities (mock_capabilities r)) c)
           (\<lambda>c1. Inr (Some c1, r, w1)))"

definition stop_command :: "byte list \<Rightarrow> mock_robot \<Rightarrow> world \<Rightarrow> mock_reply" where
  "stop_command payload r w =
     andThen (read_u32 payload 0) (\<lambda>gid.
       let (stopped, r1, w1) =
         (if gid = GROUP_ID_ALL then mock_robot_stop_motion r w else mock_robot_stop_group gid r w)
       in boolean_reply MSG_STOP_MOTION stopped r1 w1)"

definition check_group_command :: "byte list \<Rightarrow> mock_robot \<Rightarrow> world \<Rightarrow> mock_reply" where
  "check_group_command payload r w =
     andThen (read_u32 payload 0) (\<lambda>gid.
       boolean_reply MSG_CHECK_GROUP (if sint gid < int (unat (mr_num_groups r)) then 1 else 0) r w)"

text \<open>The commands with a payload of a fixed size check that size first.\<close>

definition sized ::
  "u32 \<Rightarrow> protocol_header \<Rightarrow> (mock_robot \<Rightarrow> world \<Rightarrow> mock_reply) \<Rightarrow> mock_robot \<Rightarrow> world \<Rightarrow> mock_reply" where
  "sized n h f r w =
     (if payload_length h \<noteq> n then err_reply (-1) r (pr_info ''[SERVER] payload size mismatch'' w)
      else f r w)"

definition mock_robot_handle_command :: "mock_robot command_callback" where
  "mock_robot_handle_command h payload robot w =
     (let r = robot\<lparr>mr_command_count := mr_command_count robot + 1\<rparr>; t = message_type h in
      if t = msg_num MSG_TEST_TRAJECTORY_COMMAND then
        andThen (mock_robot_start_trajectory r (pr_info ''[SERVER] Received TEST_TRAJECTORY_COMMAND'' w))
          (\<lambda>(err, r1, w1). status_reply err r1 w1)
      else if t = msg_num MSG_TURN_SERVO_POWER_ON then
        let (err, r1, w1) = mock_robot_power_on r (pr_info ''[SERVER] Received TURN_SERVO_POWER_ON'' w)
        in status_reply err r1 w1
      else if t = msg_num MSG_HEARTBEAT then
        let (now, w1) = get_timestamp_ms w; (err, r1) = mock_robot_heartbeat now r in status_reply err r1 w1
      else if t = msg_num MSG_TEST_ERROR_COMMAND then
        let (err, r1) = mock_robot_test_error_command r in
        status_reply err r1 (pr_info ''[MOCK] Test error command'' (pr_info ''[SERVER] Received TEST_ERROR_COMMAND'' w))
      else if t = msg_num MSG_RESET_ERRORS then
        let (err, r1) = mock_robot_reset_errors r in
        status_reply err r1 (pr_info ''[MOCK] Resetting all errors'' (pr_info ''[SERVER] Received RESET_ERRORS'' w))
      else if t = msg_num MSG_MOVE_GOAL then
        move_goal_command h payload r (pr_info ''[SERVER] Received MOVE_GOAL'' w)
      else if t = msg_num MSG_ECHO_TRAJECTORY then
        echo_command r (pr_info ''[SERVER] Received ECHO_TRAJECTORY'' w)
      else if t = msg_num MSG_SET_MOTION_MODE then
        sized 1 h (\<lambda>r w. andThen (memcpy_from payload 0 1) (\<lambda>b.
            let (err, r1) = mock_robot_set_motion_mode (motion_mode_of b) r in
            status_reply err r1 (pr_info ''[MOCK] Setting motion mode'' w)))
          r (pr_info ''[SERVER] Received SET_MOTION_MODE'' w)
      else if t = msg_num MSG_IS_IN_MOTION then
        sized 0 h (\<lambda>r w. boolean_reply MSG_IS_IN_MOTION (mock_robot_is_in_motion r) r w)
          r (pr_info ''[SERVER] Received IS_IN_MOTION'' w)
      else if t = msg_num MSG_STOP_MOTION then
        sized 4 h (stop_command payload) r (pr_info ''[SERVER] Received STOP_MOTION'' w)
      else if t = msg_num MSG_CANCEL_GOAL then
        sized 4 h (\<lambda>r w. andThen (read_u32 payload 0) (\<lambda>goal_id.
            let (err, r1, w1) = mock_robot_cancel_goal goal_id r w in status_reply err r1 w1))
          r (pr_info ''[SERVER] Received CANCEL_GOAL'' w)
      else if t = msg_num MSG_GET_GOAL_STATUS then sized 4 h (goal_status_command payload) r w
      else if t = msg_num MSG_CHECK_GROUP then sized 4 h (check_group_command payload) r w
      else if t = msg_num MSG_GET_CAPABILITIES then
        handle_get_capabilities r (pr_info ''[SERVER] Received GET_CAPABILITIES'' w)
      else err_reply (-1) r (pr_info ''[SERVER] Unknown message type'' w))"

definition mock_robot_on_connection :: "mock_robot connection_callback" where
  "mock_robot_on_connection ip port r w =
     Inr (r\<lparr>mr_connection_count := mr_connection_count r + 1\<rparr>, pr_info ''[SERVER] Client connected'' w)"

definition mock_robot_on_disconnection :: "mock_robot connection_callback" where
  "mock_robot_on_disconnection ip port r w =
     (let (_, r1, w1) = mock_robot_stop_motion
            (r\<lparr>mr_disconnection_count := mr_disconnection_count r + 1\<rparr>) w
      in Inr (r1, pr_info ''[SERVER] Client disconnected'' w1))"

text \<open>The numeric result is written only when there is an error; the caller starts it at \<open>0\<close>.\<close>

definition mock_robot_get_error_info_callback :: "mock_robot error_info_callback" where
  "mock_robot_get_error_info_callback r w =
     (let (msg, r1) = mock_robot_get_error_info 512 r;
          w1 = pr_info ''[SERVER] GET_ERROR_INFO callback called'' w in
      if c_string msg \<noteq> [] then
        andThen (allocate_response_context 132 (msg_num MSG_ERROR_INFO) w1) (\<lambda>(ctx, w2).
          case ctx of
            None \<Rightarrow> Inr (None, 0, r1, w2)
          | Some c \<Rightarrow>
              andThen (store_payload (enc_error_payload
                  \<lparr>error_code = -1, ep_message = pad_to 128 (take 127 (c_string msg))\<rparr>) c)
                (\<lambda>c1. Inr (Some c1, -1, r1, w2)))
      else andThen (MSG_OK_RESPONSE w1) (\<lambda>(c, w2). Inr (c, 0, r1, w2)))"

definition mock_callbacks :: "mock_robot robot_network_callbacks" where
  "mock_callbacks = \<lparr>on_connection = Some mock_robot_on_connection,
     on_disconnection = Some mock_robot_on_disconnection,
     handle_command = Some mock_robot_handle_command,
     get_error_info = Some mock_robot_get_error_info_callback\<rparr>"

section \<open>What the mock robot owns\<close>

definition stored_block :: "mock_group \<Rightarrow> nat list" where
  "stored_block g = (case mg_stored g of None \<Rightarrow> [] | Some (a, _) \<Rightarrow> [a])"

definition stored_blocks :: "mock_group list \<Rightarrow> nat list" where
  "stored_blocks gs = concat (map stored_block gs)"

definition mock_owns :: "mock_robot \<Rightarrow> nat set" where
  "mock_owns r = set (stored_blocks (mr_groups r))"

definition wf_group :: "mock_group \<Rightarrow> bool" where
  "wf_group g \<longleftrightarrow> length (mg_positions g) = MAX_AXES \<and> length (mg_velocities g) = MAX_AXES \<and>
     length (mg_torques g) = MAX_AXES \<and> length (mg_corrected_positions g) = MAX_AXES \<and>
     length (mg_axis_types g) = MAX_AXES \<and> length (mg_base_axis_motion g) = MAX_AXES \<and>
     unat (mg_num_axes g) \<le> MAX_AXES \<and>
     (\<forall>a bs. mg_stored g = Some (a, bs) \<longrightarrow> length bs = unat (mg_stored_size g))"

definition mock_ok :: "mock_robot \<Rightarrow> bool" where
  "mock_ok r \<longleftrightarrow> length (mr_groups r) = MAX_GROUPS \<and> unat (mr_num_groups r) \<le> MAX_GROUPS \<and>
     (\<forall>g \<in> set (mr_groups r). wf_group g) \<and> distinct (stored_blocks (mr_groups r)) \<and>
     length (mr_error_codes r) = MAX_ALARM_COUNT + 1"

lemma stored_blocks_simps [simp]:
  "stored_blocks [] = []" "stored_blocks (g # gs) = stored_block g @ stored_blocks gs"
  "stored_blocks (gs @ hs) = stored_blocks gs @ stored_blocks hs"
  by (simp_all add: stored_blocks_def)

lemma distinct_stored_block [simp]: "distinct (stored_block g)"
  by (simp add: stored_block_def split: option.split)

lemma stored_blocks_update:
  assumes "k < length gs" and "distinct (stored_blocks gs)"
    and "set (stored_block g) \<inter> (set (stored_blocks gs) - set (stored_block (gs ! k))) = {}"
  shows "distinct (stored_blocks (gs[k := g]))"
    and "set (stored_blocks (gs[k := g])) =
      set (stored_blocks gs) - set (stored_block (gs ! k)) \<union> set (stored_block g)"
proof -
  obtain xs y ys where gs: "gs = xs @ y # ys" "length xs = k"
    using id_take_nth_drop [OF assms(1)] assms(1) by (metis length_take min_absorb2 less_imp_le)
  have y: "gs ! k = y" "gs[k := g] = xs @ g # ys" using gs by (auto simp: nth_append)
  show "distinct (stored_blocks (gs[k := g]))"
    using assms(2,3) unfolding y by (auto simp: gs(1))
  show "set (stored_blocks (gs[k := g])) =
      set (stored_blocks gs) - set (stored_block (gs ! k)) \<union> set (stored_block g)"
    using assms(2,3) unfolding y by (auto simp: gs(1))
qed

lemma stored_blocks_same:
  assumes "stored_block g = stored_block (gs ! k)"
  shows "stored_blocks (gs[k := g]) = stored_blocks gs"
proof (cases "k < length gs")
  case True
  have "map stored_block (gs[k := g]) = map stored_block gs"
    by (rule nth_equalityI) (auto simp: nth_list_update True assms)
  then show ?thesis by (simp only: stored_blocks_def)
next
  case False
  then show ?thesis by (simp add: list_update_beyond)
qed

lemma stored_blocks_map: "(\<And>g. g \<in> set gs \<Longrightarrow> stored_block (f g) = stored_block g) \<Longrightarrow> stored_blocks (map f gs) = stored_blocks gs"
  by (induction gs) auto

section \<open>Running callbacks\<close>

text \<open>
  \<open>handled owns ok R w None u w1\<close> holds while a callback started in \<open>w\<close> runs: \<open>u\<close> and \<open>w1\<close> are
  what it has so far.
\<close>

named_theorems running \<open>steps of a running callback\<close>

lemma handled_frame [running]:
  assumes "handled owns ok R w rsp u w1"
    and "same_io w1 w2" "w_heap w2 = w_heap w1" "w_next w2 = w_next w1" "w_trace w2 = w_trace w1"
  shows "handled owns ok R w rsp u w2"
  using assms same_io_trans [of w w1 w2]
  by (cases rsp) (auto simp: handled_def user_inv_def heap_ok_def ctx_ok_def)

lemma handled_pr [simp]: "handled owns ok R w rsp u (pr l s w1) = handled owns ok R w rsp u w1"
  by (cases rsp) (auto simp: handled_def user_inv_def heap_ok_def ctx_ok_def same_io_def)

lemma handled_user:
  "handled owns ok R w None u w1 \<Longrightarrow> ok u' \<Longrightarrow> owns u' = owns u \<Longrightarrow> handled owns ok R w None u' w1"
  by (simp add: handled_def user_inv_def)

lemma handled_timestamp:
  "handled owns ok R w rsp u w1 \<Longrightarrow> get_timestamp_ms w1 = (t, w2) \<Longrightarrow> handled owns ok R w rsp u w2"
  using timestamp_frame [of w1 t w2] handled_frame [of owns ok R w rsp u w1 w2] by simp

lemma handled_start: "user_inv owns ok R u w \<Longrightarrow> handled owns ok R w None u w"
  by (simp add: handled_def)

lemma handled_alloc:
  assumes "handled owns ok R w None u w1"
  shows "safe (allocate_response_context len type w1) (\<lambda>(ctx, w2). handled owns ok R w ctx u w2)"
proof -
  have u: "user_inv owns ok R u w1" "same_io w w1" "w_trace w1 = w_trace w"
    using assms by (simp_all add: handled_def)
  then have h: "heap_ok w1" by (simp add: user_inv_def)
  show ?thesis
  proof (cases rule: allocate_spec [OF h, of len type])
    case (1 w2)
    then show ?thesis using u same_io_trans [OF u(2), of w2] by (simp add: handled_def user_inv_def)
  next
    case (2 c w2)
    have new: "set (ctx_blocks c) \<inter> set (w_heap w1) = {}"
      using 2(2,4) by (auto simp: heap_ok_def)
    then have "set (w_heap w2) - owns u = R \<union> set (ctx_blocks c)" "R \<inter> set (ctx_blocks c) = {}"
      "owns u \<subseteq> set (w_heap w2)"
      using u(1) 2(2) by (auto simp: user_inv_def)
    then show ?thesis
      using u 2(1,3-6) same_io_trans [OF u(2), of w2] by (simp add: handled_def user_inv_def)
  qed
qed

lemma handled_store:
  assumes "handled owns ok R w (Some c) u w1"
  shows "safe (store_payload bytes c) (\<lambda>c1. handled owns ok R w (Some c1) u w1)"
proof (cases "crc_payload c")
  case None
  then show ?thesis using assms by (simp add: store_payload_def)
next
  case (Some pb)
  obtain p bs where pb: "pb = (p, bs)" by (cases pb)
  have "handled owns ok R w (Some (c\<lparr>crc_payload := Some (p, bs1)\<rparr>)) u w1" if "length bs1 = length bs" for bs1
    using assms that Some pb by (simp add: handled_def ctx_ok_def ctx_blocks_def)
  then show ?thesis
    using Some pb by (auto simp: store_payload_def memcpy_to_def)
qed

lemma handled_store_reply:
  assumes "handled owns ok R w (Some c) u w1"
  shows "safe (andThen (store_payload bytes c) (\<lambda>c1. Inr (Some c1, u, w1)))
    (\<lambda>(rsp, u, w2). handled owns ok R w rsp u w2)"
  by (rule safe_andThen [OF handled_store [OF assms]]) simp

lemma handled_free:
  assumes "handled owns ok R w (Some c) u w1"
  shows "safe (free_command_response_context (Some c) w1) (\<lambda>w2. handled owns ok R w None u w2)"
proof -
  have u: "user_inv owns ok (R \<union> set (ctx_blocks c)) u w1" "R \<inter> set (ctx_blocks c) = {}" "ctx_ok c w1"
    "same_io w w1" "w_trace w1 = w_trace w"
    using assms by (simp_all add: handled_def)
  have h: "heap_ok w1" using u(1) by (simp add: user_inv_def)
  let ?w2 = "w1\<lparr>w_heap := filter (\<lambda>a. a \<notin> set (ctx_blocks c)) (w_heap w1)\<rparr>"
  have "handled owns ok R w None u ?w2"
    using u by (auto simp: handled_def user_inv_def heap_ok_def same_io_def)
  then show ?thesis using free_spec [OF h u(3)] by simp
qed

lemma handled_replies:
  assumes h: "handled owns ok R w None (r :: mock_robot) w1"
  shows "safe (err_reply e r w1) (\<lambda>(rsp, u, w2). handled owns ok R w rsp u w2)"
    and "safe (status_reply e r w1) (\<lambda>(rsp, u, w2). handled owns ok R w rsp u w2)"
    and "safe (boolean_reply ty v r w1) (\<lambda>(rsp, u, w2). handled owns ok R w rsp u w2)"
proof -
  have err: "safe (err_reply e r w2) (\<lambda>(rsp, u, w3). handled owns ok R w rsp u w3)"
    if "handled owns ok R w None r w2" for e w2
  proof -
    have eq: "err_reply e r w2 =
        andThen (allocate_response_context 4 (msg_num MSG_ERROR) w2) (\<lambda>(ctx, w3).
          case ctx of None \<Rightarrow> Inr (None, r, w3)
          | Some c \<Rightarrow> andThen (store_payload (enc_u32 (word_of_int e)) c) (\<lambda>c1. Inr (Some c1, r, w3)))"
      by (simp add: err_reply_def MSG_ERR_RESPONSE_def andThen_assoc split_def)
        (intro andThen_cong refl, auto simp: store_payload_def andThen_assoc enc_u32_def
          split: option.split prod.split)
    show ?thesis unfolding eq
      by (rule safe_andThen [OF handled_alloc [OF that]])
        (auto split: option.split intro: handled_store_reply)
  qed
  show "safe (err_reply e r w1) (\<lambda>(rsp, u, w2). handled owns ok R w rsp u w2)" by (rule err [OF h])
  show "safe (status_reply e r w1) (\<lambda>(rsp, u, w2). handled owns ok R w rsp u w2)"
    unfolding status_reply_def MSG_OK_RESPONSE_def
    using err [OF h, of e] by (auto intro: safe_andThen [OF handled_alloc [OF h]])
  show "safe (boolean_reply ty v r w1) (\<lambda>(rsp, u, w2). handled owns ok R w rsp u w2)"
    unfolding boolean_reply_def
    by (rule safe_andThen [OF handled_alloc [OF h]])
      (auto split: option.split intro: handled_store_reply err)
qed

text \<open>Changes of the robot that leave its blocks and shapes alone.\<close>

lemma mock_owns_cong: "mr_groups r' = mr_groups r \<Longrightarrow> mock_owns r' = mock_owns r"
  by (simp add: mock_owns_def)

lemma mock_ok_cong:
  "mock_ok r \<Longrightarrow> mr_groups r' = mr_groups r \<Longrightarrow> mr_num_groups r' = mr_num_groups r \<Longrightarrow>
   length (mr_error_codes r') = MAX_ALARM_COUNT + 1 \<Longrightarrow> mock_ok r'"
  by (simp add: mock_ok_def)

lemma mock_ok_nth: "mock_ok r \<Longrightarrow> k < unat (mr_num_groups r) \<Longrightarrow> wf_group (mr_groups r ! k)"
  by (simp add: mock_ok_def)

lemma mock_update_group:
  assumes "mock_ok r" and "wf_group g" and "stored_block g = stored_block (mr_groups r ! k)"
  shows "mock_ok (r\<lparr>mr_groups := (mr_groups r)[k := g]\<rparr>)"
    and "mock_owns (r\<lparr>mr_groups := (mr_groups r)[k := g]\<rparr>) = mock_owns r"
  using assms stored_blocks_same [OF assms(3)]
  by (auto simp: mock_ok_def mock_owns_def dest!: subsetD [OF set_update_subset_insert])

lemma abort_group_keeps [simp]:
  "stored_block (abort_group g) = stored_block g" "wf_group (abort_group g) = wf_group g"
  by (simp_all add: abort_group_def stored_block_def wf_group_def)

lemma mock_set_groups:
  assumes "mock_ok r" and "length gs = length (mr_groups r)" and "Ball (set gs) wf_group"
    and "stored_blocks gs = stored_blocks (mr_groups r)"
  shows "mock_ok (r\<lparr>mr_groups := gs\<rparr>)" and "mock_owns (r\<lparr>mr_groups := gs\<rparr>) = mock_owns r"
  using assms by (simp_all add: mock_ok_def mock_owns_def)

lemma stop_motion_keeps:
  assumes "mock_ok r" and "mock_robot_stop_motion r w = (b, r', w')"
  shows "mock_ok r'" "mock_owns r' = mock_owns r" "\<exists>l s. w' = pr l s w"
proof -
  let ?f = "\<lambda>g. if mg_in_motion g \<or> has_active_goal g then abort_group g else g"
  let ?gs = "map ?f (used_groups r) @ drop (unat (mr_num_groups r)) (mr_groups r)"
  have r': "r' = r\<lparr>mr_groups := ?gs\<rparr>" and w': "\<exists>l s. w' = pr l s w"
    using assms(2) by (auto simp: mock_robot_stop_motion_def Let_def)
  have blocks: "stored_blocks ?gs = stored_blocks (mr_groups r)"
  proof -
    have "stored_blocks (map ?f (used_groups r)) = stored_blocks (used_groups r)"
      by (rule stored_blocks_map) simp
    then have "stored_blocks ?gs =
        stored_blocks (take (unat (mr_num_groups r)) (mr_groups r) @ drop (unat (mr_num_groups r)) (mr_groups r))"
      by (simp only: stored_blocks_simps used_groups_def)
    then show ?thesis by simp
  qed
  have wf: "Ball (set ?gs) wf_group"
    using assms(1) by (auto simp: mock_ok_def used_groups_def dest: in_set_takeD in_set_dropD)
  have len: "length ?gs = length (mr_groups r)" by (simp add: used_groups_def)
  show "mock_ok r'" "mock_owns r' = mock_owns r"
    unfolding r' by (rule mock_set_groups [OF assms(1) len wf blocks])+
  show "\<exists>l s. w' = pr l s w" by (rule w')
qed

lemma stop_group_keeps:
  assumes "mock_ok r" and "mock_robot_stop_group idx r w = (b, r', w')"
  shows "mock_ok r'" "mock_owns r' = mock_owns r" "\<exists>l s. w' = pr l s w"
proof -
  have k: "wf_group (mr_groups r ! nat (sint idx))" if "0 \<le> sint idx" "sint idx < int (unat (mr_num_groups r))"
    using that by (intro mock_ok_nth [OF assms(1)]) linarith
  show "mock_ok r'" "mock_owns r' = mock_owns r" "\<exists>l s. w' = pr l s w"
    using assms k mock_update_group [OF assms(1), of "abort_group (mr_groups r ! nat (sint idx))" "nat (sint idx)"]
    by (auto simp: mock_robot_stop_group_def Let_def not_le split: if_splits)
qed

lemma find_group_bound:
  assumes "find_group_with_goal r i = Some k"
  shows "k < unat (mr_num_groups r)" "mg_goal_id (mr_groups r ! k) = i"
  using assms by (auto simp: find_group_with_goal_def find_Some_iff)

lemma cancel_goal_keeps:
  assumes "mock_ok r" and "mock_robot_cancel_goal i r w = (e, r', w')"
  shows "mock_ok r'" "mock_owns r' = mock_owns r" "\<exists>l s. w' = pr l s w"
proof -
  have k: "wf_group (mr_groups r ! k)" if "find_group_with_goal r i = Some k" for k
    by (rule mock_ok_nth [OF assms(1) find_group_bound(1) [OF that]])
  let ?g = "\<lambda>k. (mr_groups r ! k)\<lparr>mg_goal_state := GOAL_STATE_CANCELLED, mg_in_motion := False,
    mg_trajectory_active := False\<rparr>"
  have keep: "stored_block (?g k) = stored_block (mr_groups r ! k)" "wf_group (?g k) = wf_group (mr_groups r ! k)" for k
    by (simp_all add: stored_block_def wf_group_def)
  show "mock_ok r'" "mock_owns r' = mock_owns r" "\<exists>l s. w' = pr l s w"
    using assms k mock_update_group [OF assms(1) _ keep(1)]
    by (auto simp: mock_robot_cancel_goal_def Let_def keep(2) split: option.splits if_splits)
qed

section \<open>Storing a trajectory\<close>

lemma malloc_cases:
  obtains (fail) w1 where "malloc w = (None, w1)" "same_io w w1" "w_heap w1 = w_heap w"
      "w_next w1 = w_next w" "w_trace w1 = w_trace w"
  | (ok) w1 where "malloc w = (Some (w_next w), w1)" "same_io w w1" "w_heap w1 = w_next w # w_heap w"
      "w_next w1 = Suc (w_next w)" "w_trace w1 = w_trace w"
proof (cases "e_malloc (w_env w) (w_calls w)")
  case False
  then show thesis
    by (intro fail [of "(tick w)\<lparr>w_errno := ENOMEM\<rparr>"]) (auto simp: malloc_def same_io_def Let_def)
next
  case True
  then show thesis
    by (intro ok [of "(tick w)\<lparr>w_next := Suc (w_next w), w_heap := w_next w # w_heap w\<rparr>"])
      (auto simp: malloc_def same_io_def Let_def)
qed

lemma read_u32_safe: "safe (read_u32 d off) (\<lambda>_. True)"
  by (simp add: read_u32_def memcpy_from_def)

lemma deep_copy_safe:
  "safe (move_goal_deep_copy (Some s) (Some d) n w)
     (\<lambda>(copied, x, w'). (\<exists>l t. w' = pr l t w) \<and> (\<exists>d'. x = Some d' \<and> length d' = length d))"
  unfolding move_goal_deep_copy_def
  by (auto simp: Let_def memcpy_from_def memcpy_to_def intro!: safe_andThen [OF read_u32_safe]) auto

text \<open>The ownership of the mock robot while its group \<open>k\<close> is replaced.\<close>

lemma store_trajectory_safe:
  assumes h: "handled mock_owns mock_ok R w None r w1" and k: "k < unat (mr_num_groups r)"
  shows "safe (store_trajectory trajectory (mr_groups r ! k) w1)
    (\<lambda>(stored, g, w2). handled mock_owns mock_ok R w None (r\<lparr>mr_groups := (mr_groups r)[k := g]\<rparr>) w2 \<and>
       wf_group g)"
proof -
  let ?g = "mr_groups r ! k"
  let ?r = "\<lambda>g. r\<lparr>mr_groups := (mr_groups r)[k := g]\<rparr>"
  let ?empty = "if mg_stored ?g = None then ?g else ?g\<lparr>mg_stored := None, mg_stored_size := 0\<rparr>"
  have ok: "mock_ok r" "same_io w w1" "w_trace w1 = w_trace w" "heap_ok w1" "mock_owns r \<subseteq> set (w_heap w1)"
    "set (w_heap w1) - mock_owns r = R"
    using h by (auto simp: handled_def user_inv_def)
  have kl: "k < length (mr_groups r)" using k ok(1) by (simp add: mock_ok_def)
  have wf: "wf_group ?g" by (rule mock_ok_nth [OF ok(1) k])
  have upd: "mock_ok (?r g)" "mock_owns (?r g) = mock_owns r - set (stored_block ?g) \<union> set (stored_block g)"
    if "wf_group g" "set (stored_block g) \<inter> (mock_owns r - set (stored_block ?g)) = {}" for g
    using stored_blocks_update [OF kl, of g] ok(1) that
    by (auto simp: mock_ok_def mock_owns_def dest!: subsetD [OF set_update_subset_insert])
  have empty: "stored_block ?empty = []" "wf_group ?empty" "wf_group (?g\<lparr>mg_stored := None, mg_stored_size := 0\<rparr>)"
    using wf by (auto simp: stored_block_def wf_group_def)
  have own_g: "set (stored_block ?g) \<subseteq> mock_owns r"
    using nth_mem [OF kl] unfolding mock_owns_def stored_blocks_def by auto
  \<comment> \<open>after the old block has been freed\<close>
  obtain w2 where fr: "platform_free (map_option fst (mg_stored ?g)) w1 = Inr w2"
    and w2: "same_io w1 w2" "w_trace w2 = w_trace w1" "heap_ok w2" "w_next w2 = w_next w1"
      "set (w_heap w2) = set (w_heap w1) - set (stored_block ?g)"
  proof (cases "mg_stored ?g")
    case None
    then show thesis using that [of w1] ok(4) by (simp add: platform_free_def stored_block_def)
  next
    case (Some ab)
    then have a: "fst ab \<in> set (w_heap w1)" using own_g ok(5) by (cases ab) (auto simp: stored_block_def)
    show thesis
      by (rule that [of "w1\<lparr>w_heap := remove1 (fst ab) (w_heap w1)\<rparr>"])
        (use a Some ok(4) in \<open>cases ab; auto simp: platform_free_def stored_block_def same_io_def heap_ok_def
          dest: notin_set_remove1\<close>)+
  qed
  have base: "handled mock_owns mock_ok R w None (?r ?empty) w2"
    using ok w2 upd [OF empty(2)] same_io_trans [OF ok(2) w2(1)] own_g
    by (auto simp: handled_def user_inv_def empty(1))
  have body: "safe (case malloc w2 of
        (None, w3) \<Rightarrow> Inr (False, ?empty, pr_error m1 w3)
      | (Some a, w3) \<Rightarrow>
          andThen (move_goal_deep_copy (Some trajectory) (Some (uninit a (unat req) w3)) req w3)
            (\<lambda>(copied, dest, w4).
              if copied
              then Inr (True, ?empty\<lparr>mg_stored := map_option (Pair a) dest, mg_stored_size := req\<rparr>, w4)
              else andThen (platform_free (Some a) (pr_error m2 w4))
                     (\<lambda>w5. Inr (False, ?g\<lparr>mg_stored := None, mg_stored_size := 0\<rparr>, w5))))
      (\<lambda>(stored, g, w3). handled mock_owns mock_ok R w None (?r g) w3 \<and> wf_group g)" for req m1 m2
  proof (cases rule: malloc_cases [of w2])
    case (fail w3)
    then show ?thesis using empty(2) handled_frame [OF base fail(2-5)] by simp
  next
    case (ok w3)
    let ?a = "w_next w2"
    have new: "?a \<notin> set (w_heap w2)" using w2(3) by (auto simp: heap_ok_def)
    have io: "same_io w w3" "w_trace w3 = w_trace w"
      using base same_io_trans [of w w2 w3] ok by (simp_all add: handled_def)
    have u: "heap_ok w2" "mock_owns (?r ?empty) \<subseteq> set (w_heap w2)" "set (w_heap w2) - mock_owns (?r ?empty) = R"
      using base by (simp_all add: handled_def user_inv_def)
    have O: "mock_owns (?r ?empty) = mock_owns r - set (stored_block ?g)"
      using upd(2) [OF empty(2)] by (simp add: empty(1))
    have stored: "handled mock_owns mock_ok R w None (?r g) (pr l t w3)" "wf_group g"
      if g: "g = ?empty\<lparr>mg_stored := Some (?a, d), mg_stored_size := req\<rparr>" and d: "length d = unat req" for g d l t
    proof -
      show wfg: "wf_group g" using empty(2) d by (simp add: g wf_group_def split del: if_split)
      have b: "stored_block g = [?a]" by (simp add: g stored_block_def)
      have "set (stored_block g) \<inter> (mock_owns r - set (stored_block ?g)) = {}"
        using new u(2) by (auto simp: b O)
      note ug = upd [OF wfg this]
      have "set (w_heap w3) - mock_owns (?r g) = R" "mock_owns (?r g) \<subseteq> set (w_heap w3)"
        using u(2,3) new ok(3) unfolding ug(2) b O by auto
      moreover have "heap_ok w3" using u(1) new ok by (auto simp: heap_ok_def)
      ultimately have "handled mock_owns mock_ok R w None (?r g) w3"
        using ug(1) io by (simp add: handled_def user_inv_def)
      then show "handled mock_owns mock_ok R w None (?r g) (pr l t w3)" by simp
    qed
    have freed: "\<exists>w5. platform_free (Some ?a) (pr_error m2 (pr l t w3)) = Inr w5 \<and>
        handled mock_owns mock_ok R w None (?r (?g\<lparr>mg_stored := None, mg_stored_size := 0\<rparr>)) w5" for l t
    proof -
      let ?g0 = "?g\<lparr>mg_stored := None, mg_stored_size := 0\<rparr>"
      have b: "stored_block ?g0 = []" by (simp add: stored_block_def)
      have ug: "mock_ok (?r ?g0)" "mock_owns (?r ?g0) = mock_owns (?r ?empty)"
        using upd [OF empty(3)] by (simp_all add: b O)
      have "user_inv mock_owns mock_ok R (?r ?g0) (pr_error m2 (pr l t w3)\<lparr>w_heap := w_heap w2\<rparr>)"
        using u ug ok(4) by (auto simp: user_inv_def heap_ok_def)
      then show ?thesis
        using io ok(3) by (simp add: platform_free_head handled_def same_io_def)
    qed
    show ?thesis
      unfolding ok(1) prod.case option.case
    proof (rule safe_andThen [OF deep_copy_safe], goal_cases)
      case (1 x)
      then obtain copied d l t where "x = (copied, Some d, pr l t w3)" "length d = unat req"
        by (cases x) auto
      then show ?case
        using stored(1) [OF refl, of d l t] stored(2) [OF refl, of d] freed [of l t] empty(3) by auto
    qed
  qed
  show ?thesis
    unfolding store_trajectory_def Let_def fr
    by (rule safe_andThen [OF read_u32_safe], rule safe_andThen [OF read_u32_safe]) (use body in simp)
qed

section \<open>The commands keep the laws\<close>

lemma draw_goal_id_frame:
  assumes "draw_goal_id w = Some (i, w')"
  shows "i \<noteq> 0" "same_io w w'" "w_heap w' = w_heap w" "w_next w' = w_next w" "w_trace w' = w_trace w"
proof -
  have "fst y \<noteq> 0 \<and> same_io w (snd y) \<and> w_heap (snd y) = w_heap w \<and> w_next (snd y) = w_next w \<and>
      w_trace (snd y) = w_trace w" if "draw_goal_id w = Some y" for y
    using draw_goal_id.raw_induct [of "\<lambda>w y. fst y \<noteq> 0 \<and> same_io w (snd y) \<and> w_heap (snd y) = w_heap w \<and>
        w_next (snd y) = w_next w \<and> w_trace (snd y) = w_trace w", OF _ that]
    by (fastforce simp: rand_def same_io_def split: if_splits)
  from this [OF assms] show "i \<noteq> 0" "same_io w w'" "w_heap w' = w_heap w" "w_next w' = w_next w" "w_trace w' = w_trace w"
    by simp_all
qed

lemma replace_again: "(r\<lparr>mr_groups := gs[k := g]\<rparr>)\<lparr>mr_groups := gs[k := h]\<rparr> = r\<lparr>mr_groups := gs[k := h]\<rparr>"
  by simp

text \<open>Marking the stored goal as the active one.\<close>

lemma handled_mark_group:
  assumes "handled mock_owns mock_ok R w None (r\<lparr>mr_groups := (mr_groups r)[k := g]\<rparr>) w1"
    and "k < length (mr_groups r)" and "wf_group h" and "stored_block h = stored_block g"
  shows "handled mock_owns mock_ok R w None (r\<lparr>mr_groups := (mr_groups r)[k := h]\<rparr>) w1"
proof (rule handled_user [OF assms(1)])
  let ?r = "r\<lparr>mr_groups := (mr_groups r)[k := g]\<rparr>"
  have ok: "mock_ok ?r" using assms(1) by (simp add: handled_def user_inv_def)
  have "stored_block h = stored_block (mr_groups ?r ! k)" using assms(2,4) by simp
  from mock_update_group [OF ok assms(3) this]
  show "mock_ok (r\<lparr>mr_groups := (mr_groups r)[k := h]\<rparr>)"
    "mock_owns (r\<lparr>mr_groups := (mr_groups r)[k := h]\<rparr>) = mock_owns ?r" by simp_all
qed

lemma accept_goal_safe:
  assumes h: "handled mock_owns mock_ok R w None r w1"
  shows "safe (mock_robot_accept_goal trajectory r w1) (\<lambda>(i, r', w2). handled mock_owns mock_ok R w None r' w2)"
proof (cases "mr_servo_power_on r")
  case False
  then show ?thesis using h by (simp add: mock_robot_accept_goal_def)
next
  case True
  have ok: "mock_ok r" using h by (simp add: handled_def user_inv_def)
  have body: "safe (andThen (store_trajectory trajectory (mr_groups r ! k) w1) (\<lambda>(stored, g1, w2).
      if \<not> stored then Inr (-1, r\<lparr>mr_groups := (mr_groups r)[k := g1]\<rparr>, w2)
      else (case draw_goal_id w2 of None \<Rightarrow> Inl Blocked
        | Some (goal_id, w3) \<Rightarrow> let (now, w4) = get_timestamp_ms w3;
            g2 = g1\<lparr>mg_goal_id := goal_id, mg_goal_state := GOAL_STATE_ACTIVE, mg_goal_progress := 0,
              mg_goal_start_time := now, mg_trajectory_active := True, mg_in_motion := True\<rparr> in
            Inr (goal_id, r\<lparr>mr_groups := (mr_groups r)[k := g2]\<rparr>, pr_info ''[MOCK] Goal accepted'' w4))))
      (\<lambda>(i, r', w2). handled mock_owns mock_ok R w None r' w2)"
    if k: "k < unat (mr_num_groups r)" for k
  proof (rule safe_andThen [OF store_trajectory_safe [OF h k]], goal_cases)
    case (1 x)
    then obtain stored g w2 where x: "x = (stored, g, w2)" "wf_group g"
      and g: "handled mock_owns mock_ok R w None (r\<lparr>mr_groups := (mr_groups r)[k := g]\<rparr>) w2"
      by (cases x) auto
    have kl: "k < length (mr_groups r)" using k ok by (simp add: mock_ok_def)
    show ?case
    proof (cases "stored \<and> draw_goal_id w2 \<noteq> None")
      case False
      then show ?thesis using g by (cases "draw_goal_id w2") (auto simp: x(1))
    next
      case True
      then obtain i w3 where d: "draw_goal_id w2 = Some (i, w3)" by auto
      obtain t w4 where t: "get_timestamp_ms w3 = (t, w4)" by (cases "get_timestamp_ms w3")
      have w4: "handled mock_owns mock_ok R w None (r\<lparr>mr_groups := (mr_groups r)[k := g]\<rparr>) w4"
        by (rule handled_timestamp [OF handled_frame [OF g draw_goal_id_frame(2-5) [OF d]] t])
      let ?h = "g\<lparr>mg_goal_id := i, mg_goal_state := GOAL_STATE_ACTIVE, mg_goal_progress := 0,
        mg_goal_start_time := t, mg_trajectory_active := True, mg_in_motion := True\<rparr>"
      have "wf_group ?h" "stored_block ?h = stored_block g"
        using x(2) by (simp_all add: wf_group_def stored_block_def)
      from handled_mark_group [OF w4 kl this] show ?thesis using True by (simp add: x(1) d t)
    qed
  qed
  show ?thesis
    unfolding mock_robot_accept_goal_def using True h
    by simp (rule safe_andThen [OF read_u32_safe], auto intro!: body simp: not_le Let_def)
qed

lemma from_payload_safe:
  "safe (move_goal_from_payload (Some d) len w)
     (\<lambda>(goal, w'). (goal = None \<or> goal = Some d) \<and> same_io w w' \<and> w_heap w' = w_heap w \<and>
        w_next w' = w_next w \<and> w_trace w' = w_trace w)"
  unfolding move_goal_from_payload_def
  by (auto simp: Let_def same_io_def intro!: safe_andThen [OF read_u32_safe])

lemma move_goal_command_safe:
  assumes h: "handled mock_owns mock_ok R w None r w1"
  shows "safe (move_goal_command hdr payload r w1) (\<lambda>(rsp, r', w2). handled mock_owns mock_ok R w rsp r' w2)"
  unfolding move_goal_command_def
proof (rule safe_andThen [OF from_payload_safe], goal_cases)
  case (1 x)
  then obtain goal w2 where x: "x = (goal, w2)"
    and w2: "same_io w1 w2" "w_heap w2 = w_heap w1" "w_next w2 = w_next w1" "w_trace w2 = w_trace w1"
    by (cases x) auto
  note h2 = handled_frame [OF h w2]
  show ?case
  proof (cases goal)
    case None
    then show ?thesis using handled_replies(1) [of mock_owns mock_ok R w r] h2 by (simp add: x)
  next
    case (Some g)
    show ?thesis
      unfolding x Some prod.case option.case
    proof (rule safe_andThen [OF accept_goal_safe [OF h2]], goal_cases)
      case (1 y)
      then obtain i r1 w3 where y: "y = (i, r1, w3)" and h3: "handled mock_owns mock_ok R w None r1 w3"
        by (cases y) auto
      show ?case
      proof (cases "sint i < 0")
        case True
        then show ?thesis using handled_replies(1) [OF h3] by (simp add: y)
      next
        case False
        have "safe (case ctx of None \<Rightarrow> err_reply (-1) r1 w4
            | Some c \<Rightarrow> let (now, w5) = get_timestamp_ms w4 in
                andThen (read_u32 g 8) (\<lambda>n. andThen (store_payload (enc_goal_accepted
                  \<lparr>ga_goal_id = i, ga_num_trajectory_accepted = n, ga_timestamp_ms = now\<rparr>) c)
                    (\<lambda>c1. Inr (Some c1, r1, w5))))
            (\<lambda>(rsp, r', w2). handled mock_owns mock_ok R w rsp r' w2)"
          if "handled mock_owns mock_ok R w ctx r1 w4" for ctx w4
        proof (cases ctx)
          case None
          then show ?thesis using handled_replies(1) that by simp
        next
          case (Some c)
          obtain t w5 where t: "get_timestamp_ms w4 = (t, w5)" by (cases "get_timestamp_ms w4")
          have "handled mock_owns mock_ok R w (Some c) r1 w5"
            using handled_timestamp [OF that t] Some by simp
          then show ?thesis
            by (simp add: Some t) (rule safe_andThen [OF read_u32_safe], rule handled_store_reply)
        qed
        then show ?thesis
          using False by (simp add: y) (rule safe_andThen [OF handled_alloc [OF h3]], auto)
      qed
    qed
  qed
qed

lemma echo_command_safe:
  assumes h: "handled mock_owns mock_ok R w None r w1"
  shows "safe (echo_command r w1) (\<lambda>(rsp, r', w2). handled mock_owns mock_ok R w rsp r' w2)"
proof (cases "mock_robot_echo_trajectory 0 r")
  case None
  then show ?thesis using handled_replies(1) [OF h] by (simp add: echo_command_def)
next
  case (Some d)
  have "safe (case ctx of None \<Rightarrow> err_reply (-1) r w2
      | Some c \<Rightarrow> andThen (memcpy_from d 0 n) (\<lambda>bytes.
          andThen (store_payload bytes c) (\<lambda>c1. Inr (Some c1, r, w2))))
      (\<lambda>(rsp, r', w2). handled mock_owns mock_ok R w rsp r' w2)"
    if "handled mock_owns mock_ok R w ctx r w2" for ctx w2 n
    using that handled_replies(1) [of mock_owns mock_ok R w r w2 "-1"]
    by (auto simp: memcpy_from_def intro: handled_store_reply split: option.split)
  then show ?thesis
    by (simp add: echo_command_def Some Let_def)
      (rule safe_andThen [OF read_u32_safe], rule safe_andThen [OF read_u32_safe],
        rule safe_andThen [OF handled_alloc [OF h]], auto)
qed

lemma goal_status_frame:
  assumes "mock_robot_get_goal_status i r d w = (e, d', w')"
  shows "same_io w w'" "w_heap w' = w_heap w" "w_next w' = w_next w" "w_trace w' = w_trace w"
proof -
  have "same_io w w' \<and> w_heap w' = w_heap w \<and> w_next w' = w_next w \<and> w_trace w' = w_trace w"
  proof (cases "find_group_with_goal r i")
    case None
    then show ?thesis using assms by (auto simp: mock_robot_get_goal_status_def same_io_def)
  next
    case (Some k)
    obtain t w1 where t: "get_timestamp_ms w = (t, w1)" by (cases "get_timestamp_ms w")
    show ?thesis
      using assms timestamp_frame [OF t] by (simp add: mock_robot_get_goal_status_def Some t Let_def)
  qed
  then show "same_io w w'" "w_heap w' = w_heap w" "w_next w' = w_next w" "w_trace w' = w_trace w" by simp_all
qed

lemma goal_status_command_safe:
  assumes h: "handled mock_owns mock_ok R w None r w1"
  shows "safe (goal_status_command payload r w1) (\<lambda>(rsp, r', w2). handled mock_owns mock_ok R w rsp r' w2)"
  unfolding goal_status_command_def
proof (rule safe_andThen [OF handled_alloc [OF h]], goal_cases)
  case (1 x)
  then obtain ctx w2 where x: "x = (ctx, w2)" and h2: "handled mock_owns mock_ok R w ctx r w2" by (cases x) auto
  show ?case
  proof (cases ctx)
    case None
    then show ?thesis using handled_replies(1) [of mock_owns mock_ok R w r w2] h2 by (simp add: x)
  next
    case (Some c)
    have "safe (let (err, status, w3) = mock_robot_get_goal_status i r (ctx_body c) w2 in
        if err \<noteq> 0 then andThen (free_command_response_context (Some c) w3) (\<lambda>w4. err_reply err r w4)
        else andThen (store_payload status c) (\<lambda>c1. Inr (Some c1, r, w3)))
        (\<lambda>(rsp, r', w2). handled mock_owns mock_ok R w rsp r' w2)" for i
    proof -
      obtain e d w3 where g: "mock_robot_get_goal_status i r (ctx_body c) w2 = (e, d, w3)"
        by (cases "mock_robot_get_goal_status i r (ctx_body c) w2")
      have h3: "handled mock_owns mock_ok R w (Some c) r w3"
        using handled_frame [OF h2 goal_status_frame [OF g]] Some by simp
      show ?thesis
        using handled_store_reply [OF h3] safe_andThen [OF handled_free [OF h3] handled_replies(1)]
        by (simp add: g)
    qed
    then show ?thesis unfolding x Some prod.case option.case by (intro safe_andThen [OF read_u32_safe])
  qed
qed

lemma handled_same_groups:
  assumes "handled mock_owns mock_ok R w None r w1" and "mr_groups r' = mr_groups r"
    and "mr_num_groups r' = mr_num_groups r" and "length (mr_error_codes r') = length (mr_error_codes r)"
  shows "handled mock_owns mock_ok R w None r' w1"
proof (rule handled_user [OF assms(1)])
  have "mock_ok r" using assms(1) by (simp add: handled_def user_inv_def)
  then show "mock_ok r'" using assms by (simp add: mock_ok_def)
  show "mock_owns r' = mock_owns r" by (rule mock_owns_cong [OF assms(2)])
qed

lemma length_overwrite [simp]: "length new = 8 \<Longrightarrow> length old = 8 \<Longrightarrow> n \<le> 8 \<Longrightarrow> length (overwrite n new old) = 8"
  by (simp add: overwrite_def)

text \<open>
  A simulation step keeps the robot well-formed, whatever the rounding of its products and
  quotients, and touches no block.
\<close>

lemma fade_group_keeps: "wf_group g \<Longrightarrow> wf_group (fade_group fade g) \<and> stored_block (fade_group fade g) = stored_block g"
  by (simp add: wf_group_def fade_group_def Let_def stored_block_def)

lemma goal_progress_keeps:
  "wf_group g \<Longrightarrow> wf_group (goal_progress p now g) \<and> stored_block (goal_progress p now g) = stored_block g"
  by (simp add: wf_group_def goal_progress_def Let_def stored_block_def)

lemma update_groups_keeps:
  "update_groups p gs w = (gs', w') \<Longrightarrow> \<forall>g \<in> set gs. wf_group g \<Longrightarrow>
   length gs' = length gs \<and> (\<forall>g \<in> set gs'. wf_group g) \<and> stored_blocks gs' = stored_blocks gs"
proof (induction p gs w arbitrary: gs' w' rule: update_groups.induct)
  case (2 p g gs w)
  let ?idle = "mg_goal_id g = 0 \<or> mg_goal_state g \<noteq> GOAL_STATE_ACTIVE"
  obtain now wn where time: "get_timestamp_ms w = (now, wn)"
    by fastforce
  have wf: "wf_group g" "\<forall>g \<in> set gs. wf_group g"
    using "2.prems"(2) by simp_all
  show ?case
  proof (cases ?idle)
    case True
    obtain gs1 w1 where rest: "update_groups p gs w = (gs1, w1)"
      by fastforce
    show ?thesis
      using "2.IH"(1)[OF True rest wf(2)] "2.prems"(1) wf(1) True rest by auto
  next
    case False
    obtain gs1 w1 where rest: "update_groups p gs wn = (gs1, w1)"
      by fastforce
    have "gs' = goal_progress p now g # gs1"
      using "2.prems"(1) False time rest by auto
    moreover have "length gs1 = length gs \<and> (\<forall>g \<in> set gs1. wf_group g) \<and> stored_blocks gs1 = stored_blocks gs"
      using "2.IH"(2)[OF False time[symmetric] refl rest wf(2)] .
    ultimately show ?thesis
      using goal_progress_keeps[OF wf(1), of p now] by simp
  qed
qed simp

lemma mock_ok_replace:
  assumes "mock_ok r" "length gs = length (used_groups r)" "\<forall>g \<in> set gs. wf_group g"
    and "stored_blocks gs = stored_blocks (used_groups r)"
  shows "mock_ok (r\<lparr>mr_groups := gs @ drop (unat (mr_num_groups r)) (mr_groups r)\<rparr>)"
    and "mock_owns (r\<lparr>mr_groups := gs @ drop (unat (mr_num_groups r)) (mr_groups r)\<rparr>) = mock_owns r"
proof -
  have "stored_blocks (gs @ drop (unat (mr_num_groups r)) (mr_groups r)) = stored_blocks (mr_groups r)"
    using assms(4) by (metis append_take_drop_id stored_blocks_simps(3) used_groups_def)
  then show "mock_ok (r\<lparr>mr_groups := gs @ drop (unat (mr_num_groups r)) (mr_groups r)\<rparr>)"
    and "mock_owns (r\<lparr>mr_groups := gs @ drop (unat (mr_num_groups r)) (mr_groups r)\<rparr>) = mock_owns r"
    using assms(1-3) by (auto simp: mock_ok_def mock_owns_def used_groups_def dest: in_set_dropD)
qed

lemma mock_ok_used: "mock_ok r \<Longrightarrow> \<forall>g \<in> set (used_groups r). wf_group g"
  by (auto simp: mock_ok_def used_groups_def dest: in_set_takeD)

lemma update_goal_progress_keeps:
  assumes "mock_ok r" "mock_robot_update_goal_progress p r w = (r', w')"
  shows "mock_ok r' \<and> mock_owns r' = mock_owns r"
proof -
  obtain gs w1 where run: "update_groups p (used_groups r) w = (gs, w1)"
    by fastforce
  have "\<forall>g \<in> set (used_groups r). wf_group g"
    using assms(1) by (rule mock_ok_used)
  note kept = update_groups_keeps[OF run this]
  have "r' = r\<lparr>mr_groups := gs @ drop (unat (mr_num_groups r)) (mr_groups r)\<rparr>"
    using assms(2) run by (simp add: mock_robot_update_goal_progress_def)
  then show ?thesis
    using mock_ok_replace[OF assms(1), of gs] kept by blast
qed

lemma mock_robot_update_keeps:
  assumes "mock_ok r"
  shows "\<exists>r' w'. mock_robot_update fade p r w = Inr (r', w') \<and> mock_ok r' \<and> mock_owns r' = mock_owns r"
proof -
  let ?r = "r\<lparr>mr_groups := map (fade_group fade) (used_groups r) @ drop (unat (mr_num_groups r)) (mr_groups r)\<rparr>"
  have wf: "\<forall>g \<in> set (used_groups r). wf_group g"
    using assms by (rule mock_ok_used)
  then have blocks: "stored_blocks (map (fade_group fade) (used_groups r)) = stored_blocks (used_groups r)"
    by (intro stored_blocks_map) (simp add: fade_group_keeps)
  have faded: "mock_ok ?r" "mock_owns ?r = mock_owns r"
    using mock_ok_replace[OF assms _ _ blocks] wf by (simp_all add: fade_group_keeps)
  have axes: "\<not> (\<exists>g \<in> set (used_groups r). MAX_AXES < unat (mg_num_axes g))"
    using wf by (auto simp: wf_group_def)
  obtain r1 w1 where on: "mock_robot_update_goal_progress p r w = (r1, w1)"
    by fastforce
  obtain r2 w2 where off: "mock_robot_update_goal_progress p ?r w = (r2, w2)"
    by fastforce
  show ?thesis
    using update_goal_progress_keeps[OF assms on] update_goal_progress_keeps[OF faded(1) off] faded(2) axes on off
    by (simp add: mock_robot_update_def)
qed

lemma start_lengths [simp]:
  "length start_positions = 8" "length start_velocities = 8" "length start_torques = 8"
  "length start_corrected = 8"
  by (simp_all add: start_positions_def start_velocities_def start_torques_def start_corrected_def)

lemma start_trajectory_safe:
  assumes h: "handled mock_owns mock_ok R w None r w1"
  shows "safe (mock_robot_start_trajectory r w1) (\<lambda>(e, r', w2). handled mock_owns mock_ok R w None r' w2)"
proof (cases "mr_servo_power_on r")
  case False
  have "handled mock_owns mock_ok R w None ((set_error_info power_message r)\<lparr>mr_in_error := True,
      mr_error_codes := (mr_error_codes r)[0 := 100], mr_error_count := 1\<rparr>) w1"
    by (rule handled_same_groups [OF h]) (simp_all add: set_error_info_def)
  then show ?thesis using False by (simp add: mock_robot_start_trajectory_def)
next
  case True
  have ok: "mock_ok r" using h by (simp add: handled_def user_inv_def)
  let ?g = "mr_groups r ! 0"
  let ?n = "unat (mg_num_axes ?g)"
  let ?h = "?g\<lparr>mg_trajectory_active := True, mg_in_motion := True,
    mg_positions := overwrite ?n start_positions (mg_positions ?g),
    mg_velocities := overwrite ?n start_velocities (mg_velocities ?g),
    mg_torques := overwrite ?n start_torques (mg_torques ?g),
    mg_corrected_positions := overwrite ?n start_corrected (mg_corrected_positions ?g)\<rparr>"
  have "wf_group ?g" using ok by (auto simp: mock_ok_def)
  then have "wf_group ?h" "stored_block ?h = stored_block ?g"
    by (simp_all add: wf_group_def stored_block_def)
  note upd = mock_update_group [OF ok this]
  have "handled mock_owns mock_ok R w None (r\<lparr>mr_groups := (mr_groups r)[0 := ?h]\<rparr>) w1"
    by (rule handled_user [OF h upd])
  then show ?thesis using True by (simp add: mock_robot_start_trajectory_def Let_def)
qed

lemma safe_if: "safe x Q \<Longrightarrow> safe y Q \<Longrightarrow> safe (if b then x else y) Q"
  by simp

lemma handle_command_safe:
  assumes h0: "handled mock_owns mock_ok R w None robot w"
  shows "safe (mock_robot_handle_command hdr payload robot w)
    (\<lambda>(rsp, r', w2). handled mock_owns mock_ok R w rsp r' w2)"
proof -
  let ?Q = "\<lambda>(rsp, r', w2). handled mock_owns mock_ok R w rsp r' w2"
  define r where "r = robot\<lparr>mr_command_count := mr_command_count robot + 1\<rparr>"
  have h: "handled mock_owns mock_ok R w None r (pr l s w)" "handled mock_owns mock_ok R w None r w" for l s
    using handled_same_groups [OF h0, of r] by (simp_all add: r_def)
  note groups = handled_same_groups [OF h(2)]
  have ok: "mock_ok r" using h(2) by (simp add: handled_def user_inv_def)
  have sized: "safe (sized n hdr f r w1) ?Q"
    if "handled mock_owns mock_ok R w None r w1" "safe (f r w1) ?Q" for n f w1
    using that handled_replies(1) [of mock_owns mock_ok R w r] by (simp add: sized_def)
  have reply: "safe (status_reply e r' w1) ?Q" "safe (boolean_reply ty v r' w1) ?Q" "safe (err_reply e r' w1) ?Q"
    if "handled mock_owns mock_ok R w None r' w1" for e r' w1 ty v
    using handled_replies [OF that] by blast+
  have trajectory: "safe (andThen (mock_robot_start_trajectory r (pr l s w)) (\<lambda>(e, r1, w1). status_reply e r1 w1)) ?Q" for l s
    by (rule safe_andThen [OF start_trajectory_safe [OF h(1)]]) (auto intro: reply)
  have power: "safe (let (e, r1, w1) = mock_robot_power_on r (pr l s w) in status_reply e r1 w1) ?Q" for l s
  proof -
    obtain t w1 where t: "get_timestamp_ms (pr l s w) = (t, w1)" by (cases "get_timestamp_ms (pr l s w)")
    have "handled mock_owns mock_ok R w None (r\<lparr>mr_servo_power_on := True, mr_drives_powered := True,
        mr_motion_possible := True, mr_last_heartbeat := t\<rparr>) w1"
      by (rule handled_same_groups [OF handled_timestamp [OF h(1) t]]) simp_all
    then show ?thesis by (simp add: mock_robot_power_on_def t reply)
  qed
  have heartbeat: "safe (let (now, w1) = get_timestamp_ms w; (e, r1) = mock_robot_heartbeat now r
      in status_reply e r1 w1) ?Q"
  proof -
    obtain t w1 where t: "get_timestamp_ms w = (t, w1)" by (cases "get_timestamp_ms w")
    have "handled mock_owns mock_ok R w None (r\<lparr>mr_last_heartbeat := t\<rparr>) w1"
      by (rule handled_same_groups [OF handled_timestamp [OF h(2) t]]) simp_all
    then show ?thesis by (simp add: mock_robot_heartbeat_def t reply)
  qed
  have errors: "safe (let (e, r1) = mock_robot_test_error_command r in status_reply e r1 (pr l s (pr l' s' w))) ?Q"
    "safe (let (e, r1) = mock_robot_reset_errors r in status_reply e r1 (pr l s (pr l' s' w))) ?Q" for l s l' s'
    using groups ok
    by (auto simp: mock_robot_test_error_command_def mock_robot_reset_errors_def set_error_info_def mock_ok_def
        intro!: reply)
  have mode: "safe (andThen (memcpy_from payload 0 1) (\<lambda>b.
      let (e, r1) = mock_robot_set_motion_mode (motion_mode_of b) r in status_reply e r1 (pr l s w1))) ?Q"
    if "handled mock_owns mock_ok R w None r w1" for l s w1
    using handled_same_groups [OF that]
    by (auto simp: memcpy_from_def mock_robot_set_motion_mode_def intro!: reply)
  have stop: "safe (stop_command payload r w1) ?Q" if "handled mock_owns mock_ok R w None r w1" for w1
  proof -
    have "safe (let (b, r1, w2) = (if gid = GROUP_ID_ALL then mock_robot_stop_motion r w1
        else mock_robot_stop_group gid r w1) in boolean_reply MSG_STOP_MOTION b r1 w2) ?Q" for gid
    proof -
      obtain b r1 w2 where s: "(if gid = GROUP_ID_ALL then mock_robot_stop_motion r w1
          else mock_robot_stop_group gid r w1) = (b, r1, w2)" by (cases "if gid = GROUP_ID_ALL
          then mock_robot_stop_motion r w1 else mock_robot_stop_group gid r w1")
      have k: "mock_ok r1" "mock_owns r1 = mock_owns r" "\<exists>l s. w2 = pr l s w1"
        using stop_motion_keeps [OF ok, of w1 b r1 w2] stop_group_keeps [OF ok, of gid w1 b r1 w2] s
        by (auto split: if_splits)
      have "handled mock_owns mock_ok R w None r1 w2"
        using k(3) handled_user [OF that k(1,2)] by auto
      then show ?thesis unfolding s by (simp add: reply)
    qed
    then show ?thesis unfolding stop_command_def by (intro safe_andThen [OF read_u32_safe])
  qed
  have cancel: "safe (andThen (read_u32 payload 0) (\<lambda>i.
      let (e, r1, w2) = mock_robot_cancel_goal i r w1 in status_reply e r1 w2)) ?Q"
    if "handled mock_owns mock_ok R w None r w1" for w1
  proof -
    have "safe (let (e, r1, w2) = mock_robot_cancel_goal i r w1 in status_reply e r1 w2) ?Q" for i
    proof -
      obtain e r1 w2 where c: "mock_robot_cancel_goal i r w1 = (e, r1, w2)"
        by (cases "mock_robot_cancel_goal i r w1")
      have "handled mock_owns mock_ok R w None r1 w2"
        using cancel_goal_keeps [OF ok c] handled_user [OF that, of r1] by auto
      then show ?thesis by (simp add: c reply)
    qed
    then show ?thesis by (intro safe_andThen [OF read_u32_safe])
  qed
  have group: "safe (check_group_command payload r w) ?Q"
    unfolding check_group_command_def by (rule safe_andThen [OF read_u32_safe]) (rule reply(2) [OF h(2)])
  have caps: "safe (handle_get_capabilities r (pr l s w)) ?Q" for l s
    unfolding handle_get_capabilities_def
    by (rule safe_andThen [OF handled_alloc [OF h(1)]]) (auto split: option.split intro: handled_store_reply)
  note cases = trajectory power heartbeat errors move_goal_command_safe [OF h(1)] echo_command_safe [OF h(1)]
    sized mode stop cancel goal_status_command_safe group caps reply h
  show ?thesis
    unfolding mock_robot_handle_command_def r_def [symmetric] Let_def [of r]
      Let_def [of "message_type hdr"]
    by (intro safe_if) (rule cases)+
qed

section \<open>The mock robot provides the callbacks\<close>

interpretation mock: command_handler mock_callbacks mock_owns mock_ok
proof unfold_locales
  fix f R u w ip port
  assume "on_connection mock_callbacks = Some f" and u: "user_inv mock_owns mock_ok R u w"
  moreover have "handled mock_owns mock_ok R w None (u\<lparr>mr_connection_count := mr_connection_count u + 1\<rparr>) w"
    by (rule handled_same_groups [OF handled_start [OF u]]) simp_all
  ultimately show "returns (f ip port u w) (\<lambda>(u', w'). handled mock_owns mock_ok R w None u' w')"
    by (auto simp: mock_callbacks_def mock_robot_on_connection_def)
next
  fix f R u w ip port
  assume f: "on_disconnection mock_callbacks = Some f" and u: "user_inv mock_owns mock_ok R u w"
  let ?u = "u\<lparr>mr_disconnection_count := mr_disconnection_count u + 1\<rparr>"
  have h: "handled mock_owns mock_ok R w None ?u w"
    by (rule handled_same_groups [OF handled_start [OF u]]) simp_all
  then have ok: "mock_ok ?u" by (simp add: handled_def user_inv_def)
  obtain b r1 w1 where s: "mock_robot_stop_motion ?u w = (b, r1, w1)" by (cases "mock_robot_stop_motion ?u w")
  have "handled mock_owns mock_ok R w None r1 w1"
    using stop_motion_keeps [OF ok s] handled_user [OF h, of r1] by auto
  then show "returns (f ip port u w) (\<lambda>(u', w'). handled mock_owns mock_ok R w None u' w')"
    using f by (auto simp: mock_callbacks_def mock_robot_on_disconnection_def s)
next
  fix g R u w h bs
  assume "handle_command mock_callbacks = Some g" and u: "user_inv mock_owns mock_ok R u w"
  then show "safe (g h bs u w) (\<lambda>(rsp, u', w'). acted mock_owns mock_ok R w rsp u' w')"
    by (auto simp: mock_callbacks_def intro!: safe_mono [OF handle_command_safe [OF handled_start [OF u]]] handled_acted)
next
  fix e R u w
  assume e: "get_error_info mock_callbacks = Some e" and u: "user_inv mock_owns mock_ok R u w"
  let ?r = "snd (mock_robot_get_error_info 512 u)"
  have h: "handled mock_owns mock_ok R w None ?r (pr l s w)" for l s
    using handled_same_groups [OF handled_start [OF u], of ?r] by (auto simp: mock_robot_get_error_info_def)
  show "safe (e u w) (\<lambda>(rsp, _, u', w'). handled mock_owns mock_ok R w rsp u' w')"
    using e safe_andThen [OF handled_alloc [OF h]]
    by (auto simp: mock_callbacks_def mock_robot_get_error_info_callback_def split_def MSG_OK_RESPONSE_def Let_def
        intro!: safe_andThen [OF handled_alloc [OF h]] safe_andThen [OF handled_store] split: option.split)
qed

section \<open>Properties of the mock robot\<close>

text \<open>C23. Every command keeps the robot well-typed and its memory in order. Started with a robot whose
  five groups have arrays of the declared lengths and whose stored trajectories are live blocks of
  their own and as long as recorded, a command - any type, any payload, any allocation failing -
  never frees a block twice or uses a freed one; when it returns, the robot is well-typed again,
  every other block is still there, and the only new ones are those of the response, which are
  handed over intact.\<close>

theorem mock_robot_stays_well_formed:
  assumes "heap_ok w" and "mock_ok r" and "mock_owns r \<subseteq> set (w_heap w)"
  shows "safe (mock_robot_handle_command h payload r w) (\<lambda>(rsp, r', w').
    mock_ok r' \<and> mock_owns r' \<subseteq> set (w_heap w') \<and> heap_ok w' \<and> rsp_ok rsp w' \<and>
    set (w_heap w') - mock_owns r' = (set (w_heap w) - mock_owns r) \<union> rsp_blocks rsp \<and>
    (set (w_heap w) - mock_owns r) \<inter> rsp_blocks rsp = {})"
proof -
  have "handle_command mock_callbacks = Some mock_robot_handle_command" by (simp add: mock_callbacks_def)
  moreover have "user_inv mock_owns mock_ok (set (w_heap w) - mock_owns r) r w"
    using assms by (simp add: user_inv_def)
  ultimately have "safe (mock_robot_handle_command h payload r w) (\<lambda>(rsp, r', w').
      acted mock_owns mock_ok (set (w_heap w) - mock_owns r) w rsp r' w')"
    by (rule mock.command_law)
  then show ?thesis by (rule safe_mono) (auto simp: acted_def user_inv_def)
qed

lemma initial_robot_ok [simp]: "mock_ok (initial_robot [zero_group])" "mock_owns (initial_robot [zero_group]) = {}"
  by (simp_all add: initial_robot_def mock_ok_def mock_owns_def stored_blocks_def stored_block_def
      wf_group_def zero_group_def)

theorem mock_robot_stays_well_formed_witness:
  "safe (mock_robot_handle_command (dec_header (replicate 18 0x0D)) [1, 2, 3] (initial_robot [zero_group]) ok_world)
     (\<lambda>(rsp, r', w'). mock_ok r' \<and> set (w_heap w') - mock_owns r' = rsp_blocks rsp)"
  by (rule safe_mono [OF mock_robot_stays_well_formed [of ok_world "initial_robot [zero_group]"]])
    (auto simp: heap_ok_def)

section \<open>What the tests of the mock robot do not see\<close>

text \<open>Cancelling goal \<open>0\<close>, which no goal ever has, succeeds on a robot that was never given a goal.\<close>

lemma cancel_goal_zero:
  "\<exists>r' w'. mock_robot_cancel_goal 0 (initial_robot [zero_group]) w = (0, r', w') \<and>
     mg_goal_state (mr_groups r' ! 0) = GOAL_STATE_CANCELLED"
  by (simp add: mock_robot_cancel_goal_def find_group_with_goal_def initial_robot_def zero_group_def)

text \<open>
  The status of a goal is sent with three fields never written: queue size, abort code and abort
  message are what the allocated block held before.
\<close>

lemma goal_status_leaks:
  assumes "mock_robot_get_goal_status i r status w = (0, status', w')" and "length status = GOAL_STATUS_SIZE"
  shows "gs_current_queue_size (dec_goal_status status') = dec_u32 (slice 4 4 status)"
    and "gs_abort_code (dec_goal_status status') = dec_u32 (slice 24 4 status)"
    and "gs_abort_message (dec_goal_status status') = slice 29 128 status"
proof -
  have "\<exists>a b c d. status' = enc_goal_status ((dec_goal_status status)
      \<lparr>gs_goal_id := a, gs_state := b, gs_progress := c, gs_timestamp_ms := d\<rparr>)"
    using assms(1) by (auto simp: mock_robot_get_goal_status_def Let_def split: option.splits prod.splits)
  then obtain a b c d where s: "status' = enc_goal_status ((dec_goal_status status)
      \<lparr>gs_goal_id := a, gs_state := b, gs_progress := c, gs_timestamp_ms := d\<rparr>)" by blast
  have "wf_goal_status ((dec_goal_status status)
      \<lparr>gs_goal_id := a, gs_state := b, gs_progress := c, gs_timestamp_ms := d\<rparr>)"
    using assms(2) by (simp add: wf_goal_status_def dec_goal_status_def)
  from dec_enc_goal_status [OF this]
  show "gs_current_queue_size (dec_goal_status status') = dec_u32 (slice 4 4 status)"
    "gs_abort_code (dec_goal_status status') = dec_u32 (slice 24 4 status)"
    "gs_abort_message (dec_goal_status status') = slice 29 128 status"
    by (simp_all add: s) (simp_all add: dec_goal_status_def)
qed

end
