(* ===== verification/ServerThreads.thy ===== *)
theory ServerThreads
  imports ServerProps MockRobot
begin

text \<open>
  The two threads of the server with the turn of the timeout thread cut where it lets go of the
  mutex: it judges the client under the lock, gives the lock back, and removes the client under
  the lock again. Between the two steps the TCP thread may run any number of turns. A step
  relation has the two steps and the TCP turns as its rules; the flag of a state says that the
  timeout thread has judged and not yet removed.
\<close>

section \<open>The turn of the timeout thread in two steps\<close>

definition timeout_check :: "'u robot_server_ctx \<Rightarrow> world \<Rightarrow> (bool \<times> world) res" where
  "timeout_check ctx w =
     (let (now, w1) = time_now w in
      andThen (lock_take (client_mutex ctx) w1) (\<lambda>(_, w2).
        if connected (client ctx) then
          if idle_too_long now (last_command (client ctx)) (connection_timeout_ms (config ctx)) then
            andThen (lock_give (client_mutex ctx) (pr_info ''Client timed out'' w2)) (\<lambda>(_, w3). Inr (True, w3))
          else andThen (lock_give (client_mutex ctx) w2) (\<lambda>(_, w3). Inr (False, w3))
        else andThen (lock_give (client_mutex ctx) w2) (\<lambda>(_, w3). Inr (False, w3))))"

lemma timeout_turn_steps:
  "timeout_turn ctx w =
     andThen (timeout_check ctx w) (\<lambda>(expired, w1). if expired then remove_client ctx w1 else Inr (ctx, w1))"
  by (auto simp: timeout_turn_def timeout_check_def andThen_assoc split_def Let_def intro!: andThen_cong)

inductive fine_step ::
  "nat \<Rightarrow> bool \<times> 'u robot_server_ctx \<times> world \<Rightarrow> bool \<times> 'u robot_server_ctx \<times> world \<Rightarrow> bool" for policy where
  tcp: "tcp_turn policy ctx w = Inr (go_on, ctx1, w1) \<Longrightarrow> fine_step policy (p, ctx, w) (p, ctx1, w1)"
| judge: "timeout_check ctx w = Inr (expired, w1) \<Longrightarrow> fine_step policy (False, ctx, w) (expired, ctx, w1)"
| remove: "remove_client ctx w = Inr (ctx1, w1) \<Longrightarrow> fine_step policy (True, ctx, w) (False, ctx1, w1)"

inductive_cases fine_stepE: "fine_step policy (p, ctx, w) s"

text \<open>A whole turn of the timeout thread is one or two steps.\<close>

lemma timeout_turn_fine:
  assumes "timeout_turn ctx w = Inr (ctx1, w1)"
  shows "(fine_step policy)\<^sup>*\<^sup>* (False, ctx, w) (False, ctx1, w1)"
proof -
  obtain e w2 where c: "timeout_check ctx w = Inr (e, w2)"
    "(if e then remove_client ctx w2 else Inr (ctx, w2)) = Inr (ctx1, w1)"
    using assms by (auto simp: timeout_turn_steps andThen_eq_Inr)
  have j: "fine_step policy (False, ctx, w) (e, ctx, w2)" by (rule judge [OF c(1)])
  show ?thesis
  proof (cases e)
    case True
    then have "fine_step policy (e, ctx, w2) (False, ctx1, w1)" using c(2) by (simp add: remove)
    with j show ?thesis by (meson converse_rtranclp_into_rtranclp r_into_rtranclp)
  next
    case False
    then show ?thesis using j c(2) by auto
  qed
qed

section \<open>The invariant over the finer steps\<close>

lemma timeout_check_safe:
  assumes inv: "server_inv owns ok ctx0 R ctx w"
  shows "holds F (timeout_check ctx w)
    (\<lambda>(_, w1). server_inv owns ok ctx0 R ctx w1 \<and> w_fds w1 = w_fds w \<and> w_trace w1 = w_trace w)"
proof -
  have i1: "server_inv owns ok ctx0 R ctx (tick w)" by (rule server_inv_frame [OF inv]) simp_all
  show ?thesis
    unfolding timeout_check_def time_now_def Let_def prod.case
    by (rule take_safe [OF i1]) (auto intro!: give_safe [OF _ refl] intro: locked_inv_frame)
qed

lemma fine_step_inv:
  assumes "command_handler (callbacks (config ctx0)) owns ok"
    and "fine_step policy (p, ctx, w) (p', ctx', w')" and "server_inv owns ok ctx0 R ctx w"
  shows "server_inv owns ok ctx0 R ctx' w'"
  using assms(2)
  by (elim fine_stepE)
    (auto dest: safe_InrD [OF command_handler.tcp_turn_safe [OF assms(1,3) refl]]
      safe_InrD [OF timeout_check_safe [OF assms(3)]]
      safe_InrD [OF command_handler.remove_client_safe [OF assms(1,3) refl]])

text \<open>The invariant of the server holds in every state that the two threads reach when TCP turns
  are interleaved between the judgement and the removal of the timeout thread; no turn that is
  possible there frees a block or uses a semaphore that is not allocated, and both steps of the
  timeout thread return. In particular this holds for the server of the example program,
  whose callbacks are those of the mock robot.\<close>

theorem fine_grained_invariant:
  assumes "command_handler (callbacks (config ctx0)) owns ok" and "server_inv owns ok ctx0 R ctx w"
    and "(fine_step policy)\<^sup>*\<^sup>* (False, ctx, w) (p, ctx', w')"
  shows "server_inv owns ok ctx0 R ctx' w' \<and> safe (tcp_turn policy ctx' w') (\<lambda>_. True) \<and>
    returns (timeout_check ctx' w') (\<lambda>_. True) \<and> returns (remove_client ctx' w') (\<lambda>_. True)"
proof -
  have inv: "server_inv owns ok ctx0 R ctx' w'"
    using assms(3)
  proof (induction "(p, ctx', w')" arbitrary: p ctx' w' rule: rtranclp_induct)
    case base
    then show ?case using assms(2) by simp
  next
    case (step s)
    obtain p1 c1 v1 where s: "s = (p1, c1, v1)" by (cases s)
    show ?case by (rule fine_step_inv [OF assms(1) step(2) [unfolded s] step(3) [OF s]])
  qed
  then show ?thesis
    using safe_mono [OF command_handler.tcp_turn_safe [OF assms(1) inv refl], of "\<lambda>_. True"]
      safe_mono [OF timeout_check_safe [OF inv], of "\<lambda>_. True"]
      safe_mono [OF command_handler.remove_client_safe [OF assms(1) inv refl], of "\<lambda>_. True"] by simp
qed

text \<open>The server of the example program, with the robot as it is after \<open>mock_robot_init\<close>.\<close>

definition mock_server :: "mock_robot robot_server_ctx" where
  "mock_server = \<lparr>tcp_socket = 3, udp_socket = 4, running = 1, tcp_thread = 1, timeout_thread = 2,
     client_mutex = Some 1, config = \<lparr>tcp_port = 27654, udp_port = 27655,
       connection_timeout_ms = 1000, callbacks = mock_callbacks\<rparr>,
     client = zero_client, user_data = initial_robot [zero_group], ctx_addr = 0\<rparr>"

lemma mock_server_inv: "server_inv mock_owns mock_ok mock_server {0, 1} mock_server (ex_net q)"
proof -
  have groups: "wf_group zero_group" "stored_block zero_group = []"
    by (simp_all add: wf_group_def stored_block_def zero_group_def)
  then have "mock_ok (user_data mock_server)" "mock_owns (user_data mock_server) = {}"
    by (simp_all add: mock_server_def initial_robot_def mock_ok_def mock_owns_def stored_blocks_def)
  moreover have "client mock_server = zero_client" "client_mutex mock_server = Some 1" "tcp_socket mock_server = 3"
    by (simp_all add: mock_server_def)
  ultimately show ?thesis
    by (auto simp: server_inv_def user_inv_def heap_ok_def lock_held_def client_inv_def client_rec_inv_def)
qed

theorem fine_grained_invariant_witness:
  "(fine_step 1)\<^sup>*\<^sup>* (False, mock_server, ex_net []) (False, mock_server, ex_net []) \<and>
   safe (tcp_turn 1 mock_server (ex_net [])) (\<lambda>_. True)"
proof -
  have "command_handler (callbacks (config mock_server)) mock_owns mock_ok"
    using mock.command_handler_axioms by (simp add: mock_server_def)
  from fine_grained_invariant [OF this mock_server_inv rtranclp.rtrancl_refl] show ?thesis by simp
qed

section \<open>The gap between the two steps\<close>

lemma judge_under_lock:
  assumes "lock_held 1 ctx w"
  obtains w1 where "timeout_check ctx w =
      Inr (connected (client ctx) \<and> idle_too_long (e_time (w_env w) (w_calls w)) (last_command (client ctx))
             (connection_timeout_ms (config ctx)), w1)"
    and "lock_held 1 ctx w1" and "w_trace w1 = w_trace w" and "w_fds w1 = w_fds w" and "w_inq w1 = w_inq w"
proof -
  have "lock_held 1 ctx (tick w)" using assms by (rule lock_held_frame) simp_all
  then obtain w1 where t: "lock_take (client_mutex ctx) (tick w) = Inr (0, w1)" "lock_held 0 ctx w1"
    "w_trace w1 = w_trace w" "w_fds w1 = w_fds w" "w_inq w1 = w_inq w"
    by (rule lock_take_inv) simp
  obtain w2 where g: "lock_give (client_mutex ctx) w1 = Inr (0, w2)" "lock_held 1 ctx w2"
    "w_trace w2 = w_trace w1" "w_fds w2 = w_fds w1" "w_inq w2 = w_inq w1"
    by (rule lock_give_inv [OF t(2)])
  have "lock_held 0 ctx (pr_info ''Client timed out'' w1)" using t(2) by (rule lock_held_frame) simp_all
  then obtain w3 where g3: "lock_give (client_mutex ctx) (pr_info ''Client timed out'' w1) = Inr (0, w3)"
    "lock_held 1 ctx w3" "w_trace w3 = w_trace w1" "w_fds w3 = w_fds w1" "w_inq w3 = w_inq w1"
    by (rule lock_give_inv) simp
  show thesis
  proof (cases "connected (client ctx) \<and> idle_too_long (e_time (w_env w) (w_calls w)) (last_command (client ctx))
      (connection_timeout_ms (config ctx))")
    case True
    then show thesis
      by (intro that [of w3]) (use t g3 in \<open>simp_all add: timeout_check_def time_now_def\<close>)
  next
    case False
    then show thesis
      by (intro that [of w2]) (use t g in \<open>auto simp: timeout_check_def time_now_def\<close>)
  qed
qed

lemma remove_under_lock:
  assumes "lock_held 1 ctx w" and "on_disconnection (callbacks (config ctx)) = None"
    and "connected (client ctx)" and "client_socket (client ctx) \<in> set (w_fds w)"
  obtains w1 where "remove_client ctx w = Inr (ctx\<lparr>client := zero_client\<rparr>, w1)"
    and "w_trace w1 = w_trace w @ [EvClose (client_socket (client ctx))]"
    and "w_fds w1 = removeAll (client_socket (client ctx)) (w_fds w)" and "w_inq w1 = w_inq w"
proof -
  obtain w1 where t: "lock_take (client_mutex ctx) w = Inr (0, w1)" "lock_held 0 ctx w1"
    "w_trace w1 = w_trace w" "w_fds w1 = w_fds w" "w_inq w1 = w_inq w"
    by (rule lock_take_inv [OF assms(1)])
  let ?s = "client_socket (client ctx)"
  let ?w2 = "emit (EvClose ?s) ((pr_info ''Client disconnected'' w1)\<lparr>w_fds := removeAll ?s (w_fds w1)\<rparr>)"
  have close: "platform_close ?s (pr_info ''Client disconnected'' w1) = (0, ?w2)"
    using assms(4) t(4) by (simp add: platform_close_def)
  have "lock_held 0 ctx ?w2" using t(2) by (rule lock_held_frame) simp_all
  then obtain w3 where g: "lock_give (client_mutex ctx) ?w2 = Inr (0, w3)" "w_trace w3 = w_trace ?w2"
      "w_fds w3 = w_fds ?w2" "w_inq w3 = w_inq ?w2"
    by (rule lock_give_inv)
  show thesis
    by (rule that [of w3])
      (use t(1,3-5) g close assms(2,3) in \<open>simp_all add: remove_client_def call_connection_def\<close>)
qed

text \<open>The gap: once the timeout thread has judged some client idle and let go of the mutex, it
  disconnects whichever client is connected when it comes back - one that sent a command in the
  meantime, or one that was accepted in the meantime - although the same thread, judging the same
  state, would leave that client connected.\<close>

theorem timeout_removes_active_client:
  assumes "lock_held 1 ctx w" and "on_disconnection (callbacks (config ctx)) = None"
    and "connected (client ctx)" and "client_socket (client ctx) \<in> set (w_fds w)"
    and "\<not> idle_too_long (e_time (w_env w) (w_calls w)) (last_command (client ctx))
           (connection_timeout_ms (config ctx))"
  shows "(\<exists>w1. fine_step policy (False, ctx, w) (False, ctx, w1) \<and> w_trace w1 = w_trace w) \<and>
    (\<exists>w1. fine_step policy (True, ctx, w) (False, ctx\<lparr>client := zero_client\<rparr>, w1) \<and>
       w_trace w1 = w_trace w @ [EvClose (client_socket (client ctx))])"
proof
  obtain w1 where "timeout_check ctx w = Inr (False, w1)" "w_trace w1 = w_trace w"
    by (rule judge_under_lock [OF assms(1)]) (use assms(5) in auto)
  then show "\<exists>w1. fine_step policy (False, ctx, w) (False, ctx, w1) \<and> w_trace w1 = w_trace w"
    by (intro exI [of _ w1] conjI judge)
next
  obtain w1 where "remove_client ctx w = Inr (ctx\<lparr>client := zero_client\<rparr>, w1)"
    "w_trace w1 = w_trace w @ [EvClose (client_socket (client ctx))]"
    by (rule remove_under_lock [OF assms(1-4)])
  then show "\<exists>w1. fine_step policy (True, ctx, w) (False, ctx\<lparr>client := zero_client\<rparr>, w1) \<and>
      w_trace w1 = w_trace w @ [EvClose (client_socket (client ctx))]"
    by (intro exI [of _ w1] conjI remove)
qed

text \<open>The client was heard from at second 2, and it is second 2.\<close>

theorem timeout_removes_active_client_witness:
  "\<exists>w1. fine_step 1 (True, ex_server\<lparr>client := ex_client\<lparr>last_command := 2\<rparr>\<rparr>,
       ex_net []\<lparr>w_env := ok_env\<lparr>e_time := \<lambda>_. 2\<rparr>\<rparr>)
     (False, ex_server\<lparr>client := zero_client\<rparr>, w1) \<and> w_trace w1 = [EvClose 5]"
proof -
  let ?ctx = "ex_server\<lparr>client := ex_client\<lparr>last_command := 2\<rparr>\<rparr>"
    and ?w = "ex_net []\<lparr>w_env := ok_env\<lparr>e_time := \<lambda>_. 2\<rparr>\<rparr>"
  have "lock_held 1 ?ctx ?w" by (simp add: lock_held_def)
  from timeout_removes_active_client [OF this, of 1] show ?thesis
    by (simp add: no_callbacks_def idle_too_long_def)
qed

end
