(* ===== verification/Lifecycle.thy ===== *)
theory Lifecycle
  imports ServerProps
begin

text \<open>
  The public operations of \<open>robot_protocol.c\<close>: creating, starting, stopping and destroying a
  server, and the two kinds of status datagrams. A NULL context is \<open>None\<close>. Starting a thread
  records its identifier; what the threads do is the subject of \<open>Server\<close>.
\<close>

section \<open>Operations\<close>


text \<open>
  The context, whose size is positive, is zeroed before it is compared with NULL.
\<close>

definition robot_protocol_create ::
  "'u robot_server_config \<Rightarrow> 'u \<Rightarrow> world \<Rightarrow> ('u robot_server_ctx option \<times> world) res" where
  "robot_protocol_create cfg u w =
     (case malloc w of
        (None, _) \<Rightarrow> Inl NullDeref
      | (Some a, w1) \<Rightarrow>
          let ctx = \<lparr>tcp_socket = -1, udp_socket = -1, running = 0, tcp_thread = 0,
                timeout_thread = 0, client_mutex = None, config = cfg, client = zero_client,
                user_data = u, ctx_addr = a\<rparr> in
          andThen (lock_create w1) (\<lambda>(l, w2).
            if l = None then Inr (None, w2) else Inr (Some (ctx\<lparr>client_mutex := l\<rparr>), w2)))"

text \<open>
  \<open>setsockopt\<close>, whose result is not looked at, has no effect that the model could see.
\<close>

definition robot_protocol_start ::
  "'u robot_server_ctx option \<Rightarrow> world \<Rightarrow> int \<times> 'u robot_server_ctx option \<times> world" where
  "robot_protocol_start p w =
     (case p of
        None \<Rightarrow> (-1, p, w)
      | Some ctx0 \<Rightarrow>
          let (s, w1) = platform_socket w; ctx1 = ctx0\<lparr>tcp_socket := s\<rparr> in
          if s < 0 then (-1, Some ctx1, pr_error ''Failed to create TCP socket'' w1)
          else let (b, w2) = platform_bind s w1 in
          if b < 0 then
            let (_, w3) = platform_close s (pr_error ''TCP bind failed'' w2) in (-1, Some ctx1, w3)
          else let (l, w3) = platform_listen s w2 in
          if l < 0 then
            let (_, w4) = platform_close s (pr_error ''TCP listen failed'' w3) in (-1, Some ctx1, w4)
          else let (d, w4) = platform_socket w3; ctx2 = ctx1\<lparr>udp_socket := d\<rparr> in
          if d < 0 then
            let (_, w5) = platform_close s (pr_error ''Failed to create UDP socket'' w4)
            in (-1, Some ctx2, w5)
          else let (b2, w5) = platform_bind d w4 in
          if b2 < 0 then
            let (_, w6) = platform_close s (pr_error ''UDP bind failed'' w5);
                (_, w7) = platform_close d w6
            in (-1, Some ctx2, w7)
          else
            let (t1, w6) = platform_pthread_create (pr_info ''Server started'' w5);
                (t2, w7) = platform_pthread_create w6
            in (0, Some (ctx2\<lparr>running := 1, tcp_thread := t1, timeout_thread := t2\<rparr>), w7))"

definition close_if_open :: "int \<Rightarrow> world \<Rightarrow> world" where
  "close_if_open fd w = (if 0 \<le> fd then snd (platform_close fd w) else w)"

definition join_if_started :: "bool \<Rightarrow> nat \<Rightarrow> world \<Rightarrow> world res" where
  "join_if_started ended t w = (if t \<noteq> 0 then platform_pthread_join ended t w else Inr w)"

text \<open>
  Stopping has two parts. The first asks the threads to end: it clears the flag that their loops
  read and shuts the listening socket down. The second waits for them and closes the sockets; between
  the two the threads go on with what they are doing, which is the subject of \<open>ServerRaces\<close> and
  \<open>ExampleServer\<close>.
\<close>

definition stop_request :: "'u robot_server_ctx \<Rightarrow> world \<Rightarrow> 'u robot_server_ctx \<times> world" where
  "stop_request ctx w =
     (ctx\<lparr>running := 0\<rparr>, if 0 \<le> tcp_socket ctx then platform_shutdown (tcp_socket ctx) w else w)"

definition stop_finish ::
  "bool \<Rightarrow> 'u robot_server_ctx \<Rightarrow> world \<Rightarrow> ('u robot_server_ctx option \<times> world) res" where
  "stop_finish ended ctx w =
     andThen (join_if_started ended (tcp_thread ctx) w) (\<lambda>w2.
     andThen (join_if_started ended (timeout_thread ctx) w2) (\<lambda>w3.
     andThen (lock_take (client_mutex ctx) w3) (\<lambda>(_, w4).
       let w5 = (if connected (client ctx)
                 then snd (platform_close (client_socket (client ctx)) w4) else w4);
           c = (if connected (client ctx) then zero_client else client ctx)
       in andThen (lock_give (client_mutex ctx) w5) (\<lambda>(_, w6).
         let w7 = close_if_open (tcp_socket ctx) w6;
             w8 = close_if_open (udp_socket ctx) w7
         in Inr (Some (ctx\<lparr>tcp_thread := 0, timeout_thread := 0, client := c,
                  tcp_socket := (if 0 \<le> tcp_socket ctx then -1 else tcp_socket ctx),
                  udp_socket := (if 0 \<le> udp_socket ctx then -1 else udp_socket ctx)\<rparr>),
                pr_info ''Network server stopped'' w8)))))"

text \<open>
  The whole operation when the threads of the server have nothing in hand: each ends when it reads
  the flag, and would never end if the flag were still set.
\<close>

definition robot_protocol_stop ::
  "'u robot_server_ctx option \<Rightarrow> world \<Rightarrow> ('u robot_server_ctx option \<times> world) res" where
  "robot_protocol_stop p w =
     (case p of
        None \<Rightarrow> Inr (None, w)
      | Some ctx \<Rightarrow> let (ctx1, w1) = stop_request ctx w in stop_finish (running ctx1 = 0) ctx1 w1)"

definition robot_protocol_is_running :: "'u robot_server_ctx option \<Rightarrow> int" where
  "robot_protocol_is_running p = (case p of None \<Rightarrow> 0 | Some ctx \<Rightarrow> running ctx)"

definition robot_protocol_destroy ::
  "'u robot_server_ctx option \<Rightarrow> world \<Rightarrow> world res" where
  "robot_protocol_destroy p w =
     (case p of
        None \<Rightarrow> Inr w
      | Some ctx \<Rightarrow>
          andThen (robot_protocol_stop p w) (\<lambda>(_, w1).
          andThen (if client_mutex ctx = None then Inr w1
                   else andThen (lock_destroy (client_mutex ctx) w1) (\<lambda>(_, w2). Inr w2))
            (\<lambda>w2. platform_free (Some (ctx_addr ctx)) w2)))"

text \<open>The two senders differ in message type and payload only.\<close>

definition send_datagram ::
  "'u robot_server_ctx \<Rightarrow> message_type \<Rightarrow> byte list \<Rightarrow> world \<Rightarrow> int \<times> world" where
  "send_datagram ctx type body w =
     (let (now, w1) = get_timestamp_ms w;
          header = \<lparr>magic_number = PROTOCOL_MAGIC_NUMBER, version = PROTOCOL_VERSION,
            message_type = msg_num type, timestamp_ms = now,
            payload_length = word_of_nat (length body)\<rparr>;
          udp_addr = (client_addr (client ctx))
            \<lparr>sin_port := platform_htons (registered_udp_port (client ctx))\<rparr>;
          (r, w2) = platform_sendto (udp_socket ctx) (enc_header header @ body) udp_addr w1
      in if 0 < r then (1, w2) else (0, w2))"

definition robot_protocol_send_position_velocity_torque ::
  "'u robot_server_ctx option \<Rightarrow> status_payload option \<Rightarrow> world \<Rightarrow> int \<times> world" where
  "robot_protocol_send_position_velocity_torque p status w =
     (case (p, status) of
        (Some ctx, Some s) \<Rightarrow>
          if \<not> connected (client ctx) then (-1, w)
          else if \<not> udp_port_registered (client ctx) then (0, w)
          else send_datagram ctx MSG_ROBOT_POSITION_VELOCITY_TORQUE (enc_status s) w
      | _ \<Rightarrow> (-1, w))"

definition robot_protocol_send_robot_status ::
  "'u robot_server_ctx option \<Rightarrow> robot_status_payload option \<Rightarrow> world \<Rightarrow> int \<times> world" where
  "robot_protocol_send_robot_status p status w =
     (case (p, status) of
        (Some ctx, Some s) \<Rightarrow>
          if \<not> connected (client ctx) then (-1, w)
          else if \<not> udp_port_registered (client ctx) then (0, w)
          else send_datagram ctx MSG_ROBOT_STATUS (enc_robot_status s) w
      | _ \<Rightarrow> (-1, w))"

section \<open>Status datagrams\<close>

text \<open>The datagrams in a stretch of output.\<close>

fun datagrams :: "event list \<Rightarrow> (int \<times> byte list \<times> sockaddr_in) list" where
  "datagrams [] = []"
| "datagrams (EvSendto fd bs dest # evs) = (fd, bs, dest) # datagrams evs"
| "datagrams (ev # evs) = datagrams evs"

lemma send_datagram_spec:
  assumes "udp_socket ctx \<in> set (w_fds w)" and "e_send (w_env w) (Suc (w_calls w)) = Inr k"
  shows "\<exists>t w'. send_datagram ctx type body w = (1, w') \<and>
    w_trace w' = w_trace w @ [EvSendto (udp_socket ctx)
      (enc_header \<lparr>magic_number = PROTOCOL_MAGIC_NUMBER, version = PROTOCOL_VERSION,
         message_type = msg_num type, timestamp_ms = t,
         payload_length = word_of_nat (length body)\<rparr> @ body)
      ((client_addr (client ctx))\<lparr>sin_port := platform_htons (registered_udp_port (client ctx))\<rparr>)]"
  using assms
  by (simp add: send_datagram_def get_timestamp_ms_def clock_gettime_def platform_sendto_def Let_def)
    (rule exI, rule refl)

text \<open>Status datagrams: without a context, a status or a client the result is \<open>-1\<close>, without a
  registered port \<open>0\<close>, and nothing is sent; otherwise, when the operating system takes it, one
  datagram of 18 + 267 bytes goes from the UDP socket to the address of the TCP client with the
  port the client registered (not the configured one), and its payload decodes to the status.\<close>

theorem status_goes_to_registered_port:
  assumes "wf_status s" and "udp_socket ctx \<in> set (w_fds w)"
    and "e_send (w_env w) (Suc (w_calls w)) = Inr k"
  shows "if \<not> connected (client ctx)
    then robot_protocol_send_position_velocity_torque (Some ctx) (Some s) w = (-1, w)
    else if \<not> udp_port_registered (client ctx)
    then robot_protocol_send_position_velocity_torque (Some ctx) (Some s) w = (0, w)
    else \<exists>w' bytes dest. robot_protocol_send_position_velocity_torque (Some ctx) (Some s) w = (1, w') \<and>
      w_trace w' = w_trace w @ [EvSendto (udp_socket ctx) bytes dest] \<and> length bytes = 285 \<and>
      dec_status (drop HEADER_SIZE bytes) = s \<and>
      message_type (dec_header (take HEADER_SIZE bytes)) = msg_num MSG_ROBOT_POSITION_VELOCITY_TORQUE \<and>
      sin_addr dest = sin_addr (client_addr (client ctx)) \<and>
      platform_ntohs (sin_port dest) = registered_udp_port (client ctx)"
proof -
  obtain t w' where sent: "send_datagram ctx MSG_ROBOT_POSITION_VELOCITY_TORQUE (enc_status s) w = (1, w')"
    "w_trace w' = w_trace w @ [EvSendto (udp_socket ctx)
      (enc_header \<lparr>magic_number = PROTOCOL_MAGIC_NUMBER, version = PROTOCOL_VERSION,
         message_type = msg_num MSG_ROBOT_POSITION_VELOCITY_TORQUE, timestamp_ms = t,
         payload_length = word_of_nat (length (enc_status s))\<rparr> @ enc_status s)
      ((client_addr (client ctx))\<lparr>sin_port := platform_htons (registered_udp_port (client ctx))\<rparr>)]"
    using send_datagram_spec [OF assms(2,3), of MSG_ROBOT_POSITION_VELOCITY_TORQUE "enc_status s"] by blast
  then show ?thesis
    using assms(1)
    by (auto simp: robot_protocol_send_position_velocity_torque_def dec_enc_status htons_ntohs)
qed

theorem status_goes_to_registered_port_witness:
  "robot_protocol_send_position_velocity_torque (Some (ex_server\<lparr>client := ex_client\<rparr>)) (Some ex_status)
     (ex_net []) = (0, ex_net [])"
  using status_goes_to_registered_port [of ex_status "ex_server\<lparr>client := ex_client\<rparr>" "ex_net []" 1000000]
  by (simp add: ex_server_def ex_client_def zero_client_def)

section \<open>Stopping\<close>

text \<open>The sockets that a server holds, or believes it holds; a negative number is none.\<close>

definition fd_list :: "int \<Rightarrow> int list" where
  "fd_list fd = (if 0 \<le> fd then [fd] else [])"

definition held_sockets :: "'u robot_server_ctx \<Rightarrow> int list" where
  "held_sockets ctx = (if connected (client ctx) then [client_socket (client ctx)] else []) @
     fd_list (tcp_socket ctx) @ fd_list (udp_socket ctx)"

definition holds_sockets :: "'u robot_server_ctx \<Rightarrow> world \<Rightarrow> bool" where
  "holds_sockets ctx w \<longleftrightarrow> distinct (held_sockets ctx) \<and> set (held_sockets ctx) \<subseteq> set (w_fds w)"

definition close_events :: "int list \<Rightarrow> event list" where
  "close_events fds = map EvClose fds"

definition shutdown_events :: "'u robot_server_ctx \<Rightarrow> event list" where
  "shutdown_events ctx = map EvShutdown (fd_list (tcp_socket ctx)) @
     (if tcp_thread ctx \<noteq> 0 then [EvJoin (tcp_thread ctx)] else []) @
     (if timeout_thread ctx \<noteq> 0 then [EvJoin (timeout_thread ctx)] else [])"

definition join_events :: "'u robot_server_ctx \<Rightarrow> event list" where
  "join_events ctx = (if tcp_thread ctx \<noteq> 0 then [EvJoin (tcp_thread ctx)] else []) @
     (if timeout_thread ctx \<noteq> 0 then [EvJoin (timeout_thread ctx)] else [])"

lemma shutdown_join_events:
  "shutdown_events ctx = map EvShutdown (fd_list (tcp_socket ctx)) @ join_events ctx"
  by (simp add: shutdown_events_def join_events_def)

definition joined :: "nat \<Rightarrow> world \<Rightarrow> world" where
  "joined t w = (if t \<noteq> 0 then emit (EvJoin t) w else w)"

lemma join_ended: "join_if_started True t w = Inr (joined t w)"
  by (simp add: join_if_started_def platform_pthread_join_def joined_def)

lemma joined_sel [simp]:
  "w_env (joined t w) = w_env w" "w_heap (joined t w) = w_heap w"
  "w_sems (joined t w) = w_sems w" "w_fds (joined t w) = w_fds w"
  "w_next (joined t w) = w_next w" "w_inq (joined t w) = w_inq w"
  "w_trace (joined t w) = w_trace w @ (if t \<noteq> 0 then [EvJoin t] else [])"
  by (simp_all add: joined_def)

lemma close_sel [simp]:
  "w_env (snd (platform_close fd w)) = w_env w" "w_heap (snd (platform_close fd w)) = w_heap w"
  "w_sems (snd (platform_close fd w)) = w_sems w" "w_next (snd (platform_close fd w)) = w_next w"
  "w_calls (snd (platform_close fd w)) = w_calls w"
  by (simp_all add: platform_close_def)

lemma close_open_sel:
  assumes "fd \<in> set (w_fds w)"
  shows "w_fds (snd (platform_close fd w)) = filter (\<lambda>x. x \<notin> set [fd]) (w_fds w)"
    and "w_trace (snd (platform_close fd w)) = w_trace w @ close_events [fd]"
  using assms by (auto simp: platform_close_def removeAll_filter_not_eq close_events_def intro!: filter_cong)

lemma close_if_open_sel:
  assumes "set (fd_list fd) \<subseteq> set (w_fds w)"
  shows "w_fds (close_if_open fd w) = filter (\<lambda>x. x \<notin> set (fd_list fd)) (w_fds w)"
    and "w_trace (close_if_open fd w) = w_trace w @ close_events (fd_list fd)"
  using assms close_open_sel [of fd w]
  by (auto simp: close_if_open_def fd_list_def close_events_def)

lemma close_if_open_frame [simp]:
  "w_env (close_if_open fd w) = w_env w" "w_heap (close_if_open fd w) = w_heap w"
  "w_sems (close_if_open fd w) = w_sems w" "w_next (close_if_open fd w) = w_next w"
  by (simp_all add: close_if_open_def)

lemma shutdown_sel [simp]:
  "w_env (platform_shutdown fd w) = w_env w" "w_heap (platform_shutdown fd w) = w_heap w"
  "w_sems (platform_shutdown fd w) = w_sems w" "w_fds (platform_shutdown fd w) = w_fds w"
  "w_next (platform_shutdown fd w) = w_next w"
  "w_trace (platform_shutdown fd w) = w_trace w @ [EvShutdown fd]"
  by (simp_all add: platform_shutdown_def)

definition stopped :: "'u robot_server_ctx \<Rightarrow> 'u robot_server_ctx" where
  "stopped ctx = ctx\<lparr>running := 0, tcp_thread := 0, timeout_thread := 0,
     client := (if connected (client ctx) then zero_client else client ctx),
     tcp_socket := (if 0 \<le> tcp_socket ctx then -1 else tcp_socket ctx),
     udp_socket := (if 0 \<le> udp_socket ctx then -1 else udp_socket ctx)\<rparr>"

lemma close_events_append: "close_events (xs @ ys) = close_events xs @ close_events ys"
  by (simp add: close_events_def)

text \<open>The three closes, one after the other.\<close>

lemma close_all:
  assumes "holds_sockets ctx w"
  defines "w5 \<equiv> (if connected (client ctx) then snd (platform_close (client_socket (client ctx)) w) else w)"
  assumes "w_fds w6 = w_fds w5" and "w_trace w6 = w_trace w5"
  shows "w_fds (close_if_open (udp_socket ctx) (close_if_open (tcp_socket ctx) w6)) =
      filter (\<lambda>fd. fd \<notin> set (held_sockets ctx)) (w_fds w)"
    and "w_trace (close_if_open (udp_socket ctx) (close_if_open (tcp_socket ctx) w6)) =
      w_trace w @ close_events (held_sockets ctx)"
proof -
  let ?c = "if connected (client ctx) then [client_socket (client ctx)] else []"
  have c: "w_fds w5 = filter (\<lambda>x. x \<notin> set ?c) (w_fds w)" "w_trace w5 = w_trace w @ close_events ?c"
    using assms(1) close_open_sel [of "client_socket (client ctx)" w]
    by (auto simp: w5_def holds_sockets_def held_sockets_def close_events_def)
  have t: "set (fd_list (tcp_socket ctx)) \<subseteq> set (w_fds w6)"
    using assms(1,3) c(1) by (auto simp: holds_sockets_def held_sockets_def)
  have u: "set (fd_list (udp_socket ctx)) \<subseteq> set (w_fds (close_if_open (tcp_socket ctx) w6))"
    using assms(1,3) c(1) close_if_open_sel(1) [OF t] by (auto simp: holds_sockets_def held_sockets_def)
  show "w_fds (close_if_open (udp_socket ctx) (close_if_open (tcp_socket ctx) w6)) =
      filter (\<lambda>fd. fd \<notin> set (held_sockets ctx)) (w_fds w)"
    unfolding close_if_open_sel(1) [OF u] close_if_open_sel(1) [OF t] assms(3) c(1) filter_filter
    by (rule filter_cong) (auto simp: held_sockets_def)
  show "w_trace (close_if_open (udp_socket ctx) (close_if_open (tcp_socket ctx) w6)) =
      w_trace w @ close_events (held_sockets ctx)"
    unfolding close_if_open_sel(2) [OF u] close_if_open_sel(2) [OF t] assms(4) c(2)
    by (simp add: held_sockets_def close_events_append)
qed

lemma stop_request_sel [simp]:
  "running (fst (stop_request ctx w)) = 0" "tcp_socket (fst (stop_request ctx w)) = tcp_socket ctx"
  "client (fst (stop_request ctx w)) = client ctx" "client_mutex (fst (stop_request ctx w)) = client_mutex ctx"
  "w_env (snd (stop_request ctx w)) = w_env w" "w_heap (snd (stop_request ctx w)) = w_heap w"
  "w_sems (snd (stop_request ctx w)) = w_sems w" "w_fds (snd (stop_request ctx w)) = w_fds w"
  "w_next (snd (stop_request ctx w)) = w_next w"
  "w_trace (snd (stop_request ctx w)) = w_trace w @ map EvShutdown (fd_list (tcp_socket ctx))"
  by (simp_all add: stop_request_def fd_list_def)

lemma finish_closes:
  assumes lock: "lock_held 1 ctx w" and socks: "holds_sockets ctx w" and halted: "running ctx = 0"
  obtains w' where "stop_finish True ctx w = Inr (Some (stopped ctx), w')"
    and "w_fds w' = filter (\<lambda>fd. fd \<notin> set (held_sockets ctx)) (w_fds w)"
    and "w_trace w' = w_trace w @ join_events ctx @ close_events (held_sockets ctx)"
    and "lock_held 1 (stopped ctx) w'" and "w_heap w' = w_heap w" and "w_sems w' = w_sems w"
proof -
  let ?w3 = "joined (timeout_thread ctx) (joined (tcp_thread ctx) w)"
  have "lock_held 1 ctx ?w3" using lock by (rule lock_held_frame) simp_all
  then obtain w4 where t: "lock_take (client_mutex ctx) ?w3 = Inr (0, w4)" "lock_held 0 ctx w4"
    "w_heap w4 = w_heap w" "w_fds w4 = w_fds w" "w_trace w4 = w_trace w @ join_events ctx"
    "w_sems w4 = (w_sems w)(the (client_mutex ctx) := Some 0)"
    by (rule lock_take_inv) (auto simp: join_events_def)
  define w5 where "w5 = (if connected (client ctx)
    then snd (platform_close (client_socket (client ctx)) w4) else w4)"
  have "lock_held 0 ctx w5" using t(2) by (auto simp: w5_def intro: lock_held_frame)
  then obtain w6 where g: "lock_give (client_mutex ctx) w5 = Inr (0, w6)" "lock_held 1 ctx w6"
    "w_heap w6 = w_heap w5" "w_fds w6 = w_fds w5" "w_trace w6 = w_trace w5"
    "w_sems w6 = (w_sems w5)(the (client_mutex ctx) := Some 1)"
    by (rule lock_give_inv)
  let ?w8 = "close_if_open (udp_socket ctx) (close_if_open (tcp_socket ctx) w6)"
  have "holds_sockets ctx w4" using socks t(4) by (simp add: holds_sockets_def)
  note closed = close_all [OF this g(4,5) [unfolded w5_def]]
  have "lock_held 1 ctx ?w8" using g(2) by (rule lock_held_frame) simp_all
  then have "lock_held 1 (stopped ctx) (pr_info ''Network server stopped'' ?w8)"
    by (simp add: lock_held_def stopped_def)
  moreover have "stop_finish True ctx w = Inr (Some (stopped ctx), pr_info ''Network server stopped'' ?w8)"
    using t(1) g(1) halted by (simp add: stop_finish_def join_ended stopped_def w5_def Let_def)
  moreover have "w_heap ?w8 = w_heap w" using t g by (simp add: w5_def)
  moreover have "w_sems ?w8 = w_sems w"
    using t(6) g(6) lock by (auto simp: w5_def lock_held_def fun_upd_idem)
  ultimately show thesis
    using closed t(4,5) by (intro that [of "pr_info ''Network server stopped'' ?w8"]) simp_all
qed

lemma stop_closes:
  assumes lock: "lock_held 1 ctx w" and socks: "holds_sockets ctx w"
  obtains w' where "robot_protocol_stop (Some ctx) w = Inr (Some (stopped ctx), w')"
    and "w_fds w' = filter (\<lambda>fd. fd \<notin> set (held_sockets ctx)) (w_fds w)"
    and "w_trace w' = w_trace w @ shutdown_events ctx @ close_events (held_sockets ctx)"
    and "lock_held 1 (stopped ctx) w'" and "w_heap w' = w_heap w" and "w_sems w' = w_sems w"
proof -
  obtain ctx1 w1 where req: "stop_request ctx w = (ctx1, w1)" by (cases "stop_request ctx w")
  have c: "ctx1 = ctx\<lparr>running := 0\<rparr>" using req by (simp add: stop_request_def)
  have sel: "running ctx1 = 0" "stopped ctx1 = stopped ctx" "held_sockets ctx1 = held_sockets ctx"
    "join_events ctx1 = join_events ctx" "client_mutex ctx1 = client_mutex ctx"
    by (simp_all add: c stopped_def held_sockets_def join_events_def)
  have w1: "w_env w1 = w_env w" "w_sems w1 = w_sems w" "w_fds w1 = w_fds w" "w_heap w1 = w_heap w"
    "w_trace w1 = w_trace w @ map EvShutdown (fd_list (tcp_socket ctx))"
    using stop_request_sel(5-10) [of ctx w] by (simp_all add: req)
  have "lock_held 1 ctx1 w1" using lock sel(5) w1(1,2) by (simp add: lock_held_def)
  moreover have "holds_sockets ctx1 w1" using socks sel(3) w1(3) by (simp add: holds_sockets_def)
  ultimately obtain w' where "stop_finish True ctx1 w1 = Inr (Some (stopped ctx1), w')"
    "w_fds w' = filter (\<lambda>fd. fd \<notin> set (held_sockets ctx1)) (w_fds w1)"
    "w_trace w' = w_trace w1 @ join_events ctx1 @ close_events (held_sockets ctx1)"
    "lock_held 1 (stopped ctx1) w'" "w_heap w' = w_heap w1" "w_sems w' = w_sems w1"
    by (rule finish_closes [OF _ _ sel(1)])
  then show thesis
    using req by (intro that [of w']) (simp_all add: robot_protocol_stop_def sel w1 shutdown_join_events)
qed

text \<open>A stopped server stops again without touching a descriptor.\<close>

lemma stopped_twice [simp]: "stopped (stopped ctx) = stopped ctx"
  by (simp add: stopped_def zero_client_def)

lemma stopped_holds_nothing [simp]:
  "held_sockets (stopped ctx) = []" "shutdown_events (stopped ctx) = []" "holds_sockets (stopped ctx) w"
  by (simp_all add: held_sockets_def stopped_def fd_list_def shutdown_events_def holds_sockets_def zero_client_def)

lemma stop_again:
  assumes "lock_held 1 (stopped ctx) w"
  obtains w' where "robot_protocol_stop (Some (stopped ctx)) w = Inr (Some (stopped ctx), w')"
    and "w_fds w' = w_fds w" and "w_trace w' = w_trace w" and "w_heap w' = w_heap w" and "w_sems w' = w_sems w"
proof -
  obtain w' where w': "robot_protocol_stop (Some (stopped ctx)) w = Inr (Some (stopped (stopped ctx)), w')"
    "w_fds w' = filter (\<lambda>fd. fd \<notin> set (held_sockets (stopped ctx))) (w_fds w)"
    "w_trace w' = w_trace w @ shutdown_events (stopped ctx) @ close_events (held_sockets (stopped ctx))"
    "w_heap w' = w_heap w" "w_sems w' = w_sems w"
    by (rule stop_closes [OF assms stopped_holds_nothing(3)])
  then show thesis by (intro that [of w']) (simp_all add: close_events_def)
qed

text \<open>C19. \<open>robot_protocol_stop\<close>: the listening socket is shut down first, both threads are joined, and
  only then the client's, the TCP and the UDP socket, as far as there are any, are closed - each
  exactly once and nothing else; the context is left without client, threads and sockets, and stopping it again closes
  nothing.\<close>

theorem stop_closes_each_socket_once:
  assumes "lock_held 1 ctx w" and "holds_sockets ctx w"
  shows "\<exists>w'. robot_protocol_stop (Some ctx) w = Inr (Some (stopped ctx), w') \<and>
    w_fds w' = filter (\<lambda>fd. fd \<notin> set (held_sockets ctx)) (w_fds w) \<and>
    w_trace w' = w_trace w @ shutdown_events ctx @ close_events (held_sockets ctx) \<and>
    (\<exists>w''. robot_protocol_stop (Some (stopped ctx)) w' = Inr (Some (stopped ctx), w'') \<and>
      w_fds w'' = w_fds w' \<and> w_trace w'' = w_trace w')"
  by (rule stop_closes [OF assms], erule stop_again) blast

theorem stop_closes_each_socket_once_witness:
  "\<exists>w'. robot_protocol_stop (Some (ex_server\<lparr>client := ex_client\<rparr>)) (ex_net []) =
      Inr (Some (stopped (ex_server\<lparr>client := ex_client\<rparr>)), w') \<and>
    w_trace w' = [EvShutdown 3, EvJoin 1, EvJoin 2, EvClose 5, EvClose 3, EvClose 4]"
proof -
  let ?ctx = "ex_server\<lparr>client := ex_client\<rparr>"
  have "lock_held 1 ?ctx (ex_net [])" by (simp add: lock_held_def)
  moreover have "holds_sockets ?ctx (ex_net [])"
    by (simp add: holds_sockets_def held_sockets_def fd_list_def ex_server_def)
  ultimately obtain w' where "robot_protocol_stop (Some ?ctx) (ex_net []) = Inr (Some (stopped ?ctx), w')"
    "w_trace w' = w_trace (ex_net []) @ shutdown_events ?ctx @ close_events (held_sockets ?ctx)"
    using stop_closes_each_socket_once [of ?ctx "ex_net []"] by blast
  then show ?thesis
    by (simp add: shutdown_events_def close_events_def held_sockets_def fd_list_def ex_server_def)
qed

section \<open>Starting\<close>

lemma socket_ok:
  "e_socket (w_env w) (w_calls w) \<Longrightarrow>
   platform_socket w = (first_free (w_fds w), (tick w)\<lparr>w_fds := first_free (w_fds w) # w_fds w\<rparr>)"
  by (simp add: platform_socket_def Let_def)

lemma removeAll_fresh: "removeAll (first_free fds) fds = fds"
  by (simp add: first_free_fresh)

text \<open>C39. A start that fails to bind or to listen closes its socket but keeps the number in
  \<open>tcp_socket\<close>: the next socket that any part of the process opens gets the same number, and
  stopping (or destroying) the server shuts that foreign socket down and closes it.\<close>

theorem failed_start_closes_foreign_socket:
  assumes "e_socket (w_env w) (w_calls w)"
    and "\<not> e_bind (w_env w) (Suc (w_calls w))"
    and "e_socket (w_env w) (Suc (Suc (w_calls w)))"
    and "lock_held 1 ctx w" and "\<not> connected (client ctx)" and "udp_socket ctx = -1"
  shows "\<exists>ctx1 w1 s w2 ctx2 w3. robot_protocol_start (Some ctx) w = (-1, Some ctx1, w1) \<and>
    w_fds w1 = w_fds w \<and>
    platform_socket w1 = (s, w2) \<and> s \<in> set (w_fds w2) \<and>
    robot_protocol_stop (Some ctx1) w2 = Inr (Some ctx2, w3) \<and> s \<notin> set (w_fds w3) \<and>
    EvShutdown s \<in> set (w_trace w3) \<and> EvClose s \<in> set (w_trace w3)"
proof -
  let ?s = "first_free (w_fds w)" and ?ctx1 = "ctx\<lparr>tcp_socket := first_free (w_fds w)\<rparr>"
  let ?w1 = "emit (EvClose ?s) ((pr_error ''TCP bind failed'' (tick (tick w)))\<lparr>w_fds := w_fds w\<rparr>)"
  have neg: "\<not> ?s < 0" using first_free_nonneg [of "w_fds w"] by simp
  have start: "robot_protocol_start (Some ctx) w = (-1, Some ?ctx1, ?w1)"
    using assms(1,2) neg
    by (simp add: robot_protocol_start_def socket_ok platform_bind_def platform_close_def
        removeAll_fresh Let_def tick_def emit_def pr_def)
  let ?w2 = "(tick ?w1)\<lparr>w_fds := ?s # w_fds w\<rparr>"
  have sock: "platform_socket ?w1 = (?s, ?w2)" using assms(3) by (simp add: socket_ok)
  have "lock_held 1 ?ctx1 ?w2" using assms(4) by (simp add: lock_held_def)
  moreover have "holds_sockets ?ctx1 ?w2"
    using assms(5,6) by (simp add: holds_sockets_def held_sockets_def fd_list_def)
  ultimately obtain w3 where w3: "robot_protocol_stop (Some ?ctx1) ?w2 = Inr (Some (stopped ?ctx1), w3)"
    "w_fds w3 = filter (\<lambda>fd. fd \<notin> set (held_sockets ?ctx1)) (w_fds ?w2)"
    "w_trace w3 = w_trace ?w2 @ shutdown_events ?ctx1 @ close_events (held_sockets ?ctx1)"
    by (rule stop_closes)
  have held: "?s \<in> set (held_sockets ?ctx1)" "EvShutdown ?s \<in> set (shutdown_events ?ctx1)"
    using neg by (simp_all add: held_sockets_def fd_list_def shutdown_events_def)
  then have "?s \<notin> set (w_fds w3)" "EvClose ?s \<in> set (w_trace w3)" "EvShutdown ?s \<in> set (w_trace w3)"
    using w3(2,3) by (simp_all add: close_events_def)
  then show ?thesis using start sock w3(1)
    by (intro exI [of _ ?ctx1] exI [of _ ?w1] exI [of _ ?s] exI [of _ ?w2] exI [of _ "stopped ?ctx1"]
        exI [of _ w3]) simp
qed

definition idle_server :: "nat robot_server_ctx" where
  "idle_server = ex_server\<lparr>tcp_socket := -1, udp_socket := -1, running := 0, tcp_thread := 0,
     timeout_thread := 0\<rparr>"

theorem failed_start_closes_foreign_socket_witness:
  "\<exists>ctx1 w1. robot_protocol_start (Some idle_server) (ex_net []\<lparr>w_env := ok_env\<lparr>e_bind := \<lambda>_. False\<rparr>\<rparr>) =
      (-1, Some ctx1, w1) \<and>
    (\<exists>s w2 w3 ctx2. platform_socket w1 = (s, w2) \<and> robot_protocol_stop (Some ctx1) w2 = Inr (Some ctx2, w3) \<and>
      s \<notin> set (w_fds w3))"
proof -
  let ?w = "ex_net []\<lparr>w_env := ok_env\<lparr>e_bind := \<lambda>_. False\<rparr>\<rparr>"
  have "lock_held 1 idle_server ?w" by (simp add: lock_held_def idle_server_def)
  then show ?thesis
    using failed_start_closes_foreign_socket [of ?w idle_server]
    by (simp add: idle_server_def) blast
qed

section \<open>The whole life of a server\<close>

text \<open>
  An operating system that grants the next \<open>n\<close> requests for memory, semaphores and sockets; what it
  answers later is open. No wait for the mutex is ever interrupted: the results of \<open>lock_take\<close> are
  not looked at, and the handlers that \<open>signal\<close> installs restart the wait.
\<close>

definition granting :: "nat \<Rightarrow> world \<Rightarrow> bool" where
  "granting n w \<longleftrightarrow> (\<forall>k. e_sem_wait (w_env w) k) \<and>
     (\<forall>k. w_calls w \<le> k \<and> k < w_calls w + n \<longrightarrow> e_malloc (w_env w) k \<and> e_sem_init (w_env w) k \<and>
        e_socket (w_env w) k \<and> e_bind (w_env w) k \<and> e_listen (w_env w) k)"

lemma granting_later:
  "granting (m + n) w \<Longrightarrow> w_env w' = w_env w \<Longrightarrow> w_calls w' = w_calls w + m \<Longrightarrow> granting n w'"
  by (simp add: granting_def)

definition fresh_ctx :: "'u robot_server_config \<Rightarrow> 'u \<Rightarrow> nat \<Rightarrow> nat \<Rightarrow> 'u robot_server_ctx" where
  "fresh_ctx cfg u a m = \<lparr>tcp_socket = -1, udp_socket = -1, running = 0, tcp_thread = 0,
     timeout_thread = 0, client_mutex = Some m, config = cfg, client = zero_client, user_data = u,
     ctx_addr = a\<rparr>"

definition started_ctx :: "'u robot_server_ctx \<Rightarrow> int \<Rightarrow> int \<Rightarrow> nat \<Rightarrow> nat \<Rightarrow> 'u robot_server_ctx" where
  "started_ctx ctx s d t1 t2 = ctx\<lparr>tcp_socket := s, udp_socket := d, running := 1,
     tcp_thread := t1, timeout_thread := t2\<rparr>"

lemma started_sel [simp]:
  "tcp_socket (started_ctx ctx s d t1 t2) = s" "udp_socket (started_ctx ctx s d t1 t2) = d"
  "running (started_ctx ctx s d t1 t2) = 1" "client (started_ctx ctx s d t1 t2) = client ctx"
  "client_mutex (started_ctx ctx s d t1 t2) = client_mutex ctx"
  "ctx_addr (started_ctx ctx s d t1 t2) = ctx_addr ctx"
  by (simp_all add: started_ctx_def)

lemma fresh_sel [simp]:
  "client (fresh_ctx cfg u a m) = zero_client" "client_mutex (fresh_ctx cfg u a m) = Some m"
  "ctx_addr (fresh_ctx cfg u a m) = a" "running (fresh_ctx cfg u a m) = 0"
  by (simp_all add: fresh_ctx_def)

lemma create_granted:
  assumes "granting (3 + n) w"
  obtains w1 where "robot_protocol_create cfg u w =
      Inr (Some (fresh_ctx cfg u (w_next w) (Suc (w_next w))), w1)"
    and "w_heap w1 = Suc (w_next w) # w_next w # w_heap w" and "w_fds w1 = w_fds w"
    and "w_sems w1 = (w_sems w)(Suc (w_next w) := Some 1)" and "w_env w1 = w_env w"
    and "w_trace w1 = w_trace w" and "w_next w1 = Suc (Suc (w_next w))" and "granting n w1"
  using assms
  by (simp add: numeral_3_eq_3 robot_protocol_create_def malloc_def lock_create_def granting_def fresh_ctx_def Let_def)

lemma start_granted:
  fixes ctx :: "'u robot_server_ctx"
  assumes "granting (5 + n) w"
  defines "s \<equiv> first_free (w_fds w)"
  defines "d \<equiv> first_free (s # w_fds w)"
  obtains w1 t1 t2 where "robot_protocol_start (Some ctx) w =
      (0, Some (started_ctx ctx s d t1 t2), w1)"
    and "w_heap w1 = w_heap w" and "w_fds w1 = d # s # w_fds w" and "w_sems w1 = w_sems w"
    and "w_env w1 = w_env w" and "w_trace w1 = w_trace w" and "w_next w1 = w_next w"
proof -
  have "\<not> s < 0" "\<not> d < 0"
    using first_free_nonneg [of "w_fds w"] first_free_nonneg [of "s # w_fds w"]
    by (simp_all add: s_def d_def)
  then show thesis
    using assms(1)
    by (intro that [of "e_thread (w_env w) (w_calls w + 5)" "e_thread (w_env w) (w_calls w + 6)"
          "snd (snd (robot_protocol_start (Some ctx) w))"])
      (simp_all add: numeral_eq_Suc robot_protocol_start_def socket_ok platform_bind_def platform_listen_def
        granting_def platform_pthread_create_def Let_def s_def d_def
        started_ctx_def)
qed

text \<open>The whole life of a server, on an operating system that grants the eight requests it needs: creating,
  starting, stopping and destroying it succeeds, \<open>is_running\<close> says so in between, and in the end
  every heap block, semaphore and descriptor the server took has been given back exactly once -
  nothing leaks and nothing is closed or freed twice.\<close>

theorem lifecycle_gives_everything_back:
  assumes "granting 8 w" and "w_sems w (Suc (w_next w)) = None"
  shows "\<exists>ctx w1 ctx' w2 w3. robot_protocol_create cfg u w = Inr (Some ctx, w1) \<and>
    robot_protocol_is_running (Some ctx) = 0 \<and>
    robot_protocol_start (Some ctx) w1 = (0, Some ctx', w2) \<and>
    robot_protocol_is_running (Some ctx') = 1 \<and>
    robot_protocol_destroy (Some ctx') w2 = Inr w3 \<and>
    w_heap w3 = w_heap w \<and> w_fds w3 = w_fds w \<and> w_sems w3 = w_sems w \<and>
    (\<forall>fd. EvBadClose fd \<in> set (w_trace w3) \<longrightarrow> EvBadClose fd \<in> set (w_trace w))"
proof -
  let ?m = "Suc (w_next w)"
  let ?ctx = "fresh_ctx cfg u (w_next w) ?m"
  let ?s = "first_free (w_fds w)" and ?d = "first_free (first_free (w_fds w) # w_fds w)"
  obtain w1 where c: "robot_protocol_create cfg u w = Inr (Some ?ctx, w1)"
    "w_heap w1 = ?m # w_next w # w_heap w" "w_fds w1 = w_fds w"
    "w_sems w1 = (w_sems w)(?m := Some 1)" "w_env w1 = w_env w" "w_trace w1 = w_trace w" "granting 5 w1"
    by (rule create_granted [of 5 w]) (use assms(1) in simp_all)
  then have "granting (5 + 0) w1" by simp
  from start_granted [OF this, of ?ctx] obtain w2 t1 t2 where st:
    "robot_protocol_start (Some ?ctx) w1 = (0, Some (started_ctx ?ctx ?s ?d t1 t2), w2)"
    "w_heap w2 = w_heap w1" "w_fds w2 = ?d # ?s # w_fds w" "w_sems w2 = w_sems w1"
    "w_env w2 = w_env w" "w_trace w2 = w_trace w"
    unfolding c(3,5,6) by blast
  let ?run = "started_ctx ?ctx ?s ?d t1 t2"
  have fresh: "?s \<notin> set (w_fds w)" "?d \<noteq> ?s" "?d \<notin> set (w_fds w)" "0 \<le> ?s" "0 \<le> ?d"
    using first_free_fresh [of "w_fds w"] first_free_fresh [of "?s # w_fds w"]
      first_free_nonneg [of "w_fds w"] first_free_nonneg [of "?s # w_fds w"] by auto
  have held: "held_sockets ?run = [?s, ?d]" using fresh(4,5) by (simp add: held_sockets_def fd_list_def)
  have "lock_held 1 ?run w2" using assms(1) c(4) st(4,5) by (simp add: lock_held_def granting_def)
  moreover have "holds_sockets ?run w2" using fresh st(3) by (simp add: holds_sockets_def held)
  ultimately obtain w3 where sp: "robot_protocol_stop (Some ?run) w2 = Inr (Some (stopped ?run), w3)"
    "w_fds w3 = filter (\<lambda>fd. fd \<notin> set (held_sockets ?run)) (w_fds w2)"
    "w_trace w3 = w_trace w2 @ shutdown_events ?run @ close_events (held_sockets ?run)"
    "w_heap w3 = w_heap w2" "w_sems w3 = w_sems w2"
    by (rule stop_closes)
  have fds: "w_fds w3 = w_fds w" using fresh st(3) by (auto simp: sp(2) held intro!: filter_True)
  have bad: "EvBadClose fd \<notin> set (shutdown_events ?run @ close_events (held_sockets ?run))" for fd
    by (auto simp: shutdown_events_def close_events_def fd_list_def)
  let ?w4 = "w3\<lparr>w_sems := w_sems w, w_heap := w_next w # w_heap w\<rparr>"
  have "(w_sems w3)(?m := None) = w_sems w" using sp(5) st(4) c(4) assms(2) by (simp add: fun_upd_idem)
  then have ld: "lock_destroy (Some ?m) w3 = Inr (0, ?w4)"
    using sp(4,5) st(2,4) c(2,4) by (simp add: lock_destroy_def platform_free_def)
  have "robot_protocol_destroy (Some ?run) w2 = Inr (?w4\<lparr>w_heap := w_heap w\<rparr>)"
    using sp(1) ld by (simp add: robot_protocol_destroy_def platform_free_def)
  then show ?thesis
    using c(1) st(1,6) fds sp(3) bad
    by (intro exI [of _ ?ctx] exI [of _ w1] exI [of _ ?run] exI [of _ w2] exI [of _ "?w4\<lparr>w_heap := w_heap w\<rparr>"])
      (auto simp: robot_protocol_is_running_def)
qed

theorem lifecycle_gives_everything_back_witness:
  "\<exists>ctx w1 ctx' w2 w3. robot_protocol_create (config ex_server) 0 ok_world = Inr (Some ctx, w1) \<and>
    robot_protocol_start (Some ctx) w1 = (0, Some ctx', w2) \<and>
    robot_protocol_destroy (Some ctx') w2 = Inr w3 \<and> w_heap w3 = [] \<and> w_fds w3 = [0, 1, 2]"
  using lifecycle_gives_everything_back [of ok_world "config ex_server" 0]
  by (auto simp: granting_def)

text \<open>Creating a server without memory for it zeroes a NULL pointer; when there is memory for the
  context but none for its lock, the result is NULL and the block of the context is lost.\<close>

theorem create_without_memory:
  "(\<not> e_malloc (w_env w) (w_calls w) \<longrightarrow> robot_protocol_create cfg u w = Inl NullDeref) \<and>
   (e_malloc (w_env w) (w_calls w) \<and> \<not> e_malloc (w_env w) (Suc (w_calls w)) \<longrightarrow>
     (\<exists>w'. robot_protocol_create cfg u w = Inr (None, w') \<and> w_heap w' = w_next w # w_heap w))"
  by (simp add: robot_protocol_create_def malloc_def lock_create_def Let_def)

theorem create_without_memory_witness:
  "robot_protocol_create (config ex_server) 0 (ok_world\<lparr>w_env := ok_env\<lparr>e_malloc := \<lambda>_. False\<rparr>\<rparr>) = Inl NullDeref"
  using create_without_memory [of "ok_world\<lparr>w_env := ok_env\<lparr>e_malloc := \<lambda>_. False\<rparr>\<rparr>" "config ex_server" 0]
  by simp

end
