(* ===== verification/ServerSteps.thy ===== *)
theory ServerSteps
  imports ServerThreads Lifecycle
begin

text \<open>
  \<open>tcp_thread_func\<close> cut into steps. A step ends where the thread calls the operating system, takes
  the mutex or reads the shared client record again, so that another thread may run in between; a
  program counter says where the thread is and holds its local variables. The first theorem says
  that the steps of a thread that nobody interrupts are exactly a turn of its loop.
\<close>

section \<open>Program counters\<close>

text \<open>A response about to be allocated and sent, and what follows it.\<close>

datatype reply_kind = ReplyOk | ReplyErr "byte list" | ReplyWith command_response_context

datatype after = Onward | Release nat | Dismiss nat
  \<comment> \<open>next turn; free the payload; free the payload and remove the client\<close>

datatype tcp_pc =
    Top
  | Waiting "int list"                          \<comment> \<open>\<open>read_fds\<close> before \<open>select\<close>\<close>
  | Selected "int list"                         \<comment> \<open>\<open>read_fds\<close> after it\<close>
  | Accepted int sockaddr_in "int list"
  | Refused int "int list"
  | Checking "int list"
  | Reading int "byte list" nat nat             \<comment> \<open>in \<open>read_header\<close>: socket, header, \<open>offset\<close>, \<open>to_read\<close>\<close>
  | Removing
  | Message protocol_header
  | Receiving protocol_header nat "byte list" nat
  | Handling protocol_header nat "byte list"
  | Registering u16 nat
  | Replying reply_kind after
  | Freeing nat bool
  | Stopped

primrec reply_of :: "reply_kind \<Rightarrow> world \<Rightarrow> (command_response_context option \<times> world) res" where
  "reply_of ReplyOk = MSG_OK_RESPONSE"
| "reply_of (ReplyErr bytes) = MSG_ERR_RESPONSE bytes"
| "reply_of (ReplyWith c) = (\<lambda>w. Inr (Some c, w))"

primrec resume :: "after \<Rightarrow> tcp_pc" where
  "resume Onward = Top"
| "resume (Release p) = Freeing p False"
| "resume (Dismiss p) = Freeing p True"

abbreviation reply_fail :: "reply_kind" where "reply_fail \<equiv> ReplyErr (error_int_body (-1))"

definition answer_kind :: "command_response_context option \<Rightarrow> reply_kind" where
  "answer_kind rsp = (case rsp of None \<Rightarrow> reply_fail | Some c \<Rightarrow> ReplyWith c)"

text \<open>The descriptors left in the set by \<open>select\<close>: the listening socket, and any other.\<close>

definition ready_fds :: "'u robot_server_ctx \<Rightarrow> int list \<Rightarrow> bool \<Rightarrow> bool \<Rightarrow> int list" where
  "ready_fds ctx fds l c =
     (if l then [tcp_socket ctx] else []) @ (if c then filter (\<lambda>fd. fd \<noteq> tcp_socket ctx) fds else [])"

section \<open>One step\<close>

type_synonym 'u tcp_state = "tcp_pc \<times> 'u robot_server_ctx \<times> world"

definition selected_step :: "int list \<Rightarrow> 'u robot_server_ctx \<Rightarrow> world \<Rightarrow> 'u tcp_state" where
  "selected_step fds ctx w =
     (case platform_select fds w of
        (SelErr _, w1) \<Rightarrow>
          if w_errno w1 = EINTR then (Top, ctx, w1)
          else if w_errno w1 = EBADF then (if connected (client ctx) then Removing else Top, ctx, w1)
          else (Stopped, ctx, pr_error ''Server error - quitting'' w1)
      | (SelTimeout, w1) \<Rightarrow> (Top, ctx, w1)
      | (SelReady l c, w1) \<Rightarrow> (Selected (ready_fds ctx fds l c), ctx, w1))"

definition accept_step :: "int list \<Rightarrow> 'u robot_server_ctx \<Rightarrow> world \<Rightarrow> 'u tcp_state" where
  "accept_step ready ctx w =
     (if tcp_socket ctx \<in> set ready then
        (case platform_accept (tcp_socket ctx) w of
           (_, None, w1) \<Rightarrow> (Checking ready, ctx, w1)
         | (sock, Some addr, w1) \<Rightarrow> (Accepted sock addr ready, ctx, w1))
      else (Checking ready, ctx, w))"

definition check_step :: "int list \<Rightarrow> 'u robot_server_ctx \<Rightarrow> world \<Rightarrow> 'u tcp_state" where
  "check_step ready ctx w =
     (if connected (client ctx) \<and> client_socket (client ctx) \<in> set ready
      then (Reading (client_socket (client ctx)) (uninit 0 HEADER_SIZE w) 0 HEADER_SIZE, ctx, w)
      else (Top, ctx, w))"

text \<open>One turn of the loop of \<open>read_header\<close>, which was given the socket and keeps it.\<close>

definition reading_step ::
  "int \<Rightarrow> byte list \<Rightarrow> nat \<Rightarrow> nat \<Rightarrow> 'u robot_server_ctx \<Rightarrow> world \<Rightarrow> 'u tcp_state res" where
  "reading_step socket header offset to_read ctx w =
     andThen (read_header_turn socket header offset to_read w) (\<lambda>(x, w1). Inr
       (case x of
          Again header1 offset1 to_read1 \<Rightarrow> Reading socket header1 offset1 to_read1
        | Done bytes_read header1 \<Rightarrow>
            if bytes_read \<le> 0 then Removing
            else if bytes_read = int HEADER_SIZE then Message (dec_header header1) else Top, ctx, w1))"

definition message_step :: "protocol_header \<Rightarrow> 'u robot_server_ctx \<Rightarrow> world \<Rightarrow> 'u tcp_state" where
  "message_step h ctx w =
     (let len = unat (payload_length h) in
      if len \<le> MAX_PAYLOAD_SIZE then
        (case platform_malloc (payload_length h) w of
           (None, w1) \<Rightarrow> (Replying reply_fail Onward, ctx, w1)
         | (Some p, w1) \<Rightarrow> (Receiving h p (replicate len 0) 0, ctx, w1))
      else (Replying reply_fail Onward, ctx, pr_error ''message too large'' w))"

text \<open>Every \<open>recv\<close> of the payload reads the socket out of the client record again.\<close>

definition receive_step ::
  "protocol_header \<Rightarrow> nat \<Rightarrow> byte list \<Rightarrow> nat \<Rightarrow> 'u robot_server_ctx \<Rightarrow> world \<Rightarrow> 'u tcp_state res" where
  "receive_step h p payload received ctx w =
     (let len = unat (payload_length h) in
      if received < len then
        andThen (platform_recv (client_socket (client ctx)) (len - received) False w)
          (\<lambda>(ret_recv, got, w1).
            if ret_recv \<le> 0
            then andThen (platform_free (Some p) (pr_error ''Failed to read entire payload'' w1))
                   (\<lambda>w2. Inr (Removing, ctx, w2))
            else andThen (memcpy_to payload received got) (\<lambda>payload1.
                   Inr (Receiving h p payload1 (received + nat ret_recv), ctx, w1)))
      else
        let (now, w1) = time_now w in
        Inr (Handling h p payload, ctx\<lparr>client := (client ctx)\<lparr>last_command := now\<rparr>\<rparr>, w1))"

definition handle_step ::
  "nat \<Rightarrow> protocol_header \<Rightarrow> nat \<Rightarrow> byte list \<Rightarrow> 'u robot_server_ctx \<Rightarrow> world \<Rightarrow> 'u tcp_state res" where
  "handle_step policy h p payload ctx w =
     (if message_type h = msg_num MSG_REGISTER_UDP_PORT then
        Inr (let n = unat (payload_length h) in
          if 2 \<le> n then
            (case check_version policy n payload w of
               (Some err, w1) \<Rightarrow> (Replying (ReplyErr err) (Dismiss p), ctx, w1)
             | (None, w1) \<Rightarrow>
                 if 0 < udp_port_of payload then (Registering (udp_port_of payload) p, ctx, w1)
                 else (Replying reply_fail (Release p), ctx, pr_info ''sent invalid UDP port'' w1))
          else (Replying reply_fail (Release p), ctx, pr_info ''invalid registration payload'' w))
      else if message_type h = msg_num MSG_GET_ERROR_INFO then
        (case get_error_info (callbacks (config ctx)) of
           None \<Rightarrow> Inr (Replying reply_fail (Release p), ctx, w)
         | Some f \<Rightarrow> andThen (f (user_data ctx) w) (\<lambda>(rsp, _, u, w1).
             Inr (Replying (answer_kind rsp) (Release p), ctx\<lparr>user_data := u\<rparr>, w1)))
      else
        (case handle_command (callbacks (config ctx)) of
           None \<Rightarrow> Inr (Replying reply_fail (Release p), ctx, w)
         | Some f \<Rightarrow> andThen (f h payload (user_data ctx) w) (\<lambda>(rsp, u, w1).
             Inr (Replying (answer_kind rsp) (Release p), ctx\<lparr>user_data := u\<rparr>, w1))))"

definition register_step :: "u16 \<Rightarrow> nat \<Rightarrow> 'u robot_server_ctx \<Rightarrow> world \<Rightarrow> 'u tcp_state res" where
  "register_step port p ctx w =
     andThen (lock_take (client_mutex ctx) w) (\<lambda>(_, w1).
     andThen (lock_give (client_mutex ctx) w1) (\<lambda>(_, w2).
       Inr (Replying ReplyOk (Release p),
            ctx\<lparr>client := (client ctx)\<lparr>registered_udp_port := port, udp_port_registered := True\<rparr>\<rparr>,
            pr_info ''registered UDP port'' w2)))"

primrec tcp_step :: "nat \<Rightarrow> tcp_pc \<Rightarrow> 'u robot_server_ctx \<Rightarrow> world \<Rightarrow> 'u tcp_state res" where
  "tcp_step policy Top ctx w =
     (if running ctx = 0 then Inr (Stopped, ctx, w)
      else andThen (watched ctx) (\<lambda>fds. Inr (Waiting fds, ctx, w)))"
| "tcp_step policy (Waiting fds) ctx w = Inr (selected_step fds ctx w)"
| "tcp_step policy (Selected ready) ctx w = Inr (accept_step ready ctx w)"
| "tcp_step policy (Accepted sock addr ready) ctx w =
     andThen (add_client ctx sock addr w) (\<lambda>(r, ctx1, w1).
       Inr (if r = 0 then Checking ready else Refused sock ready, ctx1, w1))"
| "tcp_step policy (Refused sock ready) ctx w = Inr (Checking ready, ctx, snd (platform_close sock w))"
| "tcp_step policy (Checking ready) ctx w = Inr (check_step ready ctx w)"
| "tcp_step policy (Reading sock header offset to_read) ctx w = reading_step sock header offset to_read ctx w"
| "tcp_step policy Removing ctx w =
     andThen (remove_client ctx w) (\<lambda>(ctx1, w1). Inr (Top, ctx1, w1))"
| "tcp_step policy (Message h) ctx w = Inr (message_step h ctx w)"
| "tcp_step policy (Receiving h p payload received) ctx w = receive_step h p payload received ctx w"
| "tcp_step policy (Handling h p payload) ctx w = handle_step policy h p payload ctx w"
| "tcp_step policy (Registering port p) ctx w = register_step port p ctx w"
| "tcp_step policy (Replying kind next) ctx w =
     andThen (respond (client_socket (client ctx)) (reply_of kind) w) (\<lambda>(_, w1). Inr (resume next, ctx, w1))"
| "tcp_step policy (Freeing p remove) ctx w =
     andThen (platform_free (Some p) w) (\<lambda>w1. Inr (if remove then Removing else Top, ctx, w1))"
| "tcp_step policy Stopped ctx w = Inr (Stopped, ctx, w)"

section \<open>A turn is its steps\<close>

text \<open>
  \<open>reaches policy s r\<close>: running alone from \<open>s\<close>, the thread comes to the state \<open>r\<close>, or to a state whose
  step is the fault \<open>r\<close>.
\<close>

inductive reaches :: "nat \<Rightarrow> 'u tcp_state \<Rightarrow> 'u tcp_state res \<Rightarrow> bool" for policy where
  here: "reaches policy s (Inr s)"
| step: "tcp_step policy pc ctx w = Inr s \<Longrightarrow> reaches policy s r \<Longrightarrow> reaches policy (pc, ctx, w) r"
| fault: "tcp_step policy pc ctx w = Inl e \<Longrightarrow> reaches policy (pc, ctx, w) (Inl e)"

declare reaches.here [simp]

lemma one_step: "tcp_step policy pc ctx w = Inr s \<Longrightarrow> reaches policy (pc, ctx, w) (Inr s)"
  by (rule step [OF _ here])

lemma reaches_trans:
  "reaches policy s r \<Longrightarrow> (\<And>t. r = Inr t \<Longrightarrow> reaches policy t r') \<Longrightarrow> (\<And>e. r = Inl e \<Longrightarrow> r' = Inl e) \<Longrightarrow>
   reaches policy s r'"
  by (induction rule: reaches.induct) (auto intro: reaches.intros)

text \<open>A step that is one call, followed by the rest of the run.\<close>

lemma reaches_call:
  assumes "tcp_step policy pc ctx w = andThen m (\<lambda>x. Inr (g x))"
    and "\<And>x. m = Inr x \<Longrightarrow> reaches policy (g x) (f x)"
  shows "reaches policy (pc, ctx, w) (andThen m f)"
  using assms by (cases m) (auto intro: reaches.intros)


lemma removing_reaches:
  "reaches policy (Removing, ctx, w) (andThen (remove_client ctx w) (\<lambda>(c, w1). Inr (Top, c, w1)))"
  by (rule reaches_call [where g = "\<lambda>(c, w1). (Top, c, w1)"]) (auto simp: split_def intro: here)

lemma freeing_reaches:
  assumes "\<And>w1. reaches policy (if b then Removing else Top, ctx, w1) (f w1)"
  shows "reaches policy (Freeing p b, ctx, w) (andThen (platform_free (Some p) w) f)"
  by (rule reaches_call [where g = "\<lambda>w1. (if b then Removing else Top, ctx, w1)"]) (use assms in simp_all)

lemma reply_reaches:
  assumes "\<And>w1. reaches policy (resume a, ctx, w1) (f (False, ctx, w1))"
  shows "reaches policy (Replying k a, ctx, w) (andThen (reply (reply_of k) ctx w) f)"
  unfolding reply_def andThen_assoc
  by (rule reaches_call [where g = "\<lambda>(_, w1). (resume a, ctx, w1)"]) (auto simp: split_def intro: assms)

lemma release_reaches:
  "reaches policy (Replying k (Release p), ctx, w)
     (andThen (reply (reply_of k) ctx w) (\<lambda>(over, c, w1). Inr (if over then Top else Freeing p False, c, w1)))"
  by (rule reply_reaches) (auto intro: here)

lemma answer_as_reply: "answer rsp ctx w = reply (reply_of (answer_kind rsp)) ctx w"
  by (simp add: answer_def answer_kind_def err_int_is_err split: option.split)

lemma receive_reaches:
  "n = unat (payload_length h) \<Longrightarrow> sock = client_socket (client ctx) \<Longrightarrow>
   reaches policy (Receiving h p payload k, ctx, w)
     (andThen (receive_payload sock n payload k w) (\<lambda>(failed, payload', w1).
        if failed then andThen (platform_free (Some p) w1) (\<lambda>w2. Inr (Removing, ctx, w2))
        else let (now, w2) = time_now w1 in
          Inr (Handling h p payload', ctx\<lparr>client := (client ctx)\<lparr>last_command := now\<rparr>\<rparr>, w2)))"
proof (induction sock n payload k w rule: receive_payload.induct)
  case (1 sock n payload k w)
  show ?case
  proof (cases "k < n")
    case False
    then show ?thesis
      using "1.prems"
      by (subst receive_payload.simps) (auto simp: receive_step_def split_def Let_def intro: one_step)
  next
    case more: True
    show ?thesis
    proof (cases "platform_recv sock (n - k) False w")
      case (Inl e)
      then show ?thesis
        using more "1.prems" by (subst receive_payload.simps) (auto simp: receive_step_def intro: fault)
    next
      case (Inr res)
      obtain r got w1 where res: "res = (r, got, w1)" by (cases res)
      show ?thesis
      proof (cases "r \<le> 0")
        case True
        then have "tcp_step policy (Receiving h p payload k) ctx w =
            andThen (platform_free (Some p) (pr_error ''Failed to read entire payload'' w1))
              (\<lambda>w2. Inr (Removing, ctx, w2))"
          using more Inr res "1.prems" by (simp add: receive_step_def Let_def)
        then have "reaches policy (Receiving h p payload k, ctx, w)
            (andThen (platform_free (Some p) (pr_error ''Failed to read entire payload'' w1))
              (\<lambda>w2. Inr (Removing, ctx, w2)))"
          by (rule reaches_call) (rule here)
        then show ?thesis
          using more Inr res True by (subst receive_payload.simps) simp
      next
        case got: False
        show ?thesis
        proof (cases "memcpy_to payload k got")
          case (Inl e)
          then show ?thesis
            using more Inr res got "1.prems"
            by (subst receive_payload.simps) (auto simp: receive_step_def Let_def intro: fault)
        next
          case copied: (Inr payload1)
          have "tcp_step policy (Receiving h p payload k) ctx w =
              Inr (Receiving h p payload1 (k + nat r), ctx, w1)"
            using more Inr res got copied "1.prems" by (simp add: receive_step_def Let_def)
          from step [OF this "1.IH" [OF more Inr res [symmetric] refl got copied "1.prems"]] show ?thesis
            using more Inr res got copied by (subst receive_payload.simps) simp
        qed
      qed
    qed
  qed
qed

lemma register_reaches:
  "message_type h = msg_num MSG_REGISTER_UDP_PORT \<Longrightarrow>
   reaches policy (Handling h p payload, ctx, w)
     (andThen (register_udp_port policy ctx (unat (payload_length h)) p payload w)
       (\<lambda>(over, c, w1). Inr (if over then Top else Freeing p False, c, w1)))"
  (is "_ \<Longrightarrow> reaches _ _ (andThen ?reg ?next)")
proof -
  assume reg: "message_type h = msg_num MSG_REGISTER_UDP_PORT"
  let ?n = "unat (payload_length h)"
  obtain e w1 where v: "check_version policy ?n payload w = (e, w1)"
    by (cases "check_version policy ?n payload w")
  have err: "reaches policy (Replying reply_fail (Release p), ctx, w2)
      (andThen (reply (MSG_ERR_RESPONSE_INT (-1)) ctx w2) ?next)" for w2
    using release_reaches [of policy reply_fail] by (simp add: err_int_is_err)
  consider "\<not> 2 \<le> ?n" | (rej) bytes where "2 \<le> ?n" "e = Some bytes"
    | (invalid) "2 \<le> ?n" "e = None" "\<not> 0 < udp_port_of payload"
    | (good) "2 \<le> ?n" "e = None" "0 < udp_port_of payload"
    by (cases e) auto
  then show ?thesis
  proof cases
    case 1
    then show ?thesis
      using err reg by (auto simp: register_udp_port_def handle_step_def Let_def intro: step)
  next
    case rej
    have "reaches policy (Replying (ReplyErr bytes) (Dismiss p), ctx, w1)
        (andThen (reply (reply_of (ReplyErr bytes)) ctx w1) (\<lambda>(_, ctx1, w2).
           andThen (platform_free (Some p) w2) (\<lambda>w3.
           andThen (remove_client ctx1 w3) (\<lambda>(c, w4). Inr (Top, c, w4)))))"
      by (rule reply_reaches) (simp, rule freeing_reaches, simp add: removing_reaches)
    then show ?thesis
      using rej v reg
      by (auto simp: register_udp_port_def handle_step_def Let_def andThen_assoc split_def intro: step)
  next
    case invalid
    then show ?thesis
      using err reg v by (auto simp: register_udp_port_def handle_step_def Let_def intro: step)
  next
    case good
    let ?port = "udp_port_of payload"
    let ?ctx1 = "ctx\<lparr>client := (client ctx)\<lparr>registered_udp_port := ?port, udp_port_registered := True\<rparr>\<rparr>"
    let ?w1 = "\<lambda>w. pr_info ''registered UDP port'' w"
    have "reaches policy (Registering ?port p, ctx, w1)
        (andThen (andThen (lock_take (client_mutex ctx) w1) (\<lambda>(_, w2). lock_give (client_mutex ctx) w2))
          (\<lambda>(_, w3). andThen (reply (reply_of ReplyOk) ?ctx1 (?w1 w3)) ?next))"
      by (rule reaches_call [where g = "\<lambda>(_, w3). (Replying ReplyOk (Release p), ?ctx1, ?w1 w3)"])
        (use release_reaches [of policy ReplyOk] in \<open>auto simp: register_step_def andThen_assoc split_def\<close>)
    then show ?thesis
      using good v reg
      by (auto simp: register_udp_port_def handle_step_def Let_def andThen_assoc split_def intro: step)
  qed
qed

lemma dispatch_reaches:
  "reaches policy (Handling h p payload, ctx, w)
     (andThen (dispatch policy ctx h p payload w)
       (\<lambda>(over, c, w1). Inr (if over then Top else Freeing p False, c, w1)))"
  (is "reaches _ _ (andThen ?dispatch ?next)")
proof -
  have ans: "reaches policy (Replying (answer_kind rsp) (Release p), c, w1) (andThen (answer rsp c w1) ?next)"
    for rsp c w1
    unfolding answer_as_reply by (rule release_reaches)
  have none: "reaches policy (Replying reply_fail (Release p), ctx, w) (andThen (answer None ctx w) ?next)"
    using ans [of None] by (simp add: answer_kind_def)
  consider (reg) "message_type h = msg_num MSG_REGISTER_UDP_PORT"
    | (info) "message_type h = msg_num MSG_GET_ERROR_INFO" | (cmd) "message_type h \<noteq> msg_num MSG_REGISTER_UDP_PORT"
      "message_type h \<noteq> msg_num MSG_GET_ERROR_INFO" by blast
  then show ?thesis
  proof cases
    case reg
    then show ?thesis using register_reaches [OF reg] by (simp add: dispatch_def)
  next
    case info
    show ?thesis
    proof (cases "get_error_info (callbacks (config ctx))")
      case None
      then show ?thesis
        using info none by (auto simp: dispatch_def handle_step_def intro: step)
    next
      case (Some f)
      have "reaches policy (Handling h p payload, ctx, w) (andThen (f (user_data ctx) w)
          (\<lambda>(rsp, _, u, w1). andThen (answer rsp (ctx\<lparr>user_data := u\<rparr>) w1) ?next))"
        by (rule reaches_call [where g = "\<lambda>(rsp, _, u, w1).
              (Replying (answer_kind rsp) (Release p), ctx\<lparr>user_data := u\<rparr>, w1)"])
          (use info Some ans in \<open>auto simp: handle_step_def split_def\<close>)
      then show ?thesis using info Some by (simp add: dispatch_def andThen_assoc split_def)
    qed
  next
    case cmd
    show ?thesis
    proof (cases "handle_command (callbacks (config ctx))")
      case None
      then show ?thesis
        using cmd none by (auto simp: dispatch_def handle_step_def intro: step)
    next
      case (Some f)
      have "reaches policy (Handling h p payload, ctx, w) (andThen (f h payload (user_data ctx) w)
          (\<lambda>(rsp, u, w1). andThen (answer rsp (ctx\<lparr>user_data := u\<rparr>) w1) ?next))"
        by (rule reaches_call [where g = "\<lambda>(rsp, u, w1).
              (Replying (answer_kind rsp) (Release p), ctx\<lparr>user_data := u\<rparr>, w1)"])
          (use cmd Some ans in \<open>auto simp: handle_step_def split_def\<close>)
      then show ?thesis using cmd Some by (simp add: dispatch_def andThen_assoc split_def)
    qed
  qed
qed

text \<open>Running to the end of one call and then of the next.\<close>

lemma reaches_then:
  assumes "reaches policy s (andThen m (\<lambda>x. Inr (g x)))"
    and "\<And>x. m = Inr x \<Longrightarrow> reaches policy (g x) (f x)"
  shows "reaches policy s (andThen m f)"
  by (rule reaches_trans [OF assms(1)]) (use assms(2) in \<open>cases m; auto\<close>)+

lemma message_reaches:
  "reaches policy (Message h, ctx, w) (andThen (handle_message policy ctx h w) (\<lambda>(c, w1). Inr (Top, c, w1)))"
proof -
  let ?n = "unat (payload_length h)"
  have fail: "reaches policy (Replying reply_fail Onward, ctx, w1)
      (andThen (reply (MSG_ERR_RESPONSE_INT (-1)) ctx w1) (\<lambda>(_, c, w2). Inr (Top, c, w2)))" for w1
    using reply_reaches [of policy Onward ctx "\<lambda>(_, c, w2). Inr (Top, c, w2)" reply_fail w1]
    by (simp add: err_int_is_err here)
  show ?thesis
  proof (cases "?n \<le> MAX_PAYLOAD_SIZE")
    case False
    then have "tcp_step policy (Message h) ctx w =
        Inr (Replying reply_fail Onward, ctx, pr_error ''message too large'' w)"
      by (simp add: message_step_def Let_def)
    from step [OF this fail] show ?thesis
      using False by (simp add: handle_message_def andThen_assoc split_def)
  next
    case small: True
    obtain m w1 where mal: "platform_malloc (payload_length h) w = (m, w1)"
      by (cases "platform_malloc (payload_length h) w")
    show ?thesis
    proof (cases m)
      case None
      then have "tcp_step policy (Message h) ctx w = Inr (Replying reply_fail Onward, ctx, w1)"
        using mal small by (simp add: message_step_def Let_def)
      from step [OF this fail] show ?thesis
        using small mal None by (simp add: handle_message_def andThen_assoc split_def)
    next
      case (Some p)
      then have first: "tcp_step policy (Message h) ctx w = Inr (Receiving h p (replicate ?n 0) 0, ctx, w1)"
        using mal small by (simp add: message_step_def Let_def)
      let ?ctx = "\<lambda>now. ctx\<lparr>client := (client ctx)\<lparr>last_command := now\<rparr>\<rparr>"
      have rest: "reaches policy (Handling h p payload, ?ctx now, w3)
          (andThen (dispatch policy (?ctx now) h p payload w3) (\<lambda>(over, c, w4).
             if over then Inr (Top, c, w4)
             else andThen (platform_free (Some p) w4) (\<lambda>w5. Inr (Top, c, w5))))" for payload now w3
        by (rule reaches_then [OF dispatch_reaches [unfolded split_def]])
          (auto simp: split_def intro!: freeing_reaches)
      let ?recv = "receive_payload (client_socket (client ctx)) ?n (replicate ?n 0) 0 w1"
      note recv = receive_reaches [OF refl refl, where policy = policy and h = h and p = p and ctx = ctx and
        payload = "replicate ?n 0" and k = 0 and w = w1]
      have "reaches policy (Receiving h p (replicate ?n 0) 0, ctx, w1)
          (andThen (handle_message policy ctx h w) (\<lambda>(c, w1). Inr (Top, c, w1)))"
      proof (cases ?recv)
        case (Inl e)
        then show ?thesis using recv small mal Some by (simp add: handle_message_def Let_def)
      next
        case (Inr res)
        obtain failed payload w2 where res: "res = (failed, payload, w2)" by (cases res)
        show ?thesis
        proof (cases failed)
          case True
          have "reaches policy (Receiving h p (replicate ?n 0) 0, ctx, w1)
              (andThen (platform_free (Some p) w2) (\<lambda>w3. Inr (Removing, ctx, w3)))"
            using recv Inr res True by simp
          from reaches_then [OF this removing_reaches] show ?thesis
            using small mal Some Inr res True by (simp add: handle_message_def Let_def andThen_assoc)
        next
          case False
          obtain now w3 where now: "time_now w2 = (now, w3)" by (cases "time_now w2")
          have "reaches policy (Receiving h p (replicate ?n 0) 0, ctx, w1)
              (Inr (Handling h p payload, ?ctx now, w3))"
            using recv Inr res False now by simp
          then have "reaches policy (Receiving h p (replicate ?n 0) 0, ctx, w1)
              (andThen (dispatch policy (?ctx now) h p payload w3) (\<lambda>(over, c, w4).
                 if over then Inr (Top, c, w4)
                 else andThen (platform_free (Some p) w4) (\<lambda>w5. Inr (Top, c, w5))))"
            by (rule reaches_trans) (use rest in auto)
          then show ?thesis
            using small mal Some Inr res False now
            by (simp add: handle_message_def Let_def andThen_assoc split_def if_distrib [of "\<lambda>r. andThen r _"]
                cong: if_cong)
        qed
      qed
      from step [OF first this] show ?thesis .
    qed
  qed
qed

lemma reading_reaches:
  "reaches policy (Reading sock header offset to_read, ctx, w)
     (andThen (read_header_loop sock header offset to_read w) (\<lambda>(n, header1, w1).
        andThen (if n \<le> 0 then remove_client ctx w1
                 else if n = int HEADER_SIZE then handle_message policy ctx (dec_header header1) w1
                 else Inr (ctx, w1)) (\<lambda>(c, w1). Inr (Top, c, w1))))"
  (is "reaches _ _ (andThen _ ?f)")
proof (induction "waiting w sock" arbitrary: header offset to_read w rule: less_induct)
  case less
  have after: "reaches policy (if n \<le> 0 then Removing
      else if n = int HEADER_SIZE then Message (dec_header h) else Top, ctx, w1) (?f (n, h, w1))" for n h w1
    using removing_reaches message_reaches by (auto intro: here)
  have "reaches policy (Reading sock header offset to_read, ctx, w)
      (andThen (read_header_turn sock header offset to_read w) (\<lambda>(x, w1). case x of
         Done n h \<Rightarrow> ?f (n, h, w1)
       | Again h o1 t1 \<Rightarrow> andThen (read_header_loop sock h o1 t1 w1) ?f))"
  proof (rule reaches_call)
    show "tcp_step policy (Reading sock header offset to_read) ctx w =
        andThen (read_header_turn sock header offset to_read w) (\<lambda>x. Inr ((\<lambda>(x, w1). (case x of
          Again header1 offset1 to_read1 \<Rightarrow> Reading sock header1 offset1 to_read1
        | Done bytes_read header1 \<Rightarrow>
            if bytes_read \<le> 0 then Removing
            else if bytes_read = int HEADER_SIZE then Message (dec_header header1) else Top, ctx, w1)) x))"
      by (auto simp: reading_step_def split_def intro!: andThen_cong)
    fix y assume y: "read_header_turn sock header offset to_read w = Inr y"
    obtain x w1 where xw: "y = (x, w1)" by (cases y)
    show "reaches policy (case y of (x, w1) \<Rightarrow> (case x of
          Again header1 offset1 to_read1 \<Rightarrow> Reading sock header1 offset1 to_read1
        | Done bytes_read header1 \<Rightarrow>
            if bytes_read \<le> 0 then Removing
            else if bytes_read = int HEADER_SIZE then Message (dec_header header1) else Top, ctx, w1))
      (case y of (x, w1) \<Rightarrow> (case x of
         Done n h \<Rightarrow> ?f (n, h, w1)
       | Again h o1 t1 \<Rightarrow> andThen (read_header_loop sock h o1 t1 w1) ?f))"
    proof (cases x)
      case (Done n h)
      then show ?thesis using after [of n h w1] by (simp add: xw)
    next
      case (Again h o1 t1)
      have "waiting w1 sock < waiting w sock"
        using y by (auto simp: xw Again dest: header_turn_consumes)
      from less [OF this] show ?thesis by (simp add: xw Again)
    qed
  qed
  moreover have "andThen (read_header_loop sock header offset to_read w) ?f =
      andThen (read_header_turn sock header offset to_read w) (\<lambda>(x, w1). case x of
         Done n h \<Rightarrow> ?f (n, h, w1)
       | Again h o1 t1 \<Rightarrow> andThen (read_header_loop sock h o1 t1 w1) ?f)"
    by (subst read_header_loop_turns)
      (auto simp: andThen_assoc split: header_read.split intro!: andThen_cong)
  ultimately show ?case by simp
qed

lemma check_reaches:
  "reaches policy (Checking ready, ctx, w)
     (andThen (if connected (client ctx) \<and> client_socket (client ctx) \<in> set ready
               then serve_client policy ctx w else Inr (ctx, w)) (\<lambda>(c, w1). Inr (Top, c, w1)))"
proof (cases "connected (client ctx) \<and> client_socket (client ctx) \<in> set ready")
  case False
  then show ?thesis by (auto simp: check_step_def intro: one_step)
next
  case True
  let ?sock = "client_socket (client ctx)" and ?mem = "uninit 0 HEADER_SIZE w"
  have "tcp_step policy (Checking ready) ctx w = Inr (Reading ?sock ?mem 0 HEADER_SIZE, ctx, w)"
    using True by (simp add: check_step_def)
  from step [OF this reading_reaches [unfolded split_def]] show ?thesis
    using True by (simp add: serve_client_def read_header_def andThen_assoc split_def)
qed

lemma accept_reaches:
  "reaches policy (Selected ready, ctx, w)
     (andThen (if tcp_socket ctx \<in> set ready then accept_client ctx w else Inr (ctx, w))
       (\<lambda>(c, w1). Inr (Checking ready, c, w1)))"
proof (cases "tcp_socket ctx \<in> set ready")
  case False
  then show ?thesis by (auto simp: accept_step_def intro: one_step)
next
  case True
  obtain sock a w1 where acc: "platform_accept (tcp_socket ctx) w = (sock, a, w1)"
    by (cases "platform_accept (tcp_socket ctx) w")
  show ?thesis
  proof (cases a)
    case None
    then show ?thesis
      using True acc by (auto simp: accept_step_def accept_client_def intro: one_step)
  next
    case (Some addr)
    have refused: "reaches policy (Refused sock ready, c, w2)
        (Inr (Checking ready, c, snd (platform_close sock w2)))" for c w2
      by (rule one_step) simp
    have "reaches policy (Accepted sock addr ready, ctx, w1)
        (andThen (add_client ctx sock addr w1) (\<lambda>(r, c, w2). Inr (Checking ready, c,
           if r = 0 then w2 else snd (platform_close sock w2))))"
      by (rule reaches_call [where g = "\<lambda>(r, c, w2). (if r = 0 then Checking ready else Refused sock ready, c, w2)"])
        (simp add: split_def, auto simp: refused)
    moreover have "andThen (accept_client ctx w) (\<lambda>(c, w1). Inr (Checking ready, c, w1)) =
        andThen (add_client ctx sock addr w1) (\<lambda>(r, c, w2). Inr (Checking ready, c,
           if r = 0 then w2 else snd (platform_close sock w2)))"
      using acc Some by (auto simp: accept_client_def andThen_assoc split_def Let_def intro!: andThen_cong)
    ultimately show ?thesis
      using True acc Some by (auto simp: accept_step_def intro: step)
  qed
qed

lemma readable_ready:
  "watched ctx = Inr fds \<Longrightarrow> readable ctx fds l c = ready_fds ctx fds l c"
  by (auto simp: watched_def FD_SET_def readable_def ready_fds_def andThen_eq_Inr split: if_splits)

text \<open>C6. Cutting the TCP thread into steps changes nothing as long as nobody interferes: while the
  server is running, the thread at the top of its loop reaches exactly the state that a turn of the
  loop computes - at the top again, or stopped after an error of \<open>select\<close> - and exactly the fault,
  if the turn has one.\<close>

theorem turn_is_its_steps:
  assumes "running ctx \<noteq> 0"
  shows "reaches policy (Top, ctx, w)
    (andThen (tcp_turn policy ctx w) (\<lambda>(go_on, c, w1). Inr (if go_on then Top else Stopped, c, w1)))"
proof (cases "watched ctx")
  case (Inl e)
  then show ?thesis using assms by (auto simp: tcp_turn_def intro: fault)
next
  case (Inr fds)
  have top: "tcp_step policy Top ctx w = Inr (Waiting fds, ctx, w)" using assms Inr by simp
  obtain a w1 where sel: "platform_select fds w = (a, w1)" by (cases "platform_select fds w")
  have "reaches policy (Waiting fds, ctx, w)
      (andThen (tcp_turn policy ctx w) (\<lambda>(go_on, c, w1). Inr (if go_on then Top else Stopped, c, w1)))"
  proof (cases a)
    case (SelErr e)
    then have "tcp_step policy (Waiting fds) ctx w =
        Inr (if w_errno w1 = EINTR then (Top, ctx, w1)
             else if w_errno w1 = EBADF then (if connected (client ctx) then Removing else Top, ctx, w1)
             else (Stopped, ctx, pr_error ''Server error - quitting'' w1))"
      using sel by (simp add: selected_step_def)
    from step [OF this] show ?thesis
      using Inr sel SelErr removing_reaches [of policy ctx w1]
      by (auto simp: tcp_turn_def andThen_assoc split_def)
  next
    case SelTimeout
    then show ?thesis using Inr sel by (auto simp: tcp_turn_def selected_step_def intro: one_step)
  next
    case (SelReady l c)
    let ?ready = "readable ctx fds l c"
    have "tcp_step policy (Waiting fds) ctx w = Inr (Selected ?ready, ctx, w1)"
      using sel SelReady readable_ready [OF Inr] by (simp add: selected_step_def)
    from step [OF this reaches_then [OF accept_reaches [unfolded split_def] check_reaches]] show ?thesis
      using Inr sel SelReady
      by (simp add: tcp_turn_def andThen_assoc split_def Let_def if_distrib [of "\<lambda>r. andThen r _"] cong: if_cong)
  qed
  with top show ?thesis by (rule step)
qed

theorem turn_is_its_steps_witness:
  "reaches 1 (Top, mock_server, ex_net [])
     (andThen (tcp_turn 1 mock_server (ex_net [])) (\<lambda>(go_on, c, w1). Inr (if go_on then Top else Stopped, c, w1)))"
  by (rule turn_is_its_steps) (simp add: mock_server_def)

end
