(* ===== verification/Simulation.thy ===== *)
theory Simulation
  imports Prelude
begin

text \<open>
  Refinement of an abstract machine by a concrete step relation. The abstract machine takes events,
  some of which it may refuse, and each event has an output; the concrete states have an output so
  far. What a single step has to satisfy is the interface; that whole runs then refine runs of the
  machine is proved here once.
\<close>

fun spec_run :: "('a \<Rightarrow> 'e \<Rightarrow> 'a option) \<Rightarrow> ('a \<Rightarrow> 'e \<Rightarrow> 'o list) \<Rightarrow> 'a \<Rightarrow> 'e list \<Rightarrow> ('a \<times> 'o list) option" where
  "spec_run nxt out a [] = Some (a, [])"
| "spec_run nxt out a (e # es) =
     (case nxt a e of
        None \<Rightarrow> None
      | Some b \<Rightarrow> map_option (\<lambda>(c, os). (c, out a e @ os)) (spec_run nxt out b es))"

lemma spec_run_append:
  "spec_run nxt out a es = Some (b, os) \<Longrightarrow> spec_run nxt out b fs = Some (c, ps) \<Longrightarrow>
   spec_run nxt out a (es @ fs) = Some (c, os @ ps)"
  by (induction es arbitrary: a os) (auto split: option.splits)

locale simulation =
  fixes step :: "'s \<Rightarrow> 's \<Rightarrow> bool"
    and inv :: "'s \<Rightarrow> bool"
    and abs :: "'s \<Rightarrow> 'a"
    and done_so_far :: "'s \<Rightarrow> 'o list"
    and nxt :: "'a \<Rightarrow> 'e \<Rightarrow> 'a option"
    and out :: "'a \<Rightarrow> 'e \<Rightarrow> 'o list"
  assumes inv_step: "inv s \<Longrightarrow> step s t \<Longrightarrow> inv t"
    and simulate: "inv s \<Longrightarrow> step s t \<Longrightarrow>
      \<exists>e. nxt (abs s) e = Some (abs t) \<and> done_so_far t = done_so_far s @ out (abs s) e"
begin

lemma inv_run: "step\<^sup>*\<^sup>* s t \<Longrightarrow> inv s \<Longrightarrow> inv t"
  by (induction rule: rtranclp_induct) (auto intro: inv_step)

lemma refines:
  "step\<^sup>*\<^sup>* s t \<Longrightarrow> inv s \<Longrightarrow>
   \<exists>es os. spec_run nxt out (abs s) es = Some (abs t, os) \<and> done_so_far t = done_so_far s @ os"
proof (induction rule: rtranclp_induct)
  case base
  show ?case by (intro exI [of _ "[]"]) simp
next
  case (step t u)
  obtain es os where run: "spec_run nxt out (abs s) es = Some (abs t, os)"
    "done_so_far t = done_so_far s @ os" using step by blast
  obtain e where e: "nxt (abs t) e = Some (abs u)" "done_so_far u = done_so_far t @ out (abs t) e"
    using simulate [OF inv_run [OF step.hyps(1) step.prems] step.hyps(2)] by blast
  then have "spec_run nxt out (abs t) [e] = Some (abs u, out (abs t) e)" by simp
  from spec_run_append [OF run(1) this] show ?case
    using run(2) e(2) by (metis append.assoc)
qed

end

end
