(* ===== verification/ServerRaces.thy ===== *)
theory ServerRaces
  imports ServerSteps Simulation
begin

text \<open>
  All threads of the server at once: the steps of the TCP thread, the two critical sections of the
  timeout thread, the status datagrams of the owner's thread and the arrival of bytes, interleaved
  in any order. The invariant of the server survives, in a weaker form: a client may be removed in
  the middle of its message. The faults that a step may end in are listed, with their causes. The
  interleaved server refines a machine of sessions, sockets included.
\<close>

section \<open>Interleaving\<close>

type_synonym 'u race_state = "tcp_pc \<times> bool \<times> 'u robot_server_ctx \<times> world"
  \<comment> \<open>the flag: the timeout thread has judged the client and not yet removed it\<close>

inductive race_step :: "nat \<Rightarrow> 'u race_state \<Rightarrow> 'u race_state \<Rightarrow> bool" for policy where
  tcp: "tcp_step policy pc ctx w = Inr (pc1, ctx1, w1) \<Longrightarrow> race_step policy (pc, p, ctx, w) (pc1, p, ctx1, w1)"
| judge: "timeout_check ctx w = Inr (expired, w1) \<Longrightarrow> race_step policy (pc, False, ctx, w) (pc, expired, ctx, w1)"
| expire: "remove_client ctx w = Inr (ctx1, w1) \<Longrightarrow> race_step policy (pc, True, ctx, w) (pc, False, ctx1, w1)"
| status: "robot_protocol_send_position_velocity_torque (Some ctx) (Some s) w = (r, w1) \<Longrightarrow>
    race_step policy (pc, p, ctx, w) (pc, p, ctx, w1)"
| robot_status: "robot_protocol_send_robot_status (Some ctx) (Some rs) w = (r, w1) \<Longrightarrow>
    race_step policy (pc, p, ctx, w) (pc, p, ctx, w1)"
| halt: "stop_request ctx w = (ctx1, w1) \<Longrightarrow> race_step policy (pc, p, ctx, w) (pc, p, ctx1, w1)"
| network: "race_step policy (pc, p, ctx, w)
    (pc, p, ctx, w\<lparr>w_inq := (w_inq w)(fd := w_inq w fd @ q)\<rparr>)"

inductive_cases race_stepE: "race_step policy (pc, p, ctx, w) s"

section \<open>The invariant\<close>

text \<open>The blocks that the thread holds in its local variables.\<close>

primrec kind_blocks :: "reply_kind \<Rightarrow> nat set" where
  "kind_blocks ReplyOk = {}"
| "kind_blocks (ReplyErr bytes) = {}"
| "kind_blocks (ReplyWith c) = set (ctx_blocks c)"

primrec after_blocks :: "after \<Rightarrow> nat set" where
  "after_blocks Onward = {}"
| "after_blocks (Release p) = {p}"
| "after_blocks (Dismiss p) = {p}"

fun pc_blocks :: "tcp_pc \<Rightarrow> nat set" where
  "pc_blocks (Receiving h p payload k) = {p}"
| "pc_blocks (Handling h p payload) = {p}"
| "pc_blocks (Registering port p) = {p}"
| "pc_blocks (Replying kind next) = kind_blocks kind \<union> after_blocks next"
| "pc_blocks (Freeing p b) = {p}"
| "pc_blocks _ = {}"

primrec kind_ok :: "reply_kind \<Rightarrow> bool" where
  "kind_ok ReplyOk = True"
| "kind_ok (ReplyErr bytes) = (length bytes = 132)"
| "kind_ok (ReplyWith c) = (distinct (ctx_blocks c) \<and>
     length (case crc_payload c of None \<Rightarrow> [] | Some (_, bs) \<Rightarrow> bs) = unat (payload_length (crc_header c)))"

definition own_socket :: "int \<Rightarrow> 'u robot_server_ctx \<Rightarrow> world \<Rightarrow> bool" where
  "own_socket sock ctx w \<longleftrightarrow> sock \<in> set (w_fds w) \<and> sock \<noteq> tcp_socket ctx \<and>
     (connected (client ctx) \<longrightarrow> sock \<noteq> client_socket (client ctx))"

fun pc_ok :: "tcp_pc \<Rightarrow> 'u robot_server_ctx \<Rightarrow> world \<Rightarrow> bool" where
  "pc_ok (Accepted sock addr ready) ctx w = own_socket sock ctx w"
| "pc_ok (Refused sock ready) ctx w = own_socket sock ctx w"
| "pc_ok (Reading sock header offset to_read) ctx w = (length header = HEADER_SIZE \<and> loop_pos offset to_read)"
| "pc_ok (Receiving h p payload k) ctx w =
     (length payload = unat (payload_length h) \<and> length payload \<le> MAX_PAYLOAD_SIZE \<and> k \<le> length payload)"
| "pc_ok (Handling h p payload) ctx w =
     (length payload = unat (payload_length h) \<and> length payload \<le> MAX_PAYLOAD_SIZE)"
| "pc_ok (Registering port p) ctx w = (0 < port)"
| "pc_ok (Replying kind next) ctx w = (kind_ok kind \<and> kind_blocks kind \<inter> after_blocks next = {})"
| "pc_ok _ ctx w = True"

text \<open>
  The record of a server without client need not be zero any more: a registration or a time stamp
  may have been stored after the client was removed. What matters of it is the socket.
\<close>

definition settled :: "'u robot_server_ctx \<Rightarrow> 'u robot_server_ctx" where
  "settled ctx = (if connected (client ctx) then ctx else ctx\<lparr>client := zero_client\<rparr>)"

definition shared_inv ::
  "('u \<Rightarrow> nat set) \<Rightarrow> ('u \<Rightarrow> bool) \<Rightarrow> 'u robot_server_ctx \<Rightarrow> nat set \<Rightarrow> 'u robot_server_ctx \<Rightarrow> world \<Rightarrow> bool" where
  "shared_inv owns ok ctx0 R ctx w \<longleftrightarrow> server_inv owns ok ctx0 R (settled ctx) w \<and>
     (\<not> connected (client ctx) \<longrightarrow> client_socket (client ctx) = 0)"

definition race_inv ::
  "('u \<Rightarrow> nat set) \<Rightarrow> ('u \<Rightarrow> bool) \<Rightarrow> 'u robot_server_ctx \<Rightarrow> nat set \<Rightarrow>
   tcp_pc \<Rightarrow> 'u robot_server_ctx \<Rightarrow> world \<Rightarrow> bool" where
  "race_inv owns ok ctx0 R pc ctx w \<longleftrightarrow>
     shared_inv owns ok ctx0 (R \<union> pc_blocks pc) ctx w \<and> R \<inter> pc_blocks pc = {} \<and> pc_ok pc ctx w"

section \<open>Faults\<close>

text \<open>
  Where a step of the TCP thread may go wrong, and why. Filling the set of descriptors: one of them
  does not fit in. Reading a header: the stream is out of step, so that the read position is behind
  the header, and a byte waits. Receiving a payload: the client has sent no more of it, and the call
  waits. Answering: an allocation is refused, which the code does not notice. Handling a command: the
  fault is one of the callback. Nowhere else, and in no other way: the bytes of a payload are stored
  inside the block allocated for them, and no block is freed or used that is not allocated.
\<close>

definition alloc_refused :: "nat \<Rightarrow> world \<Rightarrow> bool" where
  "alloc_refused n w \<longleftrightarrow> (\<exists>k. w_calls w \<le> k \<and> k < w_calls w + n \<and> \<not> e_malloc (w_env w) k)"

definition callback_fault :: "protocol_header \<Rightarrow> byte list \<Rightarrow> 'u robot_server_ctx \<Rightarrow> world \<Rightarrow> fault \<Rightarrow> bool" where
  "callback_fault h payload ctx w e \<longleftrightarrow> e \<noteq> DoubleFree \<and> e \<noteq> UseAfterFree \<and>
     message_type h \<noteq> msg_num MSG_REGISTER_UDP_PORT \<and>
     (if message_type h = msg_num MSG_GET_ERROR_INFO
      then \<exists>f. get_error_info (callbacks (config ctx)) = Some f \<and> f (user_data ctx) w = Inl e
      else \<exists>f. handle_command (callbacks (config ctx)) = Some f \<and> f h payload (user_data ctx) w = Inl e)"

fun may_fault :: "tcp_pc \<Rightarrow> 'u robot_server_ctx \<Rightarrow> world \<Rightarrow> fault \<Rightarrow> bool" where
  "may_fault Top ctx w e \<longleftrightarrow> e = OutOfBounds \<and> running ctx \<noteq> 0 \<and>
     (\<exists>fd. (fd = tcp_socket ctx \<or> connected (client ctx) \<and> fd = client_socket (client ctx)) \<and> (fd < 0 \<or> 1024 \<le> fd))"
| "may_fault (Reading sock header offset to_read) ctx w e \<longleftrightarrow>
     e = OutOfBounds \<and> 0 < offset \<and> (\<exists>b bs q. w_inq w sock = Seg b bs # q)"
| "may_fault (Receiving h p payload k) ctx w e \<longleftrightarrow> e = Blocked \<and> w_inq w (client_socket (client ctx)) = []"
| "may_fault (Handling h p payload) ctx w e \<longleftrightarrow> callback_fault h payload ctx w e"
| "may_fault (Replying kind next) ctx w e \<longleftrightarrow> e = NullDeref \<and> alloc_refused 4 w"
| "may_fault _ ctx w e \<longleftrightarrow> False"

abbreviation faults :: "tcp_pc \<Rightarrow> 'u robot_server_ctx \<Rightarrow> world \<Rightarrow> fault set" where
  "faults pc ctx w \<equiv> {e. may_fault pc ctx w e}"

section \<open>Sessions\<close>

text \<open>
  The contract of the connection handling. A visitor arrives, one at a time, with a socket that is not
  the one of the session. If there is no session, it is admitted and becomes the session; if there
  is one, it is turned away and then hung up on. A session may register a port above zero and ends
  once. A socket is closed when its session ends or when its visitor is hung up on, and at no other
  time: the sockets that are open for clients are those of the session and of the visitor.
\<close>

record session =
  ses_socket :: int
  ses_addr :: sockaddr_in
  ses_port :: "u16 option"

datatype visitor = Arrived int sockaddr_in | Turned_away int

datatype session_event =
  Arrive int sockaddr_in | Admit | Refuse | HangUp | Register u16 | Leave | Quiet

type_synonym session_state = "session option \<times> visitor option"

primrec visitor_socket :: "visitor \<Rightarrow> int" where
  "visitor_socket (Arrived s a) = s"
| "visitor_socket (Turned_away s) = s"

fun session_sockets :: "session_state \<Rightarrow> int set" where
  "session_sockets (x, v) = ses_socket ` set_option x \<union> visitor_socket ` set_option v"

fun session_next :: "session_state \<Rightarrow> session_event \<Rightarrow> session_state option" where
  "session_next (x, None) (Arrive s a) =
     (if s \<in> session_sockets (x, None) then None else Some (x, Some (Arrived s a)))"
| "session_next (None, Some (Arrived s a)) Admit =
     Some (Some \<lparr>ses_socket = s, ses_addr = a, ses_port = None\<rparr>, None)"
| "session_next (Some x, Some (Arrived s a)) Refuse = Some (Some x, Some (Turned_away s))"
| "session_next (x, Some (Turned_away s)) HangUp = Some (x, None)"
| "session_next (Some x, v) (Register p) = (if 0 < p then Some (Some (x\<lparr>ses_port := Some p\<rparr>), v) else None)"
| "session_next (Some x, v) Leave = Some (None, v)"
| "session_next a Quiet = Some a"
| "session_next _ _ = None"

fun session_closes :: "session_state \<Rightarrow> session_event \<Rightarrow> event list" where
  "session_closes (x, Some (Turned_away s)) HangUp = [EvClose s]"
| "session_closes (Some x, v) Leave = [EvClose (ses_socket x)]"
| "session_closes _ _ = []"

definition session_of :: "'u robot_server_ctx \<Rightarrow> session option" where
  "session_of ctx =
     (let c = client ctx in
      if connected c
      then Some \<lparr>ses_socket = client_socket c, ses_addr = client_addr c,
             ses_port = (if udp_port_registered c then Some (registered_udp_port c) else None)\<rparr>
      else None)"

fun visitor_of :: "tcp_pc \<Rightarrow> visitor option" where
  "visitor_of (Accepted sock addr ready) = Some (Arrived sock addr)"
| "visitor_of (Refused sock ready) = Some (Turned_away sock)"
| "visitor_of _ = None"

fun race_session :: "'u race_state \<Rightarrow> session_state" where
  "race_session (pc, p, ctx, w) = (session_of ctx, visitor_of pc)"

abbreviation held :: "tcp_pc \<Rightarrow> 'u robot_server_ctx \<Rightarrow> int set" where
  "held pc ctx \<equiv> session_sockets (session_of ctx, visitor_of pc)"

text \<open>The output of the refinement: the calls of \<open>close\<close>.\<close>

fun race_closes :: "'u race_state \<Rightarrow> event list" where
  "race_closes (pc, p, ctx, w) = closes w"

section \<open>The shared record\<close>

lemma settled_sel [simp]:
  "tcp_socket (settled ctx) = tcp_socket ctx" "client_mutex (settled ctx) = client_mutex ctx"
  "config (settled ctx) = config ctx" "user_data (settled ctx) = user_data ctx"
  "connected (client (settled ctx)) = connected (client ctx)"
  "connected (client ctx) \<Longrightarrow> settled ctx = ctx"
  "settled (ctx\<lparr>user_data := u\<rparr>) = (settled ctx)\<lparr>user_data := u\<rparr>"
  by (simp_all add: settled_def)

lemma shared_connected:
  "shared_inv owns ok ctx0 R ctx w \<Longrightarrow> connected (client ctx) \<Longrightarrow> server_inv owns ok ctx0 R ctx w"
  by (simp add: shared_inv_def)

lemma connected_shared: "server_inv owns ok ctx0 R ctx w \<Longrightarrow> shared_inv owns ok ctx0 R ctx w"
  by (cases "connected (client ctx)")
    (auto simp: shared_inv_def settled_def server_inv_def client_inv_def client_rec_inv_def lock_held_def)

lemma shared_frame:
  "shared_inv owns ok ctx0 R ctx w \<Longrightarrow> w_heap w' = w_heap w \<Longrightarrow> w_next w' = w_next w \<Longrightarrow>
   w_sems w' = w_sems w \<Longrightarrow> w_env w' = w_env w \<Longrightarrow> w_fds w' = w_fds w \<Longrightarrow> shared_inv owns ok ctx0 R ctx w'"
  by (auto simp: shared_inv_def intro: server_inv_frame)

lemma session_of_update [simp]:
  "session_of (ctx\<lparr>user_data := u\<rparr>) = session_of ctx"
  "session_of (ctx\<lparr>client := (client ctx)\<lparr>last_command := t\<rparr>\<rparr>) = session_of ctx"
  by (simp_all add: session_of_def Let_def)

text \<open>A record that changes while nobody is connected, or in its time stamp only.\<close>

lemma shared_last_command:
  "shared_inv owns ok ctx0 R ctx w \<Longrightarrow> shared_inv owns ok ctx0 R (ctx\<lparr>client := (client ctx)\<lparr>last_command := t\<rparr>\<rparr>) w"
  by (cases "connected (client ctx)")
    (auto simp: shared_inv_def settled_def server_inv_def client_inv_def client_rec_inv_def lock_held_def)

lemma shared_registered:
  "shared_inv owns ok ctx0 R ctx w \<Longrightarrow> 0 < port \<Longrightarrow>
   shared_inv owns ok ctx0 R
     (ctx\<lparr>client := (client ctx)\<lparr>registered_udp_port := port, udp_port_registered := True\<rparr>\<rparr>) w"
  by (cases "connected (client ctx)")
    (auto simp: shared_inv_def settled_def server_inv_def client_inv_def client_rec_inv_def lock_held_def)

text \<open>The operations see no more of the record of a server without client than that there is none.\<close>

lemma new_client_any: "new_client c s a t = new_client c' s a t"
  by (cases c; cases c') (simp add: new_client_def)

lemma add_client_settled: "\<not> connected (client ctx) \<Longrightarrow> add_client ctx s a w = add_client (settled ctx) s a w"
  using new_client_any [of "client ctx" _ _ _ zero_client]
  by (auto simp: add_client_def settled_def Let_def intro!: andThen_cong)

lemma remove_client_settled:
  "\<not> connected (client ctx) \<Longrightarrow>
   remove_client ctx w = andThen (remove_client (settled ctx) w) (\<lambda>(_, w1). Inr (ctx, w1))"
  by (auto simp: remove_client_def andThen_assoc split_def settled_def intro!: andThen_cong)

lemma timeout_check_settled: "timeout_check (settled ctx) w = timeout_check ctx w"
  by (cases "connected (client ctx)") (auto simp: timeout_check_def settled_def Let_def intro!: andThen_cong)

lemma session_socket: "ses_socket ` set_option (session_of ctx) =
    (if connected (client ctx) then {client_socket (client ctx)} else {})"
  by (simp add: session_of_def Let_def)

lemma held_open:
  assumes "race_inv owns ok ctx0 R pc ctx w"
  shows "held pc ctx \<subseteq> set (w_fds w)"
proof -
  have "server_inv owns ok ctx0 (R \<union> pc_blocks pc) (settled ctx) w" "pc_ok pc ctx w"
    using assms by (simp_all add: race_inv_def shared_inv_def)
  then have "connected (client ctx) \<Longrightarrow> client_socket (client ctx) \<in> set (w_fds w)"
    and "visitor_socket ` set_option (visitor_of pc) \<subseteq> set (w_fds w)"
    by (simp_all add: server_inv_def client_inv_def client_rec_inv_def) (cases pc; simp add: own_socket_def)
  then show ?thesis by (simp add: session_socket)
qed

section \<open>Sending\<close>

text \<open>A response cannot be allocated only if memory is refused.\<close>

lemma allocate_refused:
  assumes "allocate_response_context len type w = Inr (None, w')" and "\<not> sint len < 0"
  shows "alloc_refused 4 w"
proof (rule ccontr)
  assume "\<not> alloc_refused 4 w"
  then have "e_malloc (w_env w) (w_calls w + k)" if "k < 4" for k using that by (simp add: alloc_refused_def)
  from this [of 0] this [of 1] this [of 3] show False
    using assms
    by (auto simp: allocate_response_context_def platform_malloc_def malloc_def get_timestamp_ms_def
        clock_gettime_def Let_def numeral_3_eq_3 split: if_splits)
qed

lemma respond_ok_fault:
  assumes "heap_ok w" and "respond fd MSG_OK_RESPONSE w = Inl e"
  shows "e = NullDeref \<and> alloc_refused 4 w"
proof (cases rule: allocate_spec [OF assms(1), of 0 "msg_num MSG_OK"])
  case (1 w')
  then show ?thesis
    using assms(2) allocate_refused [OF 1(1)]
    by (simp add: respond_def MSG_OK_RESPONSE_def send_command_response_context_def)
next
  case (2 c w')
  obtain r w'' where "send_command_response_context fd (Some c) w' = Inr (r, w'')"
    by (rule send_fresh_context [of w' c w "[]" "msg_num MSG_OK" fd]) (use 2 in \<open>simp_all add: ctx_body_def\<close>)
  then show ?thesis using assms(2) 2(1) by (simp add: respond_def MSG_OK_RESPONSE_def)
qed

lemma respond_err_fault:
  assumes "heap_ok w" and "length bytes = 132" and "respond fd (MSG_ERR_RESPONSE bytes) w = Inl e"
  shows "e = NullDeref \<and> alloc_refused 4 w"
proof -
  have bytes: "bytes \<noteq> []" "length bytes < 2 ^ 32" using assms(2) by auto
  show ?thesis
  proof (cases rule: msg_err_response_spec [OF assms(1) bytes])
    case (1 w')
    then have "allocate_response_context (word_of_nat (length bytes)) (msg_num MSG_ERROR) w = Inr (None, w')"
      by (auto simp: MSG_ERR_RESPONSE_def andThen_eq_Inr split: option.split_asm if_splits) (rule ccontr, auto)
    from allocate_refused [OF this] show ?thesis
      using 1(1) assms(2,3) by (simp add: respond_def send_command_response_context_def)
  next
    case (2 c w')
    obtain r w'' where "send_command_response_context fd (Some c) w' = Inr (r, w'')"
      by (rule send_fresh_context [of w' c w bytes "msg_num MSG_ERROR" fd]) (use 2 in simp_all)
    then show ?thesis using assms(3) 2(1) by (simp add: respond_def)
  qed
qed

lemma no_close_sends: "\<forall>ev \<in> set evs. \<exists>bs. ev = EvSend fd bs \<Longrightarrow> filter is_close evs = []"
  by (auto simp: filter_empty_conv)

lemma response_inv:
  "server_inv owns ok ctx0 S c w \<Longrightarrow> response_done fd w type body r w' \<Longrightarrow>
   server_inv owns ok ctx0 S c w' \<and> w_fds w' = w_fds w \<and> closes w' = closes w"
  by (rule conjI, erule (1) server_inv_response) (auto simp: response_done_def same_io_def no_close_sends)

lemma respond_kind_holds:
  assumes inv: "server_inv owns ok ctx0 (S \<union> kind_blocks k) c w" and k: "kind_ok k" "S \<inter> kind_blocks k = {}"
  shows "holds {e. e = NullDeref \<and> alloc_refused 4 w} (respond fd (reply_of k) w)
    (\<lambda>(_, w'). server_inv owns ok ctx0 S c w' \<and> w_fds w' = w_fds w \<and> closes w' = closes w)"
proof (cases k)
  case ReplyOk
  then show ?thesis
    using respond_ok_spec [OF server_inv_heap [OF inv], of fd] respond_ok_fault [OF server_inv_heap [OF inv], of fd] inv
    by (auto dest: response_inv)
next
  case (ReplyErr bytes)
  then have bytes: "length bytes = 132" "bytes \<noteq> []" using k(1) by auto
  show ?thesis
    using ReplyErr respond_err_spec [OF server_inv_heap [OF inv] bytes(2), of fd] inv bytes(1)
      respond_err_fault [OF server_inv_heap [OF inv] bytes(1), of fd]
    by (auto dest: response_inv)
next
  case (ReplyWith x)
  have u: "user_inv owns ok (S \<union> set (ctx_blocks x)) (user_data c) w"
    using inv ReplyWith by (simp add: server_inv_def)
  then have "ctx_ok x w" using k ReplyWith by (auto simp: ctx_ok_def user_inv_def)
  then obtain r w' evs where s: "send_command_response_context fd (Some x) w = Inr (r, w')"
    "w_heap w' = filter (\<lambda>a. a \<notin> set (ctx_blocks x)) (w_heap w)" "heap_ok w'" "same_io w w'"
    "w_trace w' = w_trace w @ evs" "\<forall>ev \<in> set evs. \<exists>bs. ev = EvSend fd bs"
    by (rule send_spec [OF server_inv_heap [OF inv]])
  have "user_inv owns ok S (user_data c) w'"
    using u s(2,3) k ReplyWith by (auto simp: user_inv_def)
  then have "server_inv owns ok ctx0 S c w'"
    using inv same_ioD [OF s(4)] by (auto simp: server_inv_def lock_held_def client_inv_def)
  then show ?thesis
    using ReplyWith s(1,5) same_ioD [OF s(4)] no_close_sends [OF s(6)] by (simp add: respond_def)
qed

section \<open>What a step keeps\<close>

text \<open>The invariant, the descriptors that are not held for clients, and an event of the machine.\<close>

definition step_post ::
  "('u \<Rightarrow> nat set) \<Rightarrow> ('u \<Rightarrow> bool) \<Rightarrow> 'u robot_server_ctx \<Rightarrow> nat set \<Rightarrow>
   tcp_pc \<Rightarrow> 'u robot_server_ctx \<Rightarrow> world \<Rightarrow> 'u tcp_state \<Rightarrow> bool" where
  "step_post owns ok ctx0 R pc ctx w s' \<longleftrightarrow>
     (case s' of (pc', ctx', w') \<Rightarrow> race_inv owns ok ctx0 R pc' ctx' w' \<and>
       set (w_fds w') - held pc' ctx' = set (w_fds w) - held pc ctx \<and>
       (\<exists>e. session_next (session_of ctx, visitor_of pc) e = Some (session_of ctx', visitor_of pc') \<and>
            closes w' = closes w @ session_closes (session_of ctx, visitor_of pc) e))"

lemma quiet:
  "race_inv owns ok ctx0 R pc' ctx' w' \<Longrightarrow> session_of ctx' = session_of ctx \<Longrightarrow> w_fds w' = w_fds w \<Longrightarrow>
   visitor_of pc' = visitor_of pc \<Longrightarrow> closes w' = closes w \<Longrightarrow> step_post owns ok ctx0 R pc ctx w (pc', ctx', w')"
  unfolding step_post_def by (auto intro!: exI [of _ Quiet])

lemma event:
  "race_inv owns ok ctx0 R pc' ctx' w' \<Longrightarrow> set (w_fds w') - held pc' ctx' = set (w_fds w) - held pc ctx \<Longrightarrow>
   session_next (session_of ctx, visitor_of pc) e = Some (session_of ctx', visitor_of pc') \<Longrightarrow>
   closes w' = closes w @ session_closes (session_of ctx, visitor_of pc) e \<Longrightarrow>
   step_post owns ok ctx0 R pc ctx w (pc', ctx', w')"
  unfolding step_post_def by blast

lemma own_socket_frame: "own_socket s ctx w \<Longrightarrow> w_fds w' = w_fds w \<Longrightarrow> own_socket s ctx w'"
  by (simp add: own_socket_def)

lemma pc_ok_frame: "pc_ok pc ctx w \<Longrightarrow> w_fds w' = w_fds w \<Longrightarrow> pc_ok pc ctx w'"
  by (cases pc) (auto intro: own_socket_frame)

text \<open>A step that leaves the heap, the locks and the descriptors alone.\<close>

lemma race_inv_frame:
  "race_inv owns ok ctx0 R pc ctx w \<Longrightarrow> w_heap w' = w_heap w \<Longrightarrow> w_next w' = w_next w \<Longrightarrow>
   w_sems w' = w_sems w \<Longrightarrow> w_env w' = w_env w \<Longrightarrow> w_fds w' = w_fds w \<Longrightarrow> race_inv owns ok ctx0 R pc ctx w'"
  by (auto simp: race_inv_def intro: shared_frame pc_ok_frame)

lemma race_inv_pc:
  "race_inv owns ok ctx0 R pc ctx w \<Longrightarrow> pc_blocks pc' = pc_blocks pc \<Longrightarrow> pc_ok pc' ctx w \<Longrightarrow>
   race_inv owns ok ctx0 R pc' ctx w"
  by (simp add: race_inv_def)

lemma selected_post:
  assumes "race_inv owns ok ctx0 R (Waiting fds) ctx w"
  shows "step_post owns ok ctx0 R (Waiting fds) ctx w (selected_step fds ctx w)"
proof -
  obtain a w1 where sel: "platform_select fds w = (a, w1)" by (cases "platform_select fds w")
  have w1: "race_inv owns ok ctx0 R (Waiting fds) ctx w1" "closes w1 = closes w" "w_fds w1 = w_fds w"
    using sel race_inv_frame [OF assms, of w1]
    by (auto simp: platform_select_def split: if_splits select_ans.splits)
  have pc: "race_inv owns ok ctx0 R pc' ctx w1" if "pc_blocks pc' = {}" "pc_ok pc' ctx w1" for pc'
    using race_inv_pc [OF w1(1), of pc'] that by simp
  have stop: "race_inv owns ok ctx0 R Stopped ctx (pr_error ''Server error - quitting'' w1)"
    by (rule race_inv_frame [OF pc]) simp_all
  show ?thesis
    using sel w1 stop by (auto simp: selected_step_def split: select_ans.split intro!: quiet pc)
qed

lemma accept_post:
  assumes inv: "race_inv owns ok ctx0 R (Selected ready) ctx w"
  shows "step_post owns ok ctx0 R (Selected ready) ctx w (accept_step ready ctx w)"
proof -
  have pc: "race_inv owns ok ctx0 R (Checking ready) ctx w" by (rule race_inv_pc [OF inv]) simp_all
  have s: "server_inv owns ok ctx0 R (settled ctx) w" using inv by (simp add: race_inv_def shared_inv_def)
  then have tcp: "tcp_socket ctx \<in> set (w_fds w)" by (simp add: server_inv_def client_inv_def)
  show ?thesis
  proof (cases "tcp_socket ctx \<in> set ready")
    case False
    then show ?thesis by (auto simp: accept_step_def intro: quiet pc)
  next
    case True
    show ?thesis
    proof (cases "e_accept (w_env w) (w_calls w)")
      case None
      then show ?thesis
        using True tcp by (auto simp: accept_step_def platform_accept_def intro!: quiet race_inv_frame [OF pc])
    next
      case (Some aq)
      obtain addr q where aq: "aq = (addr, q)" by (cases aq)
      let ?s = "first_free (w_fds w)"
      let ?w1 = "(tick w)\<lparr>w_fds := ?s # w_fds w, w_inq := (w_inq w)(?s := q)\<rparr>"
      have fresh: "?s \<notin> set (w_fds w)" by (rule first_free_fresh)
      have "shared_inv owns ok ctx0 R ctx ?w1"
        using inv s by (auto simp: race_inv_def shared_inv_def server_inv_def client_inv_def client_rec_inv_def
            lock_held_def user_inv_def heap_ok_def)
      moreover have "own_socket ?s ctx ?w1"
        using fresh tcp s by (auto simp: own_socket_def server_inv_def client_inv_def client_rec_inv_def)
      ultimately have "race_inv owns ok ctx0 R (Accepted ?s addr ready) ctx ?w1" using inv by (simp add: race_inv_def)
      then have "step_post owns ok ctx0 R (Selected ready) ctx w (Accepted ?s addr ready, ctx, ?w1)"
        using fresh held_open [OF inv]
        by (intro event [where e = "Arrive ?s addr"]) auto
      then show ?thesis
        using True tcp Some aq by (simp add: accept_step_def platform_accept_def Let_def)
    qed
  qed
qed

lemma race_inv_read: "race_inv owns ok ctx0 R pc ctx w \<Longrightarrow> read_frame fd w w' \<Longrightarrow> race_inv owns ok ctx0 R pc ctx w'"
  by (erule race_inv_frame) (simp_all add: read_frame_def)

lemma check_post:
  assumes inv: "race_inv owns ok ctx0 R (Checking ready) ctx w"
  shows "step_post owns ok ctx0 R (Checking ready) ctx w (check_step ready ctx w)"
  using race_inv_pc [OF inv] by (auto simp: check_step_def loop_pos_def intro!: quiet)

lemma reading_post:
  assumes inv: "race_inv owns ok ctx0 R (Reading sock header offset to_read) ctx w"
  shows "holds (faults (Reading sock header offset to_read) ctx w) (reading_step sock header offset to_read ctx w)
    (step_post owns ok ctx0 R (Reading sock header offset to_read) ctx w)"
proof -
  have pos: "length header = HEADER_SIZE" "loop_pos offset to_read" using inv by (simp_all add: race_inv_def)
  have post: "step_post owns ok ctx0 R (Reading sock header offset to_read) ctx w (pc, ctx, w1)"
    if "pc_blocks pc = {}" "visitor_of pc = None" "pc_ok pc ctx w1" "read_frame sock w w1" for pc w1
    by (rule quiet [OF race_inv_pc [OF race_inv_read [OF inv that(4)]]])
      (use that in \<open>simp_all add: read_frame_def\<close>)
  show ?thesis
  proof (cases rule: header_turn_cases [OF pos, of sock w])
    case 1
    then show ?thesis by (simp add: reading_step_def)
  next
    case (2 r mem1 w1)
    then show ?thesis by (auto simp: reading_step_def intro!: post)
  next
    case (3 mem1 offset1 to_read1 w1)
    then show ?thesis by (auto simp: reading_step_def intro!: post)
  qed
qed

lemma message_post:
  assumes inv: "race_inv owns ok ctx0 R (Message h) ctx w"
  shows "step_post owns ok ctx0 R (Message h) ctx w (message_step h ctx w)"
proof -
  have s: "server_inv owns ok ctx0 R (settled ctx) w" "\<not> connected (client ctx) \<longrightarrow> client_socket (client ctx) = 0"
    using inv by (simp_all add: race_inv_def shared_inv_def)
  have fail: "kind_ok reply_fail" by (simp add: error_int_body_def)
  show ?thesis
  proof (cases "unat (payload_length h) \<le> MAX_PAYLOAD_SIZE")
    case False
    then show ?thesis
      using race_inv_frame [OF inv, of "pr_error ''message too large'' w"] fail
      by (auto simp: message_step_def Let_def race_inv_def intro!: quiet)
  next
    case True
    show ?thesis
    proof (cases rule: malloc_safe [OF s(1), of "payload_length h"])
      case (1 w1)
      then show ?thesis
        using True s fail by (auto simp: message_step_def Let_def race_inv_def shared_inv_def intro!: quiet)
    next
      case (2 p w1)
      then show ?thesis
        using True s by (auto simp: message_step_def Let_def race_inv_def shared_inv_def intro!: quiet)
    qed
  qed
qed

lemma time_frame: "race_inv owns ok ctx0 R pc ctx w \<Longrightarrow> race_inv owns ok ctx0 R pc ctx (snd (time_now w))"
  by (erule race_inv_frame) (simp_all add: time_now_def)

lemma freeing:
  assumes "shared_inv owns ok ctx0 (R \<union> {p}) ctx w" and "p \<notin> R"
  obtains w1 where "platform_free (Some p) w = Inr w1" and "shared_inv owns ok ctx0 R ctx w1" and "closes w1 = closes w"
    and "w_fds w1 = w_fds w"
proof -
  have "server_inv owns ok ctx0 (insert p R) (settled ctx) w" using assms(1) by (simp add: shared_inv_def)
  then obtain w1 where "platform_free (Some p) w = Inr w1" "server_inv owns ok ctx0 R (settled ctx) w1"
    "w_fds w1 = w_fds w" "w_trace w1 = w_trace w"
    by (rule free_safe [OF _ assms(2)])
  then show thesis using assms(1) by (intro that [of w1]) (simp_all add: shared_inv_def)
qed

lemma receive_post:
  assumes inv: "race_inv owns ok ctx0 R (Receiving h p payload k) ctx w"
  shows "holds (faults (Receiving h p payload k) ctx w) (receive_step h p payload k ctx w)
    (step_post owns ok ctx0 R (Receiving h p payload k) ctx w)"
proof (cases "k < unat (payload_length h)")
  case False
  obtain now w1 where now: "time_now w = (now, w1)" by (cases "time_now w")
  have "race_inv owns ok ctx0 R (Handling h p payload) (ctx\<lparr>client := (client ctx)\<lparr>last_command := now\<rparr>\<rparr>) w1"
    using time_frame [OF inv] now by (simp add: race_inv_def shared_last_command)
  then show ?thesis
    using False now by (auto simp: receive_step_def time_now_def intro!: quiet)
next
  case True
  let ?sock = "client_socket (client ctx)" and ?n = "unat (payload_length h) - k"
  have len: "length payload = unat (payload_length h)" "length payload \<le> MAX_PAYLOAD_SIZE"
    using inv by (simp_all add: race_inv_def)
  show ?thesis
  proof (cases "platform_recv ?sock ?n False w")
    case (Inl e)
    then have "e = Blocked" "w_inq w ?sock = []"
      by (auto simp: platform_recv_def Let_def split: if_splits list.splits recv_ans.splits)
    then show ?thesis using True Inl by (simp add: receive_step_def)
  next
    case (Inr res)
    obtain r got w1 where res: "res = (r, got, w1)" by (cases res)
    have frame: "read_frame ?sock w w1" using recv_frame Inr res by blast
    have inv1: "race_inv owns ok ctx0 R (Receiving h p payload k) ctx w1" by (rule race_inv_read [OF inv frame])
    have tr: "closes w1 = closes w" "w_fds w1 = w_fds w" using frame by (simp_all add: read_frame_def)
    show ?thesis
    proof (cases "r \<le> 0")
      case neg: True
      let ?w1 = "pr_error ''Failed to read entire payload'' w1"
      have "shared_inv owns ok ctx0 (R \<union> {p}) ctx ?w1" "p \<notin> R"
        using race_inv_frame [OF inv1, of ?w1] by (simp_all add: race_inv_def)
      then obtain w2 where "platform_free (Some p) ?w1 = Inr w2" "shared_inv owns ok ctx0 R ctx w2"
        "closes w2 = closes ?w1" "w_fds w2 = w_fds ?w1"
        by (rule freeing)
      then show ?thesis
        using True Inr res neg tr by (auto simp: receive_step_def race_inv_def intro!: quiet)
    next
      case pos: False
      note got = recv_length [OF Inr [unfolded res]]
      define payload1 where "payload1 = take k payload @ got @ drop (k + length got) payload"
      have copied: "memcpy_to payload k got = Inr payload1"
        using got pos True len(1) by (simp add: memcpy_to_def payload1_def)
      have "race_inv owns ok ctx0 R (Receiving h p payload1 (k + nat r)) ctx w1"
        by (rule race_inv_pc [OF inv1]) (use memcpy_to_length [OF copied] got pos True len in simp_all)
      then show ?thesis
        using True Inr res pos copied tr by (auto simp: receive_step_def Let_def intro!: quiet)
    qed
  qed
qed

lemma close_other:
  assumes "shared_inv owns ok ctx0 S ctx w" and "own_socket sock ctx w"
  shows "platform_close sock w = (0, emit (EvClose sock) (w\<lparr>w_fds := removeAll sock (w_fds w)\<rparr>))"
    and "shared_inv owns ok ctx0 S ctx (emit (EvClose sock) (w\<lparr>w_fds := removeAll sock (w_fds w)\<rparr>))"
proof -
  show "platform_close sock w = (0, emit (EvClose sock) (w\<lparr>w_fds := removeAll sock (w_fds w)\<rparr>))"
    using assms(2) by (simp add: own_socket_def platform_close_def)
  show "shared_inv owns ok ctx0 S ctx (emit (EvClose sock) (w\<lparr>w_fds := removeAll sock (w_fds w)\<rparr>))"
    using assms
    by (cases "connected (client ctx)")
      (auto simp: shared_inv_def server_inv_def client_inv_def client_rec_inv_def own_socket_def lock_held_def
        user_inv_def heap_ok_def settled_def)
qed

lemma refused_post:
  assumes inv: "race_inv owns ok ctx0 R (Refused sock ready) ctx w"
  shows "step_post owns ok ctx0 R (Refused sock ready) ctx w (Checking ready, ctx, snd (platform_close sock w))"
proof -
  have "shared_inv owns ok ctx0 R ctx w" and own: "own_socket sock ctx w" using inv by (simp_all add: race_inv_def)
  note c = close_other [OF this]
  have "sock \<notin> ses_socket ` set_option (session_of ctx)" using own by (simp add: session_socket own_socket_def)
  then show ?thesis
    by (intro event [where e = HangUp]) (use c in \<open>auto simp: race_inv_def\<close>)
qed

text \<open>The client, if there is one, leaves.\<close>

lemma leave:
  assumes "race_inv owns ok ctx0 R pc' ctx' w'" and "race_inv owns ok ctx0 R pc ctx w"
    and "\<not> connected (client ctx')" and "visitor_of pc' = visitor_of pc"
    and "w_fds w' = (if connected (client ctx) then removeAll (client_socket (client ctx)) (w_fds w) else w_fds w)"
    and "closes w' = closes w @ (if connected (client ctx) then [EvClose (client_socket (client ctx))] else [])"
  shows "step_post owns ok ctx0 R pc ctx w (pc', ctx', w')"
proof (cases "connected (client ctx)")
  case True
  have "set (w_fds w') - held pc' ctx' = set (w_fds w) - held pc ctx"
    using True assms(3-5) by (auto simp: session_socket)
  then show ?thesis
    using True assms(1,3-6)
    by (intro event [where e = Leave]) (simp_all add: session_of_def Let_def del: session_sockets.simps)
next
  case False
  then show ?thesis using assms by (intro quiet) (simp_all add: session_of_def Let_def)
qed

lemma replying_post:
  assumes inv: "race_inv owns ok ctx0 R (Replying kind next) ctx w"
  shows "holds (faults (Replying kind next) ctx w) (tcp_step policy (Replying kind next) ctx w) (step_post owns ok ctx0 R (Replying kind next) ctx w)"
proof -
  have s: "server_inv owns ok ctx0 (R \<union> after_blocks next \<union> kind_blocks kind) (settled ctx) w"
    "\<not> connected (client ctx) \<longrightarrow> client_socket (client ctx) = 0"
    using inv by (simp_all add: race_inv_def shared_inv_def Un_ac)
  have k: "kind_ok kind" "(R \<union> after_blocks next) \<inter> kind_blocks kind = {}" "R \<inter> after_blocks next = {}"
    using inv by (auto simp: race_inv_def)
  have pc: "pc_blocks (resume next) = after_blocks next" "visitor_of (resume next) = None"
    "pc_ok (resume next) ctx w'" for w'
    by (cases "next"; simp)+
  show ?thesis
    by (simp, rule safe_andThen [OF respond_kind_holds [OF s(1) k(1,2)]])
      (use s(2) k pc in \<open>auto simp: race_inv_def shared_inv_def intro!: quiet\<close>)
qed

lemma registering_post:
  assumes inv: "race_inv owns ok ctx0 R (Registering port p) ctx w"
  shows "holds F (register_step port p ctx w) (step_post owns ok ctx0 R (Registering port p) ctx w)"
proof -
  let ?S = "insert p R"
  let ?ctx = "ctx\<lparr>client := (client ctx)\<lparr>registered_udp_port := port, udp_port_registered := True\<rparr>\<rparr>"
  have s: "server_inv owns ok ctx0 ?S (settled ctx) w" "p \<notin> R" "0 < port"
    "\<not> connected (client ctx) \<longrightarrow> client_socket (client ctx) = 0"
    using inv by (simp_all add: race_inv_def shared_inv_def)
  have post: "step_post owns ok ctx0 R (Registering port p) ctx w
      (Replying ReplyOk (Release p), ?ctx, pr_info ''registered UDP port'' w2)"
    if "server_inv owns ok ctx0 ?S (settled ctx) w2" "w_trace w2 = w_trace w" "w_fds w2 = w_fds w" for w2
  proof -
    have "shared_inv owns ok ctx0 ?S ctx w2" using that s(4) by (simp add: shared_inv_def)
    from shared_registered [OF shared_frame [OF this] s(3), of "pr_info ''registered UDP port'' w2"]
    have "race_inv owns ok ctx0 R (Replying ReplyOk (Release p)) ?ctx (pr_info ''registered UDP port'' w2)"
      using s(2) by (simp add: race_inv_def)
    then show ?thesis
      using that(2,3) s(3)
      by (intro event [where e = "if connected (client ctx) then Register port else Quiet"])
        (simp_all add: session_of_def Let_def)
  qed
  have "holds F (andThen (lock_take (client_mutex (settled ctx)) w) (\<lambda>(_, w1).
      andThen (lock_give (client_mutex (settled ctx)) w1) (\<lambda>(_, w2).
        Inr (Replying ReplyOk (Release p), ?ctx, pr_info ''registered UDP port'' w2))))
      (step_post owns ok ctx0 R (Registering port p) ctx w)"
    by (rule take_safe [OF s(1)], simp del: settled_sel, erule give_safe [OF _ refl], simp add: post)
  then show ?thesis by (simp add: register_step_def)
qed

context command_handler
begin

lemma removing_safe:
  assumes inv: "shared_inv owns ok ctx0 S ctx w" and cbs: "callbacks (config ctx0) = cbs"
  shows "holds F (remove_client ctx w) (\<lambda>(ctx', w'). shared_inv owns ok ctx0 S ctx' w' \<and>
    \<not> connected (client ctx') \<and> tcp_socket ctx' = tcp_socket ctx \<and>
    w_fds w' = (if connected (client ctx) then removeAll (client_socket (client ctx)) (w_fds w) else w_fds w) \<and>
    closes w' = closes w @ (if connected (client ctx) then [EvClose (client_socket (client ctx))] else []))"
proof -
  have s: "server_inv owns ok ctx0 S (settled ctx) w" using inv by (simp add: shared_inv_def)
  note rem = remove_client_safe [OF s cbs]
  have tcp: "tcp_socket c = tcp_socket ctx" if "server_inv owns ok ctx0 S c v" for c v
    using that s fixed_partD(3) [of ctx0 c] fixed_partD(3) [of ctx0 "settled ctx"] by (simp add: server_inv_def)
  show ?thesis
  proof (cases "connected (client ctx)")
    case True
    then have same: "settled ctx = ctx" by simp
    show ?thesis
      by (rule safe_mono [OF rem [unfolded same]]) (use True in \<open>auto simp: connected_shared tcp\<close>)
  next
    case False
    have "holds F (andThen (lock_take (client_mutex (settled ctx)) w) (\<lambda>(_, w1).
        andThen (lock_give (client_mutex (settled ctx)) w1) (\<lambda>(_, w2). Inr (ctx, w2))))
        (\<lambda>(ctx', w'). shared_inv owns ok ctx0 S ctx' w' \<and> \<not> connected (client ctx') \<and>
           tcp_socket ctx' = tcp_socket ctx \<and> w_fds w' = w_fds w \<and> closes w' = closes w)"
      by (rule take_safe [OF s], simp del: settled_sel, erule give_safe [OF _ refl])
        (use inv False in \<open>simp add: shared_inv_def\<close>)
    then show ?thesis using False by (simp add: remove_client_def)
  qed
qed

lemma removing_post:
  assumes inv: "race_inv owns ok ctx0 R Removing ctx w" and cbs: "callbacks (config ctx0) = cbs"
  shows "holds F (tcp_step policy Removing ctx w) (step_post owns ok ctx0 R Removing ctx w)"
proof -
  have "shared_inv owns ok ctx0 R ctx w" using inv by (simp add: race_inv_def)
  show ?thesis
    unfolding tcp_step.simps
    by (rule safe_andThen [OF removing_safe [OF \<open>shared_inv owns ok ctx0 R ctx w\<close> cbs]])
      (auto intro!: leave [OF _ inv] simp: race_inv_def)
qed

text \<open>The timeout thread removes the client, wherever the TCP thread is.\<close>

lemma expire_post:
  assumes inv: "race_inv owns ok ctx0 R pc ctx w" and cbs: "callbacks (config ctx0) = cbs"
  shows "holds F (remove_client ctx w) (\<lambda>(ctx1, w1). step_post owns ok ctx0 R pc ctx w (pc, ctx1, w1))"
proof -
  have "shared_inv owns ok ctx0 (R \<union> pc_blocks pc) ctx w" using inv by (simp add: race_inv_def)
  then show ?thesis
  proof (rule safe_mono [OF removing_safe [OF _ cbs]], clarify)
    fix ctx1 w1
    assume *: "shared_inv owns ok ctx0 (R \<union> pc_blocks pc) ctx1 w1" "\<not> connected (client ctx1)"
      "tcp_socket ctx1 = tcp_socket ctx"
      "w_fds w1 = (if connected (client ctx) then removeAll (client_socket (client ctx)) (w_fds w) else w_fds w)"
      "closes w1 = closes w @ (if connected (client ctx) then [EvClose (client_socket (client ctx))] else [])"
    have "own_socket s ctx1 w1" if "own_socket s ctx w" for s
      using that * by (auto simp: own_socket_def)
    then have "pc_ok pc ctx1 w1" using inv by (cases pc) (auto simp: race_inv_def)
    with * show "step_post owns ok ctx0 R pc ctx w (pc, ctx1, w1)"
      using inv by (intro leave [OF _ inv]) (simp_all add: race_inv_def)
  qed
qed

lemma adding_safe:
  assumes inv: "shared_inv owns ok ctx0 S ctx w" and cbs: "callbacks (config ctx0) = cbs"
    and sock: "own_socket sock ctx w"
  shows "holds F (add_client ctx sock addr w) (\<lambda>(r, ctx', w').
    shared_inv owns ok ctx0 S ctx' w' \<and> w_fds w' = w_fds w \<and> w_trace w' = w_trace w \<and>
    (if connected (client ctx) then r = -1 \<and> ctx' = ctx
     else r = 0 \<and> connected (client ctx') \<and> client_socket (client ctx') = sock \<and>
       client_addr (client ctx') = addr \<and> \<not> udp_port_registered (client ctx')))"
proof -
  have s: "server_inv owns ok ctx0 S (settled ctx) w" using inv by (simp add: shared_inv_def)
  have "sock \<in> set (w_fds w)" "sock \<noteq> tcp_socket (settled ctx)" using sock by (simp_all add: own_socket_def)
  note add = add_client_safe [OF s cbs this, where addr = addr]
  show ?thesis
  proof (cases "connected (client ctx)")
    case True
    then have same: "settled ctx = ctx" by simp
    show ?thesis by (rule safe_mono [OF add [unfolded same]]) (use True in \<open>auto simp: connected_shared\<close>)
  next
    case False
    show ?thesis
      unfolding add_client_settled [OF False]
      by (rule safe_mono [OF add]) (use False in \<open>auto simp: connected_shared\<close>)
  qed
qed

lemma accepted_post:
  assumes inv: "race_inv owns ok ctx0 R (Accepted sock addr ready) ctx w" and cbs: "callbacks (config ctx0) = cbs"
  shows "holds F (tcp_step policy (Accepted sock addr ready) ctx w) (step_post owns ok ctx0 R (Accepted sock addr ready) ctx w)"
proof -
  have i: "shared_inv owns ok ctx0 R ctx w" "own_socket sock ctx w" using inv by (simp_all add: race_inv_def)
  show ?thesis
    unfolding tcp_step.simps
  proof (rule safe_andThen [OF adding_safe [OF i(1) cbs i(2)]], clarify)
    fix r :: int and ctx1 w1
    assume *: "shared_inv owns ok ctx0 R ctx1 w1" "w_fds w1 = w_fds w" "w_trace w1 = w_trace w"
      "if connected (client ctx) then r = -1 \<and> ctx1 = ctx
       else r = 0 \<and> connected (client ctx1) \<and> client_socket (client ctx1) = sock \<and>
         client_addr (client ctx1) = addr \<and> \<not> udp_port_registered (client ctx1)"
    show "holds F (Inr (if r = 0 then Checking ready else Refused sock ready, ctx1, w1))
        (step_post owns ok ctx0 R (Accepted sock addr ready) ctx w)"
    proof (cases "connected (client ctx)")
      case True
      then have same: "r = -1" "ctx1 = ctx" using *(4) by simp_all
      have "step_post owns ok ctx0 R (Accepted sock addr ready) ctx w (Refused sock ready, ctx, w1)"
      proof (rule event [where e = Refuse])
        show "race_inv owns ok ctx0 R (Refused sock ready) ctx w1"
          using *(1) same own_socket_frame [OF i(2) *(2)] by (simp add: race_inv_def)
      qed (use True i(2) *(2,3) in \<open>simp_all add: session_of_def Let_def own_socket_def\<close>)
      then show ?thesis using same by simp
    next
      case False
      then have "r = 0" and new: "connected (client ctx1)" "client_socket (client ctx1) = sock"
        "client_addr (client ctx1) = addr" "\<not> udp_port_registered (client ctx1)"
        using *(4) by simp_all
      have "step_post owns ok ctx0 R (Accepted sock addr ready) ctx w (Checking ready, ctx1, w1)"
        by (rule event [where e = Admit])
          (use False new *(1-3) in \<open>simp_all add: race_inv_def session_of_def Let_def\<close>)
      then show ?thesis using \<open>r = 0\<close> by simp
    qed
  qed
qed

text \<open>Handling a command: the response of a callback is the thread's from now on.\<close>

lemma callback_post:
  assumes inv: "race_inv owns ok ctx0 R (Handling h p payload) ctx w"
    and hd: "acted owns ok (R \<union> {p}) w rsp u w1"
  shows "step_post owns ok ctx0 R (Handling h p payload) ctx w
    (Replying (answer_kind rsp) (Release p), ctx\<lparr>user_data := u\<rparr>, w1)"
proof (rule quiet)
  have s: "server_inv owns ok ctx0 (R \<union> {p}) (settled ctx) w" "p \<notin> R"
    "\<not> connected (client ctx) \<longrightarrow> client_socket (client ctx) = 0"
    using inv by (simp_all add: race_inv_def shared_inv_def)
  have io: "w_env w1 = w_env w" "w_sems w1 = w_sems w" "w_fds w1 = w_fds w" and u: "user_inv owns ok (R \<union> {p} \<union> rsp_blocks rsp) u w1"
    "(R \<union> {p}) \<inter> rsp_blocks rsp = {}" "rsp_ok rsp w1"
    using hd by (simp_all add: acted_def)
  have blocks: "kind_blocks (answer_kind rsp) = rsp_blocks rsp"
    by (simp add: answer_kind_def split: option.split)
  have "kind_ok (answer_kind rsp)"
    using u(3) by (cases rsp) (simp_all add: answer_kind_def error_int_body_def ctx_ok_def)
  moreover have "server_inv owns ok ctx0 (R \<union> (rsp_blocks rsp \<union> {p})) (settled (ctx\<lparr>user_data := u\<rparr>)) w1"
    using s(1) u(1) io by (auto simp: server_inv_def lock_held_def client_inv_def Un_ac)
  ultimately show "race_inv owns ok ctx0 R (Replying (answer_kind rsp) (Release p)) (ctx\<lparr>user_data := u\<rparr>) w1"
    using s(2,3) u(2) blocks by (auto simp: race_inv_def shared_inv_def)
qed (use hd in \<open>simp_all add: acted_def\<close>)

lemma answered:
  assumes inv: "race_inv owns ok ctx0 R (Handling h p payload) ctx w"
    and m: "holds F m (\<lambda>(rsp, u, w1). acted owns ok (R \<union> {p}) w rsp u w1)"
  shows "holds F (andThen m (\<lambda>(rsp, u, w1). Inr (Replying (answer_kind rsp) (Release p), ctx\<lparr>user_data := u\<rparr>, w1)))
    (step_post owns ok ctx0 R (Handling h p payload) ctx w)"
  by (rule safe_andThen [OF m]) (use callback_post [OF inv] in auto)

lemma safe_own_fault: "safe r Q \<Longrightarrow> holds {e. e \<noteq> DoubleFree \<and> e \<noteq> UseAfterFree \<and> r = Inl e} r Q"
  by (cases r) simp_all

lemma handling_post:
  assumes inv: "race_inv owns ok ctx0 R (Handling h p payload) ctx w" and cbs: "callbacks (config ctx0) = cbs"
  shows "holds (faults (Handling h p payload) ctx w) (handle_step policy h p payload ctx w) (step_post owns ok ctx0 R (Handling h p payload) ctx w)"
proof -
  let ?post = "step_post owns ok ctx0 R (Handling h p payload) ctx w"
  have s: "server_inv owns ok ctx0 (R \<union> {p}) (settled ctx) w" using inv by (simp add: race_inv_def shared_inv_def)
  have c: "callbacks (config ctx) = cbs" and u: "user_inv owns ok (R \<union> {p}) (user_data ctx) w"
    using s cbs by (auto simp: server_inv_def dest: fixed_partD(2))
  have post: "?post (Replying kind (if b then Dismiss p else Release p), ctx, w')"
    if "race_inv owns ok ctx0 R (Handling h p payload) ctx w'" "closes w' = closes w" "w_fds w' = w_fds w"
      "kind_blocks kind = {}" "kind_ok kind" for w' kind b
    by (rule quiet) (use that in \<open>auto simp: race_inv_def\<close>)
  have fail: "?post (Replying reply_fail (Release p), ctx, w')"
    if "race_inv owns ok ctx0 R (Handling h p payload) ctx w'" "closes w' = closes w" "w_fds w' = w_fds w" for w'
    using post [OF that, of reply_fail False] by (simp add: error_int_body_def)
  show ?thesis
  proof (cases "message_type h = msg_num MSG_REGISTER_UDP_PORT")
    case True
    obtain e w1 where v: "check_version policy (unat (payload_length h)) payload w = (e, w1)"
      by (cases "check_version policy (unat (payload_length h)) payload w")
    have "\<exists>l x. w1 = w \<or> w1 = pr l x w"
      using v by (auto simp: check_version_def Let_def split: if_splits)
    then have w1: "race_inv owns ok ctx0 R (Handling h p payload) ctx w1" "closes w1 = closes w" "w_fds w1 = w_fds w"
      using inv by (auto intro: race_inv_frame)
    note e = check_version_frame(3) [OF v s]
    have "race_inv owns ok ctx0 R (Registering (udp_port_of payload) p) ctx w1"
      if "0 < udp_port_of payload"
      by (rule race_inv_pc [OF w1(1)]) (use that in simp_all)
    then have reg: "?post (Registering (udp_port_of payload) p, ctx, w1)" if "0 < udp_port_of payload"
      using that w1(2,3) by (intro quiet) simp_all
    have rej: "?post (Replying (ReplyErr bytes) (Dismiss p), ctx, w1)" if "e = Some bytes" for bytes
      using post [OF w1, of "ReplyErr bytes" True] e [OF that] by simp
    have bad: "?post (Replying reply_fail (Release p), ctx, pr_info x w2)"
      if "race_inv owns ok ctx0 R (Handling h p payload) ctx w2" "closes w2 = closes w" "w_fds w2 = w_fds w" for x w2
      by (rule fail [OF race_inv_frame [OF that(1)]]) (use that(2,3) in simp_all)
    show ?thesis
      using True v reg rej bad [OF w1] bad [OF inv]
      by (auto simp: handle_step_def Let_def split: option.split)
  next
    case other: False
    show ?thesis
    proof (cases "message_type h = msg_num MSG_GET_ERROR_INFO")
      case True
      show ?thesis
      proof (cases "get_error_info cbs")
        case None
        then show ?thesis using True other c fail [OF inv] by (simp add: handle_step_def)
      next
        case (Some f)
        have "holds (faults (Handling h p payload) ctx w) (f (user_data ctx) w)
            (\<lambda>(rsp, _, u', w'). handled owns ok (R \<union> {p}) w rsp u' w')"
          by (rule holds_fewer [OF safe_own_fault [OF error_info_law [OF Some u]]])
            (use True other c Some in \<open>auto simp: callback_fault_def\<close>)
        then have "holds (faults (Handling h p payload) ctx w)
            (andThen (f (user_data ctx) w) (\<lambda>(rsp, _, u, w1). Inr (rsp, u, w1)))
            (\<lambda>(rsp, u, w1). acted owns ok (R \<union> {p}) w rsp u w1)"
          by (rule safe_andThen) (auto intro: handled_acted)
        from answered [OF inv this] show ?thesis
          using True other c Some by (simp add: handle_step_def andThen_assoc split_def)
      qed
    next
      case False
      show ?thesis
      proof (cases "handle_command cbs")
        case None
        then show ?thesis using False other c fail [OF inv] by (simp add: handle_step_def)
      next
        case (Some f)
        have "holds (faults (Handling h p payload) ctx w) (f h payload (user_data ctx) w)
            (\<lambda>(rsp, u', w'). acted owns ok (R \<union> {p}) w rsp u' w')"
          by (rule holds_fewer [OF safe_own_fault [OF command_law [OF Some u]]])
            (use False other c Some in \<open>auto simp: callback_fault_def\<close>)
        from answered [OF inv this] show ?thesis
          using False other c Some by (simp add: handle_step_def split_def)
      qed
    qed
  qed
qed

lemma top_post:
  assumes inv: "race_inv owns ok ctx0 R Top ctx w"
  shows "holds (faults Top ctx w) (tcp_step policy Top ctx w) (step_post owns ok ctx0 R Top ctx w)"
proof (cases "running ctx = 0")
  case True
  then show ?thesis using race_inv_pc [OF inv, of Stopped] by (auto intro!: quiet)
next
  case False
  then have "holds (faults Top ctx w) (watched ctx) (\<lambda>_. True)"
    by (auto simp: watched_def FD_SET_def not_le not_less)
  then show ?thesis
    using False race_inv_pc [OF inv, of "Waiting fds" for fds]
    by (auto elim!: safe_andThen intro!: quiet)
qed

lemma freeing_post:
  assumes inv: "race_inv owns ok ctx0 R (Freeing p b) ctx w"
  shows "holds F (tcp_step policy (Freeing p b) ctx w) (step_post owns ok ctx0 R (Freeing p b) ctx w)"
proof -
  have "shared_inv owns ok ctx0 (R \<union> {p}) ctx w" "p \<notin> R" using inv by (simp_all add: race_inv_def)
  then obtain w1 where "platform_free (Some p) w = Inr w1" "shared_inv owns ok ctx0 R ctx w1" "closes w1 = closes w"
    "w_fds w1 = w_fds w"
    by (rule freeing)
  then show ?thesis by (auto simp: race_inv_def intro!: quiet)
qed

text \<open>Every step of the TCP thread, and every step of the others.\<close>

lemma tcp_step_post:
  assumes inv: "race_inv owns ok ctx0 R pc ctx w" and cbs: "callbacks (config ctx0) = cbs"
  shows "holds (faults pc ctx w) (tcp_step policy pc ctx w) (step_post owns ok ctx0 R pc ctx w)"
proof (cases pc)
  case Stopped
  then show ?thesis using inv by (simp add: quiet)
qed (use inv cbs top_post selected_post accept_post accepted_post refused_post check_post reading_post removing_post
    message_post receive_post handling_post registering_post replying_post freeing_post in simp_all)

end

lemma judge_post:
  assumes inv: "race_inv owns ok ctx0 R pc ctx w"
  shows "holds F (timeout_check ctx w) (\<lambda>(_, w1). step_post owns ok ctx0 R pc ctx w (pc, ctx, w1))"
proof -
  have s: "server_inv owns ok ctx0 (R \<union> pc_blocks pc) (settled ctx) w"
    using inv by (simp add: race_inv_def shared_inv_def)
  have post: "step_post owns ok ctx0 R pc ctx w (pc, ctx, w1)"
    if "server_inv owns ok ctx0 (R \<union> pc_blocks pc) (settled ctx) w1 \<and> w_fds w1 = w_fds w \<and> w_trace w1 = w_trace w" for w1
    by (rule quiet) (use that inv in \<open>auto simp: race_inv_def shared_inv_def intro: pc_ok_frame\<close>)
  show ?thesis
    unfolding timeout_check_settled [of ctx, symmetric]
    by (rule safe_mono [OF timeout_check_safe [OF s]]) (use post in auto)
qed

lemma send_datagram_frame:
  "send_datagram ctx type body w = (r, w1) \<Longrightarrow> race_inv owns ok ctx0 R pc ctx' w \<Longrightarrow>
   race_inv owns ok ctx0 R pc ctx' w1 \<and> closes w1 = closes w \<and> w_fds w1 = w_fds w"
  by (auto simp: send_datagram_def get_timestamp_ms_def clock_gettime_def platform_sendto_def Let_def
      split: if_splits sum.splits elim!: race_inv_frame)

lemma status_frame:
  assumes "race_inv owns ok ctx0 R pc ctx w"
  shows "robot_protocol_send_position_velocity_torque (Some ctx) (Some s) w = (r, w1) \<Longrightarrow>
      race_inv owns ok ctx0 R pc ctx w1 \<and> closes w1 = closes w \<and> w_fds w1 = w_fds w"
    and "robot_protocol_send_robot_status (Some ctx) (Some rs) w = (r, w1) \<Longrightarrow>
      race_inv owns ok ctx0 R pc ctx w1 \<and> closes w1 = closes w \<and> w_fds w1 = w_fds w"
  using assms
  by (auto simp: robot_protocol_send_position_velocity_torque_def robot_protocol_send_robot_status_def
      split: if_splits dest: send_datagram_frame)

text \<open>The owner clears the flag that the loops read.\<close>

lemma halted:
  "race_inv owns ok ctx0 R pc ctx w \<Longrightarrow>
   race_inv owns ok (ctx0\<lparr>running := r\<rparr>) R pc (ctx\<lparr>running := r\<rparr>) w"
proof -
  assume inv: "race_inv owns ok ctx0 R pc ctx w"
  have "settled (ctx\<lparr>running := r\<rparr>) = (settled ctx)\<lparr>running := r\<rparr>" by (simp add: settled_def)
  moreover have "fixed_part (ctx0\<lparr>running := r\<rparr>) (c\<lparr>running := r\<rparr>)" if "fixed_part ctx0 c" for c :: "'a robot_server_ctx"
    using that by (cases c; cases ctx0) (simp add: fixed_part_def)
  moreover have "pc_ok pc (ctx\<lparr>running := r\<rparr>) w"
    using inv by (cases pc) (simp_all add: race_inv_def own_socket_def)
  ultimately show ?thesis
    using inv by (simp add: race_inv_def shared_inv_def server_inv_def lock_held_def client_inv_def)
qed

section \<open>Runs\<close>

lemma race_step_post:
  assumes "command_handler (callbacks (config ctx0)) owns ok" and inv: "race_inv owns ok ctx0 R pc ctx w"
    and "race_step policy (pc, p, ctx, w) (pc', p', ctx', w')"
  shows "\<exists>r. step_post owns ok (ctx0\<lparr>running := r\<rparr>) R pc ctx w (pc', ctx', w')"
proof -
  have keep: "\<exists>r. step_post owns ok (ctx0\<lparr>running := r\<rparr>) R pc ctx w (pc', ctx', w')"
    if "step_post owns ok ctx0 R pc ctx w (pc', ctx', w')"
    by (rule exI [of _ "running ctx0"]) (use that in simp)
  show ?thesis
    using assms(3)
  proof cases
    case tcp
    then show ?thesis using safe_InrD [OF command_handler.tcp_step_post [OF assms(1) inv refl]] keep by blast
  next
    case judge
    then show ?thesis using safe_InrD [OF judge_post [OF inv]] keep by auto
  next
    case expire
    then show ?thesis using safe_InrD [OF command_handler.expire_post [OF assms(1) inv refl]] keep by auto
  next
    case status
    then show ?thesis using status_frame(1) [OF inv] by (intro keep) (auto intro: quiet)
  next
    case robot_status
    then show ?thesis using status_frame(2) [OF inv] by (intro keep) (auto intro: quiet)
  next
    case halt
    have "race_inv owns ok (ctx0\<lparr>running := 0\<rparr>) R pc (ctx\<lparr>running := 0\<rparr>) w'"
      by (rule race_inv_frame [OF halted [OF inv]]) (use halt in \<open>auto simp: stop_request_def platform_shutdown_def\<close>)
    then have "step_post owns ok (ctx0\<lparr>running := 0\<rparr>) R pc ctx w (pc, ctx\<lparr>running := 0\<rparr>, w')"
      by (rule quiet) (use halt in \<open>auto simp: stop_request_def session_of_def platform_shutdown_def\<close>)
    then show ?thesis using halt by (auto simp: stop_request_def)
  next
    case (network fd q)
    have "race_inv owns ok ctx0 R pc ctx (w\<lparr>w_inq := (w_inq w)(fd := w_inq w fd @ q)\<rparr>)"
      by (rule race_inv_frame [OF inv]) simp_all
    then show ?thesis using network by (intro keep) (auto intro: quiet)
  qed
qed

text \<open>
  What holds in every state of a run: the invariant, for some value of the flag, and the descriptors \<open>D\<close>
  that are open but not held for clients.
\<close>

definition race_ok ::
  "('u \<Rightarrow> nat set) \<Rightarrow> ('u \<Rightarrow> bool) \<Rightarrow> 'u robot_server_ctx \<Rightarrow> nat set \<Rightarrow> int set \<Rightarrow> 'u race_state \<Rightarrow> bool" where
  "race_ok owns ok ctx0 R D s \<longleftrightarrow>
     (case s of (pc, p, ctx, w) \<Rightarrow> command_handler (callbacks (config ctx0)) owns ok \<and>
        (\<exists>r. race_inv owns ok (ctx0\<lparr>running := r\<rparr>) R pc ctx w) \<and> set (w_fds w) - held pc ctx = D)"

lemma race_ok_step:
  assumes "race_ok owns ok ctx0 R D (pc, p, ctx, w)" and "race_step policy (pc, p, ctx, w) (pc', p', ctx', w')"
  shows "race_ok owns ok ctx0 R D (pc', p', ctx', w')"
    and "\<exists>e. session_next (session_of ctx, visitor_of pc) e = Some (session_of ctx', visitor_of pc') \<and>
      closes w' = closes w @ session_closes (session_of ctx, visitor_of pc) e"
proof -
  obtain r where h: "command_handler (callbacks (config (ctx0\<lparr>running := r\<rparr>))) owns ok"
    and inv: "race_inv owns ok (ctx0\<lparr>running := r\<rparr>) R pc ctx w" and D: "set (w_fds w) - held pc ctx = D"
    using assms(1) by (auto simp: race_ok_def)
  from race_step_post [OF h inv assms(2)] obtain q where
    "step_post owns ok (ctx0\<lparr>running := q\<rparr>) R pc ctx w (pc', ctx', w')" by auto
  then show "race_ok owns ok ctx0 R D (pc', p', ctx', w')"
    and "\<exists>e. session_next (session_of ctx, visitor_of pc) e = Some (session_of ctx', visitor_of pc') \<and>
      closes w' = closes w @ session_closes (session_of ctx, visitor_of pc) e"
    using h D by (auto simp: step_post_def race_ok_def simp del: session_sockets.simps)
qed

interpretation races: simulation "race_step policy" "race_ok owns ok ctx0 R D" race_session race_closes
  session_next session_closes for policy owns ok ctx0 R D
proof
  fix s t :: "'a race_state"
  obtain pc p ctx w pc' p' ctx' w' where "s = (pc, p, ctx, w)" "t = (pc', p', ctx', w')"
    by (cases s; cases t)
  moreover assume "race_ok owns ok ctx0 R D s" "race_step policy s t"
  ultimately show "race_ok owns ok ctx0 R D t"
    and "\<exists>e. session_next (race_session s) e = Some (race_session t) \<and>
      race_closes t = race_closes s @ session_closes (race_session s) e"
    using race_ok_step by simp_all
qed

text \<open>What such a state promises: no fault but those listed, and the descriptors that are open.\<close>

lemma race_ok_holds:
  assumes "race_ok owns ok ctx0 R D (pc, p, ctx, w)"
  shows "holds (faults pc ctx w) (tcp_step policy pc ctx w) (\<lambda>_. True)" and "returns (timeout_check ctx w) (\<lambda>_. True)"
    and "returns (remove_client ctx w) (\<lambda>_. True)" and "pc_blocks pc \<subseteq> set (w_heap w)"
    and "set (w_fds w) = D \<union> held pc ctx" and "D \<inter> held pc ctx = {}"
proof -
  obtain r where h: "command_handler (callbacks (config (ctx0\<lparr>running := r\<rparr>))) owns ok"
    and inv: "race_inv owns ok (ctx0\<lparr>running := r\<rparr>) R pc ctx w" and D: "set (w_fds w) - held pc ctx = D"
    using assms by (auto simp: race_ok_def)
  show "holds (faults pc ctx w) (tcp_step policy pc ctx w) (\<lambda>_. True)"
    by (rule safe_mono [OF command_handler.tcp_step_post [OF h inv refl] TrueI])
  show "returns (timeout_check ctx w) (\<lambda>_. True)" by (rule safe_mono [OF judge_post [OF inv] TrueI])
  show "returns (remove_client ctx w) (\<lambda>_. True)"
    by (rule safe_mono [OF command_handler.expire_post [OF h inv refl] TrueI])
  show "pc_blocks pc \<subseteq> set (w_heap w)"
    using inv by (auto simp: race_inv_def shared_inv_def server_inv_def user_inv_def)
  show "set (w_fds w) = D \<union> held pc ctx" "D \<inter> held pc ctx = {}"
    using D held_open [OF inv] by blast+
qed

lemma race_ok_start:
  "command_handler (callbacks (config ctx0)) owns ok \<Longrightarrow> server_inv owns ok ctx0 R ctx w \<Longrightarrow>
   race_ok owns ok ctx0 R (set (w_fds w) - held Top ctx) (Top, p, ctx, w)"
  by (auto simp: race_ok_def race_inv_def intro!: exI [of _ "running ctx0"] connected_shared
      simp del: session_sockets.simps)

text \<open>A run in which the timeout thread disconnects the client while the TCP thread waits.\<close>

definition late_net :: world where
  "late_net = ex_net []\<lparr>w_env := ok_env\<lparr>e_time := \<lambda>_. 2\<rparr>\<rparr>"

lemma late_net_sel [simp]:
  "w_env late_net = ok_env\<lparr>e_time := \<lambda>_. 2\<rparr>" "w_heap late_net = [1, 0]" "w_next late_net = 2"
  "w_sems late_net = (\<lambda>_. None)(1 := Some 1)" "w_fds late_net = [0, 1, 2, 3, 4, 5]" "w_calls late_net = 0"
  "w_trace late_net = []"
  by (simp_all add: late_net_def)

abbreviation ex_busy :: "nat robot_server_ctx" where "ex_busy \<equiv> ex_server\<lparr>client := ex_client\<rparr>"

lemma late_inv: "server_inv (\<lambda>_. {}) (\<lambda>_. True) ex_server {0, 1} ex_busy late_net"
  using ex_server_inv(2) [of "[]"]
  by (auto simp: server_inv_def user_inv_def heap_ok_def lock_held_def client_inv_def client_rec_inv_def)

lemma late_run:
  obtains w where "(race_step 1)\<^sup>*\<^sup>* (Top, False, ex_busy, late_net) (Waiting [5, 3], False, ex_server, w)"
    and "closes w = [EvClose 5]"
proof -
  have l: "lock_held 1 ex_busy late_net" by (simp add: lock_held_def)
  have "tcp_step 1 Top ex_busy late_net = Inr (Waiting [5, 3], ex_busy, late_net)"
    by (simp add: watched_def FD_SET_def ex_server_def)
  then have t: "race_step 1 (Top, False, ex_busy, late_net) (Waiting [5, 3], False, ex_busy, late_net)"
    by (rule race_step.tcp)
  obtain w1 where c: "timeout_check ex_busy late_net = Inr (True, w1)" "lock_held 1 ex_busy w1"
    "w_trace w1 = []" "w_fds w1 = [0, 1, 2, 3, 4, 5]"
    by (rule judge_under_lock [OF l]) (simp add: idle_too_long_def ex_client_def zero_client_def)
  obtain w2 where r: "remove_client ex_busy w1 = Inr (ex_busy\<lparr>client := zero_client\<rparr>, w2)" "w_trace w2 = [EvClose 5]"
    by (rule remove_under_lock [OF c(2)]) (use c in \<open>simp_all add: no_callbacks_def\<close>)
  have same: "ex_server\<lparr>client := zero_client\<rparr> = ex_server" by (simp add: ex_server_def)
  have "remove_client ex_busy w1 = Inr (ex_server, w2)" using r(1) by (simp add: same)
  then have "race_step 1 (Waiting [5, 3], True, ex_busy, w1) (Waiting [5, 3], False, ex_server, w2)"
    by (rule race_step.expire)
  then have "(race_step 1)\<^sup>*\<^sup>* (Top, False, ex_busy, late_net) (Waiting [5, 3], False, ex_server, w2)"
    using t race_step.judge [OF c(1)] by (meson converse_rtranclp_into_rtranclp rtranclp.rtrancl_refl)
  then show thesis using r(2) by (intro that [of w2]) simp_all
qed

text \<open>C1. All threads at once: whatever the interleaving of the steps of the TCP thread, of the two
  critical sections of the timeout thread, of the status datagrams, of the request to stop and of
  the arrival of bytes, the mutex is free between steps, the heap holds the blocks of the owner,
  those of the user data and those in the local variables of the TCP thread and no others, and the
  sockets that the server and its thread hold are open and distinct. The steps of the timeout thread
  always return. The step of the TCP thread that comes next returns too, except as \<open>may_fault\<close> lists:
  it frees no block and uses no semaphore that is not allocated, it stores the bytes of a payload
  inside the block that was allocated for them, and it leaves the header of a message only when the
  stream is out of step.\<close>

theorem race_invariant:
  assumes "command_handler (callbacks (config ctx0)) owns ok" and "server_inv owns ok ctx0 R ctx w"
    and "(race_step policy)\<^sup>*\<^sup>* (Top, False, ctx, w) (pc, p, ctx', w')"
  shows "(\<exists>r. race_inv owns ok (ctx0\<lparr>running := r\<rparr>) R pc ctx' w') \<and> pc_blocks pc \<subseteq> set (w_heap w') \<and>
    (case tcp_step policy pc ctx' w' of Inl e \<Rightarrow> may_fault pc ctx' w' e | Inr s \<Rightarrow> True) \<and>
    (\<exists>x. timeout_check ctx' w' = Inr x) \<and> (\<exists>x. remove_client ctx' w' = Inr x)"
proof -
  have ok: "race_ok owns ok ctx0 R (set (w_fds w) - held Top ctx) (pc, p, ctx', w')"
    by (rule races.inv_run [OF assms(3) race_ok_start [OF assms(1,2)]])
  have "\<exists>x. timeout_check ctx' w' = Inr x" "\<exists>x. remove_client ctx' w' = Inr x"
    using race_ok_holds(2,3) [OF ok] by (auto elim: returnsE)
  moreover have "case tcp_step policy pc ctx' w' of Inl e \<Rightarrow> may_fault pc ctx' w' e | Inr s \<Rightarrow> True"
    using race_ok_holds(1) [OF ok, of policy] by (simp add: holds_def split: sum.splits)
  ultimately show ?thesis using ok race_ok_holds(4) [OF ok] by (simp add: race_ok_def)
qed

theorem race_invariant_witness:
  "\<exists>w. (race_step 1)\<^sup>*\<^sup>* (Top, False, ex_busy, late_net) (Waiting [5, 3], False, ex_server, w) \<and>
     (\<exists>r. race_inv (\<lambda>_. {}) (\<lambda>_. True) (ex_server\<lparr>running := r\<rparr>) {0, 1} (Waiting [5, 3]) ex_server w)"
proof -
  obtain w where run: "(race_step 1)\<^sup>*\<^sup>* (Top, False, ex_busy, late_net) (Waiting [5, 3], False, ex_server, w)"
    by (rule late_run)
  have "command_handler (callbacks (config ex_server)) (\<lambda>_. {}) (\<lambda>_. True)" by (simp add: no_callbacks_handler)
  from race_invariant [OF this late_inv run] run show ?thesis by blast
qed

text \<open>C2. The server as its clients see it: every run of all the threads is a run of the machine of
  sessions, from the session at the start to the session and the visitor at the end. A visitor is
  admitted when there is no session and turned away when there is one, so that at most one client is
  in control at any time. The calls of \<open>close\<close> on the way are, in order, those of the machine: the
  socket of a session when it ends, and that of a visitor after it was turned away - none twice, and
  none that is not open, even though two threads remove clients. And nothing is left open: the
  descriptors that are open at the end are those that were open at the start, without the socket
  of the session then, and with the sockets of the session and of the visitor now.\<close>

theorem server_refines_sessions:
  assumes "command_handler (callbacks (config ctx0)) owns ok" and "server_inv owns ok ctx0 R ctx w"
    and "(race_step policy)\<^sup>*\<^sup>* (Top, False, ctx, w) (pc, p, ctx', w')"
  shows "(\<exists>es os. spec_run session_next session_closes (session_of ctx, None) es =
      Some ((session_of ctx', visitor_of pc), os) \<and> closes w' = closes w @ os) \<and>
    set (w_fds w') = (set (w_fds w) - session_sockets (session_of ctx, None)) \<union>
      session_sockets (session_of ctx', visitor_of pc)"
proof -
  note start = race_ok_start [OF assms(1,2)]
  from race_ok_holds(5) [OF races.inv_run [OF assms(3) start]] races.refines [OF assms(3) start] show ?thesis
    by (simp del: session_sockets.simps)
qed

theorem server_refines_sessions_witness:
  "(\<exists>es. spec_run session_next session_closes (session_of ex_busy, None) es = Some ((None, None), [EvClose 5])) \<and>
   (\<exists>w. (race_step 1)\<^sup>*\<^sup>* (Top, False, ex_busy, late_net) (Waiting [5, 3], False, ex_server, w) \<and>
     set (w_fds w) = {0, 1, 2, 3, 4})"
proof -
  obtain w where run: "(race_step 1)\<^sup>*\<^sup>* (Top, False, ex_busy, late_net) (Waiting [5, 3], False, ex_server, w)"
    and c: "closes w = [EvClose 5]"
    by (rule late_run)
  have "command_handler (callbacks (config ex_server)) (\<lambda>_. {}) (\<lambda>_. True)" by (simp add: no_callbacks_handler)
  from server_refines_sessions [OF this late_inv run] c run show ?thesis
    by (auto simp: session_of_def Let_def)
qed

section \<open>The client leaves in the middle of its message\<close>

text \<open>C36. The timeout thread may remove the client between the header of a message and the end of
  its payload, because the TCP thread takes no lock there. The record is zeroed then, the TCP
  thread reads the socket out of it again for the next \<open>recv\<close>, and the rest of the payload is
  read from descriptor 0: what arrives at the standard input of the server is taken for the bytes
  of the command.\<close>

theorem timeout_during_message:
  assumes "lock_held 1 ctx w" and "on_disconnection (callbacks (config ctx)) = None"
    and "connected (client ctx)" and "client_socket (client ctx) \<in> set (w_fds w)" and "client_socket (client ctx) \<noteq> 0"
    and "idle_too_long (e_time (w_env w) (w_calls w)) (last_command (client ctx)) (connection_timeout_ms (config ctx))"
    and "0 \<in> set (w_fds w)" and "w_inq w 0 = Seg b bs # q"
    and "k < unat (payload_length h)" and "length payload = unat (payload_length h)"
  shows "\<exists>w' n. n = min (unat (payload_length h) - k) (Suc (length bs)) \<and>
    (race_step policy)\<^sup>*\<^sup>* (Receiving h p payload k, False, ctx, w)
      (Receiving h p (take k payload @ take n (b # bs) @ drop (k + n) payload) (k + n), False,
       ctx\<lparr>client := zero_client\<rparr>, w') \<and>
    w_trace w' = w_trace w @ [EvClose (client_socket (client ctx))]"
proof -
  let ?len = "unat (payload_length h)" and ?ctx = "ctx\<lparr>client := zero_client\<rparr>"
  obtain n where n: "n = min (?len - k) (Suc (length bs))" "0 < n" using assms(9) by simp
  obtain w1 where c: "timeout_check ctx w = Inr (True, w1)" "lock_held 1 ctx w1"
    "w_trace w1 = w_trace w" "w_fds w1 = w_fds w" "w_inq w1 = w_inq w"
    by (rule judge_under_lock [OF assms(1)]) (use assms(3,6) in simp)
  have open1: "client_socket (client ctx) \<in> set (w_fds w1)" using assms(4) c(4) by simp
  obtain w2 where r: "remove_client ctx w1 = Inr (?ctx, w2)"
    "w_trace w2 = w_trace w1 @ [EvClose (client_socket (client ctx))]"
    "w_fds w2 = removeAll (client_socket (client ctx)) (w_fds w1)" "w_inq w2 = w_inq w1"
    by (rule remove_under_lock [OF c(2) assms(2,3) open1])
  let ?got = "take (?len - k) (b # bs)"
  let ?w3 = "w2\<lparr>w_inq := (w_inq w2)(0 := seg (drop (?len - k) (b # bs)) @ q)\<rparr>"
  have len: "length ?got = n" using n(1) by simp
  have got: "?got = take n (b # bs)"
    by (cases "?len - k \<le> Suc (length bs)") (simp_all add: n(1) min_def del: take_Suc_Cons)
  have recv: "platform_recv 0 (?len - k) False w2 = Inr (int n, ?got, ?w3)"
    using assms(5,7-9) c r len by (simp add: platform_recv_def Let_def)
  have copy: "memcpy_to payload k ?got = Inr (take k payload @ ?got @ drop (k + n) payload)"
    using assms(9,10) len by (simp add: memcpy_to_def)
  have pos: "\<not> int n \<le> 0" using n(2) by simp
  have "tcp_step policy (Receiving h p payload k) ?ctx w2 =
      Inr (Receiving h p (take k payload @ ?got @ drop (k + n) payload) (k + n), ?ctx, ?w3)"
    using assms(9) recv pos copy by (simp add: receive_step_def Let_def del: take_Suc_Cons)
  from race_step.tcp [OF this] have "race_step policy (Receiving h p payload k, False, ?ctx, w2)
      (Receiving h p (take k payload @ take n (b # bs) @ drop (k + n) payload) (k + n), False, ?ctx, ?w3)"
    unfolding got .
  moreover have "race_step policy (Receiving h p payload k, False, ctx, w) (Receiving h p payload k, True, ctx, w1)"
    by (rule race_step.judge [OF c(1)])
  moreover have "race_step policy (Receiving h p payload k, True, ctx, w1) (Receiving h p payload k, False, ?ctx, w2)"
    by (rule race_step.expire [OF r(1)])
  ultimately have "(race_step policy)\<^sup>*\<^sup>* (Receiving h p payload k, False, ctx, w)
      (Receiving h p (take k payload @ take n (b # bs) @ drop (k + n) payload) (k + n), False, ?ctx, ?w3)"
    by (meson converse_rtranclp_into_rtranclp rtranclp.rtrancl_refl)
  then show ?thesis using c(3) r(2) by (intro exI [of _ ?w3] exI [of _ n]) (simp add: n(1))
qed

text \<open>Of a command of four bytes nothing has been read yet when the client is removed.\<close>

definition cut_hdr :: protocol_header where
  "cut_hdr = \<lparr>magic_number = PROTOCOL_MAGIC_NUMBER, version = 6, message_type = 1, timestamp_ms = 0, payload_length = 4\<rparr>"

theorem timeout_during_message_witness:
  "\<exists>w'. (race_step 1)\<^sup>*\<^sup>* (Receiving cut_hdr 2 [0, 0, 0, 0] 0, False, ex_busy, late_net\<lparr>w_inq := \<lambda>_. [Seg 7 [8]]\<rparr>)
     (Receiving cut_hdr 2 [7, 8, 0, 0] 2, False, ex_server\<lparr>client := zero_client\<rparr>, w') \<and> w_trace w' = [EvClose 5]"
proof -
  let ?w = "late_net\<lparr>w_inq := \<lambda>_. [Seg 7 [8]]\<rparr>"
  have l: "lock_held 1 ex_busy ?w" by (simp add: lock_held_def)
  have since: "last_command ex_client = 0" by (simp add: ex_client_def zero_client_def)
  have len: "unat (payload_length cut_hdr) = 4" by (simp add: cut_hdr_def)
  obtain w' n where n: "n = min (unat (payload_length cut_hdr) - 0) (Suc (length [8 :: byte]))"
    and run: "(race_step 1)\<^sup>*\<^sup>* (Receiving cut_hdr 2 [0, 0, 0, 0] 0, False, ex_busy, ?w)
      (Receiving cut_hdr 2 (take 0 [0, 0, 0, 0] @ take n [7, 8] @ drop (0 + n) [0, 0, 0, 0]) (0 + n), False,
       ex_busy\<lparr>client := zero_client\<rparr>, w')"
    and tr: "w_trace w' = w_trace ?w @ [EvClose (client_socket (client ex_busy))]"
    using timeout_during_message [OF l, of 7 "[8]" "[]" 0 cut_hdr "[0, 0, 0, 0]" 1 2]
    by (auto simp: no_callbacks_def idle_too_long_def since len)
  have two: "n = 2" using n len by simp
  show ?thesis using run [unfolded two] tr by (intro exI [of _ w']) (simp add: eval_nat_numeral(2))
qed

end
