(* ===== verification/Shutdown.thy ===== *)
theory Shutdown
  imports ServerRaces
begin

text \<open>
  Stopping a server that has clients: after the request to stop, the TCP thread comes to the end of
  its loop, unless it runs into one of the faults listed in \<open>ServerRaces\<close> - one of which is to wait
  for a payload that the client withholds. Once both threads have ended, the rest of
  \<open>robot_protocol_stop\<close> closes what is open, and \<open>robot_protocol_destroy\<close> frees the server.
\<close>

section \<open>The flag\<close>

lemma race_inv_running: "race_inv owns ok ctx0 R pc ctx w \<Longrightarrow> running ctx = running ctx0"
  by (auto simp: race_inv_def shared_inv_def server_inv_def settled_def dest: fixed_partD(4) split: if_splits)

text \<open>Nothing sets the flag again.\<close>

lemma race_step_running:
  assumes "race_ok owns ok ctx0 R D (pc, p, ctx, w)" and "race_step policy (pc, p, ctx, w) (pc', p', ctx', w')"
    and "running ctx = 0"
  shows "running ctx' = 0"
proof -
  obtain r where h: "command_handler (callbacks (config (ctx0\<lparr>running := r\<rparr>))) owns ok"
    and inv: "race_inv owns ok (ctx0\<lparr>running := r\<rparr>) R pc ctx w"
    using assms(1) by (auto simp: race_ok_def)
  have r: "r = 0" using race_inv_running [OF inv] assms(3) by simp
  have same: "running c = 0" if "step_post owns ok (ctx0\<lparr>running := r\<rparr>) R pc ctx w (q, c, v)" for q c v
    using that r race_inv_running by (fastforce simp: step_post_def)
  show ?thesis
    using assms(2)
  proof cases
    case tcp
    then show ?thesis using safe_InrD [OF command_handler.tcp_step_post [OF h inv refl]] same by blast
  next
    case expire
    then show ?thesis using safe_InrD [OF command_handler.expire_post [OF h inv refl]] same by auto
  next
    case halt
    then show ?thesis using stop_request_sel(1) [of ctx w] by simp
  qed (use assms(3) in simp_all)
qed

section \<open>The end of the TCP thread\<close>

text \<open>
  How far the thread is from the end of a turn; where it may stay at one place, the second number
  decreases: what waits on the socket that a header is read from, what is missing of a payload.
\<close>

fun stage :: "tcp_pc \<Rightarrow> nat" where
  "stage Stopped = 0"
| "stage Top = 1"
| "stage Removing = 2"
| "stage (Freeing p b) = 3"
| "stage (Replying kind next) = 4"
| "stage (Registering port p) = 5"
| "stage (Handling h p payload) = 6"
| "stage (Receiving h p payload k) = 7"
| "stage (Message h) = 8"
| "stage (Reading sock header offset to_read) = 9"
| "stage (Checking ready) = 10"
| "stage (Refused sock ready) = 11"
| "stage (Accepted sock addr ready) = 12"
| "stage (Selected ready) = 13"
| "stage (Waiting fds) = 14"

fun missing :: "tcp_pc \<Rightarrow> world \<Rightarrow> nat" where
  "missing (Reading sock header offset to_read) w = waiting w sock"
| "missing (Receiving h p payload k) w = unat (payload_length h) - k"
| "missing _ w = 0"

definition distance :: "'u tcp_state \<Rightarrow> nat \<times> nat" where
  "distance s = (case s of (pc, ctx, w) \<Rightarrow> (stage pc, missing pc w))"

lemma tcp_step_descends:
  assumes "tcp_step policy pc ctx w = Inr s" and "running ctx = 0" and "pc \<noteq> Stopped"
  shows "(distance s, distance (pc, ctx, w)) \<in> less_than <*lex*> less_than"
proof (cases pc)
  case (Waiting fds)
  then show ?thesis
    using assms(1) by (auto simp: selected_step_def distance_def split: prod.splits select_ans.splits if_splits)
next
  case (Selected ready)
  then show ?thesis
    using assms(1) by (auto simp: accept_step_def distance_def split: prod.splits option.splits if_splits)
next
  case (Reading sock header offset to_read)
  then obtain x w1 where turn: "read_header_turn sock header offset to_read w = Inr (x, w1)"
    using assms(1) by (cases "read_header_turn sock header offset to_read w") (auto simp: reading_step_def)
  show ?thesis
    using Reading assms(1) turn
    by (cases x) (auto simp: reading_step_def distance_def dest: header_turn_consumes)
next
  case (Message h)
  then show ?thesis
    using assms(1) by (auto simp: message_step_def distance_def Let_def split: prod.splits option.splits if_splits)
next
  case (Receiving h p payload k)
  then show ?thesis
    using assms(1)
    by (auto simp: receive_step_def distance_def andThen_eq_Inr Let_def split: prod.splits if_splits)
next
  case (Handling h p payload)
  then show ?thesis
    using assms(1)
    by (auto simp: handle_step_def distance_def andThen_eq_Inr Let_def split: prod.splits option.splits if_splits)
next
  case (Replying kind "next")
  then show ?thesis
    using assms(1) by (cases "next") (auto simp: distance_def andThen_eq_Inr)
qed (use assms in \<open>auto simp: distance_def check_step_def register_step_def andThen_eq_Inr split: if_splits\<close>)

text \<open>Running alone, the thread comes to its end, or to a step that is one of the listed faults.\<close>

definition thread_ends :: "nat \<Rightarrow> 'u tcp_state \<Rightarrow> bool" where
  "thread_ends policy s \<longleftrightarrow>
     (\<exists>ctx w. reaches policy s (Inr (Stopped, ctx, w))) \<or>
     (\<exists>pc ctx w e. reaches policy s (Inr (pc, ctx, w)) \<and> tcp_step policy pc ctx w = Inl e \<and> may_fault pc ctx w e)"

lemma thread_ends_step:
  "tcp_step policy pc ctx w = Inr s \<Longrightarrow> thread_ends policy s \<Longrightarrow> thread_ends policy (pc, ctx, w)"
  unfolding thread_ends_def by (blast intro: reaches.step)

lemma thread_comes_to_end:
  assumes "command_handler (callbacks (config ctx0)) owns ok" and "race_inv owns ok ctx0 R pc ctx w"
    and "running ctx0 = 0"
  shows "thread_ends policy (pc, ctx, w)"
  using assms(2)
proof (induction "distance (pc, ctx, w)" arbitrary: pc ctx w rule: wf_induct_rule [OF wf_lex_prod [OF wf_less_than wf_less_than]])
  case 1
  have run: "running ctx = 0" using race_inv_running [OF 1(2)] assms(3) by simp
  show ?case
  proof (cases "pc = Stopped")
    case True
    then show ?thesis unfolding thread_ends_def by (blast intro: reaches.here)
  next
    case False
    note post = command_handler.tcp_step_post [OF assms(1) 1(2) refl, of policy]
    show ?thesis
    proof (cases "tcp_step policy pc ctx w")
      case (Inl e)
      then have "may_fault pc ctx w e" using post by simp
      then show ?thesis unfolding thread_ends_def using Inl by (blast intro: reaches.here)
    next
      case (Inr s)
      obtain pc' ctx' w' where s: "s = (pc', ctx', w')" by (cases s)
      have "race_inv owns ok ctx0 R pc' ctx' w'" using post Inr by (simp add: s step_post_def)
      from 1(1) [OF _ this] tcp_step_descends [OF Inr run False] have "thread_ends policy s" by (simp add: s)
      then show ?thesis by (rule thread_ends_step [OF Inr])
    qed
  qed
qed

text \<open>
  One of the faults is real for a server that is to stop: as long as a client withholds what it has
  announced, the thread waits for it - and the timeout thread, which could remove the client, has
  ended.
\<close>

theorem withheld_payload_blocks:
  assumes "k < unat (payload_length h)" and "client_socket (client ctx) \<in> set (w_fds w)"
    and "w_inq w (client_socket (client ctx)) = []" and "client_socket (client ctx) \<noteq> tcp_socket ctx"
  shows "tcp_step policy (Receiving h p payload k) (fst (stop_request ctx w)) (snd (stop_request ctx w)) = Inl Blocked"
  using assms by (auto simp: receive_step_def Let_def platform_recv_def stop_request_def platform_shutdown_def)

section \<open>After the threads\<close>

lemma finish_ends_server:
  assumes ok: "race_ok owns ok ctx0 R D (Stopped, p, ctx, w)" and run: "running ctx = 0"
    and udp: "udp_socket ctx0 \<in> D" "tcp_socket ctx0 \<noteq> udp_socket ctx0" "0 \<le> tcp_socket ctx0" "0 \<le> udp_socket ctx0"
    and blocks: "client_mutex ctx0 = Some m" "{m, ctx_addr ctx0} \<subseteq> R" "m \<noteq> ctx_addr ctx0"
  obtains w1 w2 where "stop_finish True ctx w = Inr (Some (stopped ctx), w1)"
    and "robot_protocol_destroy (Some (stopped ctx)) w1 = Inr w2"
    and "set (w_fds w2) = D - {tcp_socket ctx0, udp_socket ctx0}"
    and "set (w_heap w2) = (R \<union> owns (user_data ctx)) - {m, ctx_addr ctx0}"
    and "w_trace w1 = w_trace w @ join_events ctx @ close_events (held_sockets ctx)"
proof -
  obtain r where inv: "race_inv owns ok (ctx0\<lparr>running := r\<rparr>) R Stopped ctx w"
    using ok by (auto simp: race_ok_def)
  then have s: "server_inv owns ok (ctx0\<lparr>running := r\<rparr>) R (settled ctx) w" by (simp add: race_inv_def shared_inv_def)
  then have fixed: "fixed_part (ctx0\<lparr>running := r\<rparr>) (settled ctx)" by (simp add: server_inv_def)
  have sel: "tcp_socket ctx = tcp_socket ctx0" "udp_socket ctx = udp_socket ctx0"
    "client_mutex ctx = Some m" "ctx_addr ctx = ctx_addr ctx0"
    using fixed blocks(1) by (auto simp: fixed_part_def settled_def split: if_splits) (cases ctx; cases ctx0; simp)+
  have fds: "set (w_fds w) = D \<union> held Stopped ctx" "D \<inter> held Stopped ctx = {}"
    using race_ok_holds(5,6) [OF ok] by simp_all
  have tcp: "tcp_socket ctx \<in> set (w_fds w)" "connected (client ctx) \<Longrightarrow> client_socket (client ctx) \<noteq> tcp_socket ctx"
    using s by (simp_all add: server_inv_def client_inv_def client_rec_inv_def)
  have held: "held Stopped ctx = (if connected (client ctx) then {client_socket (client ctx)} else {})"
    by (simp add: session_socket)
  have list: "held_sockets ctx = (if connected (client ctx) then [client_socket (client ctx)] else []) @
      [tcp_socket ctx0, udp_socket ctx0]"
    using udp(3,4) by (simp add: held_sockets_def fd_list_def sel)
  have socks: "holds_sockets ctx w"
    using udp tcp fds held by (auto simp: holds_sockets_def list sel)
  have lock: "lock_held 1 ctx w" using s by (simp add: server_inv_def lock_held_def)
  obtain w1 where f: "stop_finish True ctx w = Inr (Some (stopped ctx), w1)"
    "w_fds w1 = filter (\<lambda>fd. fd \<notin> set (held_sockets ctx)) (w_fds w)"
    "w_trace w1 = w_trace w @ join_events ctx @ close_events (held_sockets ctx)"
    "lock_held 1 (stopped ctx) w1" "w_heap w1 = w_heap w" "w_sems w1 = w_sems w"
    by (rule finish_closes [OF lock socks run])
  obtain w1' where g: "robot_protocol_stop (Some (stopped ctx)) w1 = Inr (Some (stopped ctx), w1')"
    "w_fds w1' = w_fds w1" "w_heap w1' = w_heap w1" "w_sems w1' = w_sems w1"
    by (rule stop_again [OF f(4)])
  have heap: "distinct (w_heap w)" "set (w_heap w) = R \<union> owns (user_data ctx)" "R \<inter> owns (user_data ctx) = {}"
    using s by (auto simp: server_inv_def user_inv_def heap_ok_def)
  have sem: "w_sems w1' m = Some 1" using lock sel(3) f(6) g(4) by (simp add: lock_held_def)
  let ?w2 = "w1'\<lparr>w_sems := (w_sems w1')(m := None), w_heap := remove1 (ctx_addr ctx0) (remove1 m (w_heap w))\<rparr>"
  have "robot_protocol_destroy (Some (stopped ctx)) w1 = Inr ?w2"
    using g sem blocks heap(2) f(5)
    by (simp add: robot_protocol_destroy_def lock_destroy_def platform_free_def stopped_def [of ctx] sel in_set_remove1
        del: stopped_twice) 
  moreover have "set (w_fds ?w2) = D - {tcp_socket ctx0, udp_socket ctx0}"
    using fds held by (auto simp: g(2) f(2) list)
  moreover have "set (w_heap ?w2) = (R \<union> owns (user_data ctx)) - {m, ctx_addr ctx0}"
    using heap by (auto simp: set_remove1_eq)
  ultimately show thesis using f(1,3) by (intro that)
qed

end
