(* ===== verification/MockGoals.thy ===== *)
theory MockGoals
  imports ServerProps MockRobot Simulation
begin

text \<open>
  The goals of the mock robot. Whatever clients, disconnections and the clock of the simulation do
  to the robot, each of its groups goes through the states of a goal in the order of a small
  machine: accepted only when no goal is active, then one of succeeded, cancelled and aborted. And
  a trajectory that was accepted is the one that is echoed.
\<close>

section \<open>The machine of goals\<close>

type_synonym goal = "i32 \<times> goal_state_t"      \<comment> \<open>number and state\<close>

datatype goal_event = Accept i32 | Finish goal_state_t | Keep

definition goal_over :: "goal \<Rightarrow> bool" where
  "goal_over g \<longleftrightarrow> fst g = 0 \<or> snd g \<noteq> GOAL_STATE_ACTIVE \<and> snd g \<noteq> GOAL_STATE_PENDING"

fun goal_next :: "goal \<Rightarrow> goal_event \<Rightarrow> goal option" where
  "goal_next (i, s) (Accept j) = (if goal_over (i, s) \<and> j \<noteq> 0 then Some (j, GOAL_STATE_ACTIVE) else None)"
| "goal_next (i, s) (Finish t) =
     (if s \<in> {GOAL_STATE_PENDING, GOAL_STATE_ACTIVE} \<and>
         t \<in> {GOAL_STATE_SUCCEEDED, GOAL_STATE_CANCELLED, GOAL_STATE_ABORTED} then Some (i, t) else None)"
| "goal_next (i, s) Keep = Some (i, s)"

definition goal_of :: "mock_group \<Rightarrow> goal" where
  "goal_of g = (mg_goal_id g, mg_goal_state g)"

definition goal_step :: "goal \<Rightarrow> goal \<Rightarrow> bool" where
  "goal_step a b \<longleftrightarrow> (\<exists>e. goal_next a e = Some b)"

lemma goal_step_refl [simp]: "goal_step a a"
  unfolding goal_step_def by (rule exI [of _ Keep]) (cases a; simp)

lemma goal_step_accept: "goal_over (goal_of g) \<Longrightarrow> i \<noteq> 0 \<Longrightarrow> goal_step (goal_of g) (i, GOAL_STATE_ACTIVE)"
  unfolding goal_step_def goal_of_def by (rule exI [of _ "Accept i"]) simp

lemma goal_step_finish:
  "s \<in> {GOAL_STATE_PENDING, GOAL_STATE_ACTIVE} \<Longrightarrow>
   t \<in> {GOAL_STATE_SUCCEEDED, GOAL_STATE_CANCELLED, GOAL_STATE_ABORTED} \<Longrightarrow> goal_step (i, s) (i, t)"
  unfolding goal_step_def by (rule exI [of _ "Finish t"]) simp

lemma abort_goal_step [simp]: "goal_step (goal_of g) (goal_of (abort_group g))"
  by (cases "has_active_goal g")
    (auto simp: abort_group_def has_active_goal_def goal_of_def intro: goal_step_finish)

section \<open>Operations of the robot\<close>

text \<open>Every group of the robot has made one step of the machine.\<close>

definition follows :: "mock_robot \<Rightarrow> mock_robot \<Rightarrow> bool" where
  "follows r r' \<longleftrightarrow> length (mr_groups r') = length (mr_groups r) \<and>
     (\<forall>k < length (mr_groups r). goal_step (goal_of (mr_groups r ! k)) (goal_of (mr_groups r' ! k)))"

lemma follows_same: "mr_groups r' = mr_groups r \<Longrightarrow> follows r r'"
  by (simp add: follows_def)

lemma follows_cong: "mr_groups r1 = mr_groups r \<Longrightarrow> mr_groups r1' = mr_groups r' \<Longrightarrow> follows r1 r1' = follows r r'"
  by (simp add: follows_def)

lemma follows_update:
  "goal_step (goal_of (mr_groups r ! k)) (goal_of g) \<Longrightarrow> mr_groups r' = (mr_groups r)[k := g] \<Longrightarrow> follows r r'"
  by (cases "k < length (mr_groups r)") (auto simp: follows_def nth_list_update)

lemma follows_set: "goal_step (goal_of (mr_groups r ! k)) (goal_of g) \<Longrightarrow> follows r (r\<lparr>mr_groups := (mr_groups r)[k := g]\<rparr>)"
  by (rule follows_update) simp_all

lemma follows_refl [simp]: "follows r r"
  by (simp add: follows_same)

lemma follows_used:
  assumes "\<And>j. j < length (used_groups r) \<Longrightarrow> goal_step (goal_of (used_groups r ! j)) (goal_of (gs ! j))"
    and "length gs = length (used_groups r)" and "mr_groups r' = gs @ drop (unat (mr_num_groups r)) (mr_groups r)"
  shows "follows r r'"
proof -
  let ?n = "unat (mr_num_groups r)"
  have len: "length gs = min (length (mr_groups r)) ?n" using assms(2) by (simp add: used_groups_def)
  have "goal_step (goal_of (mr_groups r ! j)) (goal_of (mr_groups r' ! j))" if "j < length (mr_groups r)" for j
  proof (cases "j < length gs")
    case True
    then show ?thesis using assms(1) [of j] assms(2,3) by (simp add: nth_append used_groups_def)
  next
    case False
    then have "?n \<le> j" "length gs = ?n" using len that by auto
    then show ?thesis using that False assms(3) by (simp add: nth_append)
  qed
  then show ?thesis using assms(3) len by (auto simp: follows_def)
qed

text \<open>A property of what an operation returns, when it returns: the outcomes with all faults allowed.\<close>

abbreviation yields :: "'a res \<Rightarrow> ('a \<Rightarrow> bool) \<Rightarrow> bool" where
  "yields \<equiv> holds UNIV"

lemma yields_any: "(\<And>x. yields (f x) Q) \<Longrightarrow> yields (andThen m f) Q"
  by (rule safe_andThen [of UNIV m "\<lambda>_. True"]) (simp_all add: holds_def split: sum.split)

lemma yields_if: "yields x Q \<Longrightarrow> yields y Q \<Longrightarrow> yields (if b then x else y) Q"
  by simp

abbreviation keeps_goals :: "mock_robot \<Rightarrow> mock_reply \<Rightarrow> bool" where
  "keeps_goals r m \<equiv> yields m (\<lambda>(_, r', _). follows r r')"

lemma reply_keeps:
  assumes "follows r r'"
  shows "keeps_goals r (err_reply e r' w)" "keeps_goals r (status_reply e r' w)" "keeps_goals r (boolean_reply ty v r' w)"
proof -
  have err: "keeps_goals r (err_reply e r' w)" for e w
    using assms by (auto simp: err_reply_def intro!: yields_any)
  then show "keeps_goals r (err_reply e r' w)" .
  show "keeps_goals r (status_reply e r' w)"
    using assms err by (auto simp: status_reply_def intro!: yields_any)
  show "keeps_goals r (boolean_reply ty v r' w)"
    using assms err by (auto simp: boolean_reply_def intro!: yields_any split: option.split)
qed

lemma stop_motion_follows: "mock_robot_stop_motion r w = (b, r', w') \<Longrightarrow> follows r r'"
  by (rule follows_used [where gs = "map (\<lambda>g. if mg_in_motion g \<or> has_active_goal g then abort_group g else g)
      (used_groups r)"]) (auto simp: mock_robot_stop_motion_def Let_def)

lemma stop_group_follows: "mock_robot_stop_group i r w = (b, r', w') \<Longrightarrow> follows r r'"
  by (auto simp: mock_robot_stop_group_def Let_def split: if_splits intro!: follows_set)

lemma cancel_goal_follows: "mock_robot_cancel_goal i r w = (e, r', w') \<Longrightarrow> follows r r'"
  by (auto simp: mock_robot_cancel_goal_def Let_def goal_of_def split: option.splits if_splits
      intro!: follows_set goal_step_finish)

lemma start_trajectory_follows: "yields (mock_robot_start_trajectory r w) (\<lambda>(_, r', _). follows r r')"
  by (auto simp: mock_robot_start_trajectory_def Let_def goal_of_def set_error_info_def
      intro!: follows_set intro: follows_same)

lemma store_trajectory_goal: "yields (store_trajectory t g w) (\<lambda>(_, g', _). goal_of g' = goal_of g)"
  unfolding store_trajectory_def
  by (rule yields_any)+
    (auto simp: Let_def goal_of_def split: option.split prod.split intro!: yields_any)

lemma accept_goal_follows: "yields (mock_robot_accept_goal t r w) (\<lambda>(_, r', _). follows r r')"
proof -
  have go: "yields (andThen (store_trajectory t (mr_groups r ! k) w) (\<lambda>(stored, g1, w1).
      if \<not> stored then Inr (-1, r\<lparr>mr_groups := (mr_groups r)[k := g1]\<rparr>, w1)
      else case draw_goal_id w1 of None \<Rightarrow> Inl Blocked
        | Some (i, w2) \<Rightarrow> let (now, w3) = get_timestamp_ms w2;
                g2 = g1\<lparr>mg_goal_id := i, mg_goal_state := GOAL_STATE_ACTIVE, mg_goal_progress := 0,
                  mg_goal_start_time := now, mg_trajectory_active := True, mg_in_motion := True\<rparr>
            in Inr (i, r\<lparr>mr_groups := (mr_groups r)[k := g2]\<rparr>, pr_info m w3)))
      (\<lambda>(_, r', _). follows r r')" if "\<not> has_active_goal (mr_groups r ! k)" for k m
  proof (rule safe_andThen [OF store_trajectory_goal], clarify)
    have over: "goal_over (goal_of (mr_groups r ! k))"
      using that by (auto simp: has_active_goal_def goal_over_def goal_of_def)
    fix stored g1 w1
    assume g1: "goal_of g1 = goal_of (mr_groups r ! k)"
    have new: "follows r (r\<lparr>mr_groups := (mr_groups r)[k := g1\<lparr>mg_goal_id := i, mg_goal_state := GOAL_STATE_ACTIVE,
        mg_goal_progress := 0, mg_goal_start_time := now, mg_trajectory_active := True, mg_in_motion := True\<rparr>]\<rparr>)"
      if "draw_goal_id w1 = Some (i, w2)" for i w2 now
      by (rule follows_set)
        (use goal_step_accept [OF over draw_goal_id_frame(1) [OF that]] in \<open>simp add: goal_of_def\<close>)
    show "yields (if \<not> stored then Inr (-1, r\<lparr>mr_groups := (mr_groups r)[k := g1]\<rparr>, w1)
      else case draw_goal_id w1 of None \<Rightarrow> Inl Blocked
        | Some (i, w2) \<Rightarrow> let (now, w3) = get_timestamp_ms w2;
                g2 = g1\<lparr>mg_goal_id := i, mg_goal_state := GOAL_STATE_ACTIVE, mg_goal_progress := 0,
                  mg_goal_start_time := now, mg_trajectory_active := True, mg_in_motion := True\<rparr>
            in Inr (i, r\<lparr>mr_groups := (mr_groups r)[k := g2]\<rparr>, pr_info m w3))
      (\<lambda>(_, r', _). follows r r')"
      using new g1 by (auto intro!: follows_set split: option.split prod.split)
  qed
  show ?thesis
    unfolding mock_robot_accept_goal_def
    by (rule yields_if, simp, rule yields_any) (use go in \<open>simp add: Let_def\<close>)
qed

lemma move_goal_follows: "keeps_goals r (move_goal_command h payload r w)"
proof -
  have accepted: "keeps_goals r (andThen (mock_robot_accept_goal t r w1) (\<lambda>(goal_id, r1, w2).
      if sint goal_id < 0 then err_reply (sint goal_id) r1 w2
      else andThen (allocate_response_context 16 (msg_num MSG_GOAL_ACCEPTED) w2) (\<lambda>(ctx, w3).
        case ctx of None \<Rightarrow> err_reply (-1) r1 w3
        | Some c \<Rightarrow> let (now, w4) = get_timestamp_ms w3 in
            andThen (read_u32 t 8) (\<lambda>n. andThen (store_payload (enc_goal_accepted \<lparr>ga_goal_id = goal_id,
              ga_num_trajectory_accepted = n, ga_timestamp_ms = now\<rparr>) c) (\<lambda>c1. Inr (Some c1, r1, w4))))))" for t w1
    by (rule safe_andThen [OF accept_goal_follows])
      (auto intro!: reply_keeps yields_any split: option.split prod.split)
  show ?thesis
    unfolding move_goal_command_def
    by (rule yields_any) (auto intro: reply_keeps accepted split: option.split prod.split)
qed

lemma handle_command_follows: "keeps_goals robot (mock_robot_handle_command h payload robot w)"
proof -
  define r where "r = robot\<lparr>mr_command_count := mr_command_count robot + 1\<rparr>"
  have r: "follows robot r' = follows r r'" for r' by (rule follows_cong) (simp_all add: r_def)
  have same: "keeps_goals r (status_reply e r' w1)" if "mr_groups r' = mr_groups r" for e r' w1
    by (rule reply_keeps(2) [OF follows_same [OF that]])
  have sized: "keeps_goals r (sized n h f r w1)" if "\<And>w2. keeps_goals r (f r w2)" for n f w1
    using that by (simp add: sized_def reply_keeps)
  have trajectory: "keeps_goals r (andThen (mock_robot_start_trajectory r w1) (\<lambda>(e, r1, w2). status_reply e r1 w2))" for w1
    by (rule safe_andThen [OF start_trajectory_follows]) (auto intro: reply_keeps)
  have power: "keeps_goals r (let (e, r1, w2) = mock_robot_power_on r w1 in status_reply e r1 w2)" for w1
    by (auto simp: mock_robot_power_on_def Let_def intro!: same split: prod.split)
  have heartbeat: "keeps_goals r (let (now, w2) = get_timestamp_ms w1; (e, r1) = mock_robot_heartbeat now r in status_reply e r1 w2)" for w1
    by (auto simp: mock_robot_heartbeat_def Let_def intro!: same split: prod.split)
  have errors: "keeps_goals r (let (e, r1) = mock_robot_test_error_command r in status_reply e r1 w1)"
    "keeps_goals r (let (e, r1) = mock_robot_reset_errors r in status_reply e r1 w1)" for w1
    by (auto simp: mock_robot_test_error_command_def mock_robot_reset_errors_def set_error_info_def intro!: same)
  have echo: "keeps_goals r (echo_command r w1)" for w1
    by (auto simp: echo_command_def reply_keeps Let_def intro!: yields_any split: option.split)
  have mode: "keeps_goals r (andThen (memcpy_from payload 0 1) (\<lambda>b.
      let (e, r1) = mock_robot_set_motion_mode (motion_mode_of b) r in status_reply e r1 (pr l m w1)))" for l m w1
    by (auto simp: mock_robot_set_motion_mode_def intro!: yields_any same)
  have stop: "keeps_goals r (stop_command payload r w1)" for w1
    unfolding stop_command_def
    by (rule yields_any)
      (auto intro!: reply_keeps dest: stop_motion_follows stop_group_follows split: prod.split)
  have cancel: "keeps_goals r (andThen (read_u32 payload 0) (\<lambda>i.
      let (e, r1, w2) = mock_robot_cancel_goal i r w1 in status_reply e r1 w2))" for w1
    by (rule yields_any) (auto intro!: reply_keeps dest: cancel_goal_follows split: prod.split)
  have status: "keeps_goals r (goal_status_command payload r w1)" for w1
    by (auto simp: goal_status_command_def reply_keeps Let_def intro!: yields_any split: option.split prod.split)
  have group: "keeps_goals r (check_group_command payload r w1)" for w1
    by (auto simp: check_group_command_def reply_keeps intro!: yields_any)
  have caps: "keeps_goals r (handle_get_capabilities r w1)" for w1
    by (auto simp: handle_get_capabilities_def intro!: yields_any split: option.split)
  have bool: "keeps_goals r (boolean_reply ty v r w1)" "keeps_goals r (err_reply e r w1)" for ty v e w1
    by (simp_all add: reply_keeps)
  note branches = trajectory power heartbeat errors move_goal_follows echo sized mode stop cancel status group caps bool
  show ?thesis
    unfolding mock_robot_handle_command_def r r_def [symmetric] Let_def [of r] Let_def [of "message_type h"]
    by (intro yields_if) (rule branches)+
qed

lemma goal_progress_step [simp]: "goal_step (goal_of g) (goal_of (goal_progress progress now g))"
  by (auto simp: goal_progress_def Let_def goal_of_def intro: goal_step_finish)

lemma update_groups_steps:
  "update_groups progress gs w = (gs', w') \<Longrightarrow> length gs' = length gs \<and>
   (\<forall>j < length gs. goal_step (goal_of (gs ! j)) (goal_of (gs' ! j)))"
proof (induction gs arbitrary: gs' w w')
  case (Cons g gs)
  obtain g1 v gs1 where g1: "gs' = g1 # gs1" "goal_step (goal_of g) (goal_of g1)"
    and rest: "update_groups progress gs v = (gs1, w')"
    using Cons.prems by (auto simp: Let_def split_def split: if_splits)
  have "goal_step (goal_of ((g # gs) ! j)) (goal_of ((g1 # gs1) ! j))" if "j < Suc (length gs)" for j
    using Cons.IH [OF rest] g1(2) that by (cases j) simp_all
  then show ?case using Cons.IH [OF rest] g1(1) by simp
qed simp

lemma update_progress_follows: "mock_robot_update_goal_progress progress r w = (r', w') \<Longrightarrow> follows r r'"
  using update_groups_steps [of progress "used_groups r" w]
  by (auto simp: mock_robot_update_goal_progress_def split: prod.splits intro!: follows_used)

lemma follows_goals:
  assumes "follows r1 r'" and "map goal_of (mr_groups r1) = map goal_of (mr_groups r)"
  shows "follows r r'"
proof -
  have len: "length (mr_groups r1) = length (mr_groups r)" using assms(2) by (rule map_eq_imp_length_eq)
  have "goal_of (mr_groups r1 ! k) = goal_of (mr_groups r ! k)" if "k < length (mr_groups r)" for k
    using arg_cong [OF assms(2), of "\<lambda>xs. xs ! k"] that len by simp
  then show ?thesis using assms(1) len by (simp add: follows_def)
qed

lemma update_follows: "yields (mock_robot_update fade progress r w) (\<lambda>(r', _). follows r r')"
proof -
  let ?n = "unat (mr_num_groups r)"
  let ?r = "r\<lparr>mr_groups := map (fade_group fade) (used_groups r) @ drop ?n (mr_groups r)\<rparr>"
  have fade: "goal_of (fade_group fade g) = goal_of g" for g by (simp add: fade_group_def goal_of_def Let_def)
  have "map goal_of (mr_groups ?r) = map goal_of (take ?n (mr_groups r) @ drop ?n (mr_groups r))"
    unfolding map_append by (simp add: used_groups_def fade)
  then have "follows r r'" if "mock_robot_update_goal_progress progress ?r w = (r', w')" for r' w'
    using follows_goals [OF update_progress_follows [OF that]] by simp
  then show ?thesis
    using update_progress_follows [of progress r w] by (auto simp: mock_robot_update_def holds_def split: sum.splits)
qed

section \<open>Every run follows the machine\<close>

text \<open>What can happen to the robot of the example program, with any answers of the platform.\<close>

inductive mock_step :: "mock_robot \<Rightarrow> mock_robot \<Rightarrow> bool" where
  command: "mock_robot_handle_command h payload r w = Inr (rsp, r', w') \<Longrightarrow> mock_step r r'"
| connect: "mock_robot_on_connection ip port r w = Inr (r', w') \<Longrightarrow> mock_step r r'"
| disconnect: "mock_robot_on_disconnection ip port r w = Inr (r', w') \<Longrightarrow> mock_step r r'"
| error_info: "mock_robot_get_error_info_callback r w = Inr (rsp, e, r', w') \<Longrightarrow> mock_step r r'"
| clock: "mock_robot_update fade progress r w = Inr (r', w') \<Longrightarrow> mock_step r r'"

lemma mock_step_follows:
  assumes "mock_step r r'"
  shows "follows r r'"
  using assms
proof cases
  case command
  then show ?thesis using handle_command_follows [where robot = r] by (fastforce simp: holds_def split: sum.splits)
next
  case connect
  then show ?thesis by (auto simp: mock_robot_on_connection_def intro: follows_same)
next
  case (disconnect ip port w w')
  let ?r = "r\<lparr>mr_disconnection_count := mr_disconnection_count r + 1\<rparr>"
  obtain b r1 w1 where "mock_robot_stop_motion ?r w = (b, r1, w1)" by (cases "mock_robot_stop_motion ?r w")
  with stop_motion_follows [OF this] show ?thesis
    using disconnect follows_cong [of ?r r r1 r'] by (simp add: mock_robot_on_disconnection_def)
next
  case (error_info w rsp e w')
  then have "mr_groups r' = mr_groups r"
    by (auto simp: mock_robot_get_error_info_callback_def mock_robot_get_error_info_def Let_def andThen_eq_Inr
        MSG_OK_RESPONSE_def split: if_splits option.splits)
  then show ?thesis by (rule follows_same)
next
  case clock
  then show ?thesis using update_follows [where r = r] by (fastforce simp: holds_def split: sum.splits)
qed

interpretation goals: simulation mock_step "\<lambda>r. k < length (mr_groups r)" "\<lambda>r. goal_of (mr_groups r ! k)"
  "\<lambda>_. [] :: unit list" goal_next "\<lambda>_ _. []" for k
  by unfold_locales (auto dest!: mock_step_follows simp: follows_def goal_step_def)

text \<open>C24. The goals of the mock robot obey their life cycle: over any number of commands, connections,
  disconnections, error queries and ticks of the clock, with any payloads and any answers of the
  platform, each group of the robot moves through the machine of goals. A goal is accepted only
  when no other is active in its group and gets a number other than zero; it becomes active, and
  then succeeded, cancelled or aborted once, which only a newly accepted goal replaces.\<close>

theorem goals_follow_life_cycle:
  assumes "mock_step\<^sup>*\<^sup>* r r'" and "k < length (mr_groups r)"
  shows "\<exists>es. spec_run goal_next (\<lambda>_ _. [] :: unit list) (goal_of (mr_groups r ! k)) es =
    Some (goal_of (mr_groups r' ! k), [])"
  using goals.refines [OF assms] by simp

text \<open>A client leaves while the first group moves.\<close>

theorem goals_follow_life_cycle_witness:
  "\<exists>r'. mock_step\<^sup>*\<^sup>* (initial_robot [zero_group\<lparr>mg_goal_id := 7, mg_goal_state := GOAL_STATE_ACTIVE\<rparr>]) r' \<and>
     (\<exists>es. spec_run goal_next (\<lambda>_ _. [] :: unit list) (7, GOAL_STATE_ACTIVE) es = Some ((7, GOAL_STATE_ABORTED), []))"
proof -
  let ?r = "initial_robot [zero_group\<lparr>mg_goal_id := 7, mg_goal_state := GOAL_STATE_ACTIVE\<rparr>]"
  obtain r' w' where d: "mock_robot_on_disconnection ip port ?r ok_world = Inr (r', w')"
    and g: "goal_of (mr_groups r' ! 0) = (7, GOAL_STATE_ABORTED)" for ip port
    by (simp add: mock_robot_on_disconnection_def mock_robot_stop_motion_def Let_def used_groups_def
        initial_robot_def abort_group_def has_active_goal_def goal_of_def)
  have run: "mock_step\<^sup>*\<^sup>* ?r r'" using mock_step.disconnect [OF d] by blast
  have "0 < length (mr_groups ?r)" "goal_of (mr_groups ?r ! 0) = (7, GOAL_STATE_ACTIVE)"
    by (simp_all add: initial_robot_def goal_of_def)
  then show ?thesis using goals_follow_life_cycle [OF run, of 0] run g by auto
qed

section \<open>An accepted goal is the one that is echoed\<close>

lemma enc_goal_reads:
  fixes axes grp :: u32
  assumes "goal_data ps ts"
  defines "d \<equiv> enc_move_goal axes grp ps ts"
  shows "read_u32 d 4 = Inr grp" and "read_u32 d 8 = Inr (goal_traj d)"
    and "read_u32 d (MOVE_GOAL_TOLERANCE_SIZE_OFFSET (goal_traj d)) = Inr (goal_tol d)"
    and "unat (MOVE_GOAL_CALC_SIZE (goal_traj d) (goal_tol d)) = length d"
    and "unat (ucast (MOVE_GOAL_CALC_SIZE (goal_traj d) (goal_tol d)) :: u32) = length d"
    and "length d < 2 ^ 32" and "16 \<le> length d"
proof -
  have len: "length d = goal_bytes (length ps) (length ts)" by (simp add: d_def length_goal [OF assms(1)])
  have tt: "goal_traj d = word_of_nat (length ps)" "goal_tol d = word_of_nat (length ts)"
    by (simp_all add: d_def goal_traj_enc goal_tol_enc [OF assms(1)])
  show "length d < 2 ^ 32" "16 \<le> length d"
    using assms(1) by (auto simp: len goal_data_def goal_bytes_def)
  then show "unat (MOVE_GOAL_CALC_SIZE (goal_traj d) (goal_tol d)) = length d"
    "unat (ucast (MOVE_GOAL_CALC_SIZE (goal_traj d) (goal_tol d)) :: u32) = length d"
    by (simp_all only: tt unat_calc_size goal_unat [OF assms(1)] len unat_required)
  show "read_u32 d 8 = Inr (goal_traj d)"
    using \<open>16 \<le> length d\<close> by (simp add: read_u32_ok goal_traj_def)
  show "read_u32 d 4 = Inr grp"
    using \<open>16 \<le> length d\<close> by (simp add: read_u32_ok) (simp add: d_def enc_move_goal_def)
  show "read_u32 d (MOVE_GOAL_TOLERANCE_SIZE_OFFSET (goal_traj d)) = Inr (goal_tol d)"
    by (simp add: read_u32_ok goal_tol_def len tt(1) goal_offset [OF assms(1)] goal_bytes_def)
qed

lemma store_trajectory_enc:
  fixes axes grp :: u32
  assumes data: "goal_data ps ts" and "plenty w"
    and free: "platform_free (map_option fst (mg_stored g)) w = Inr w1" "w_env w1 = w_env w"
  defines "d \<equiv> enc_move_goal axes grp ps ts"
  shows "\<exists>g' a w'. store_trajectory d g w = Inr (True, g', w') \<and> mg_stored g' = Some (a, d)"
proof -
  note reads = enc_goal_reads [OF data, of axes grp, folded d_def]
  let ?n = "ucast (MOVE_GOAL_CALC_SIZE (goal_traj d) (goal_tol d)) :: u32"
  obtain a w2 where m: "malloc w1 = (Some a, w2)"
    using assms(2) free(2) by (auto simp: malloc_def plenty_def Let_def)
  have "goal_wf d (length d)" "no_wrap d"
    using goal_wf_enc [OF data, of axes grp] length_goal [OF data, of axes grp] by (simp_all add: d_def)
  moreover have R: "goal_bytes (unat (goal_traj d)) (unat (goal_tol d)) = length d"
    using reads(4) by (simp add: unat_calc_size)
  ultimately obtain w3 where "move_goal_deep_copy (Some d) (Some (uninit a (unat ?n) w2)) ?n w2 = Inr (True, Some d, w3)"
    using deep_copy_spec [of d "length d" ?n "uninit a (unat ?n) w2" w2] reads(5) by auto
  then show ?thesis
    by (auto simp: store_trajectory_def reads(2,3) free(1) m Let_def)
qed

lemma accept_goal_enc:
  fixes axes :: u32
  assumes data: "goal_data ps ts" and "plenty w" and rnd: "\<forall>k. e_rand (w_env w) k mod 2147483648 \<noteq> 0"
    and r: "mock_ok r" "mr_servo_power_on r" "0 < unat (mr_num_groups r)" "\<not> has_active_goal (mr_groups r ! 0)"
    and heap: "heap_ok w" "mock_owns r \<subseteq> set (w_heap w)"
  defines "d \<equiv> enc_move_goal axes 0 ps ts"
  shows "\<exists>i r' w' a. mock_robot_accept_goal d r w = Inr (i, r', w') \<and> 0 \<le> sint i \<and>
    mg_stored (mr_groups r' ! 0) = Some (a, d) \<and> mr_num_groups r' = mr_num_groups r"
proof -
  let ?g = "mr_groups r ! 0"
  have k: "0 < length (mr_groups r)" using r(1) by (simp add: mock_ok_def)
  have "set (stored_block ?g) \<subseteq> set (w_heap w)"
    using nth_mem [OF k] heap(2) unfolding mock_owns_def stored_blocks_def by auto
  then obtain w1 where "platform_free (map_option fst (mg_stored ?g)) w = Inr w1" "w_env w1 = w_env w"
    by (cases "mg_stored ?g") (auto simp: platform_free_def stored_block_def)
  from store_trajectory_enc [OF data assms(2) this, of axes 0] obtain g' a w2
    where st: "store_trajectory d ?g w = Inr (True, g', w2)" "mg_stored g' = Some (a, d)"
    by (auto simp: d_def)
  have "handled mock_owns mock_ok (set (w_heap w) - mock_owns r) w None r w"
    using r(1) heap by (auto intro: handled_start simp: user_inv_def)
  from safe_InrD [OF store_trajectory_safe [OF this r(3)] st(1)] have "w_env w2 = w_env w"
    by (auto simp: handled_def same_io_def)
  then have rnd2: "e_rand (w_env w2) (w_calls w2) mod 2147483648 \<noteq> 0" using rnd by simp
  let ?n = "e_rand (w_env w2) (w_calls w2) mod 2147483648"
  have n: "?n < 2147483648" by simp
  have "sint (word_of_nat ?n :: i32) = int ?n"
    using n by (simp add: signed_of_nat signed_take_bit_int_eq_self)
  then have i: "(word_of_nat ?n :: i32) \<noteq> 0" "0 \<le> sint (word_of_nat ?n :: i32)"
    using rnd2 by (metis of_nat_0_eq_iff signed_0, simp)
  have "draw_goal_id w2 = Some (word_of_nat ?n, tick w2)"
    using i(1) by (subst draw_goal_id.simps) (simp add: rand_def)
  then show ?thesis
    using r(2-4) k st i(2) enc_goal_reads(1) [OF data, of axes 0]
    by (simp add: mock_robot_accept_goal_def d_def [symmetric] Let_def split_def)
qed

lemma allocate_room:
  assumes "heap_ok w" and "plenty w" and "0 < unat len" and "unat len \<le> MAX_PAYLOAD_SIZE"
  obtains c w' p bs where "allocate_response_context len type w = Inr (Some c, w')" and "crc_payload c = Some (p, bs)"
    and "length bs = unat len" and "message_type (crc_header c) = type" and "heap_ok w'"
proof (cases rule: allocate_spec [OF assms(1), of len type])
  case (1 w')
  then show thesis using allocate_plenty [OF assms(2,4)] by simp
next
  case (2 c w')
  then obtain p bs where "crc_payload c = Some (p, bs)" using assms(3) by (cases "crc_payload c") (auto simp: unat_gt_0)
  moreover from this have "length bs = unat len" using 2(6,10) by (simp add: ctx_ok_def)
  ultimately show thesis using that 2 by blast
qed

lemma store_fill:
  "crc_payload c = Some (p, bs) \<Longrightarrow> length bytes = length bs \<Longrightarrow>
   store_payload bytes c = Inr (c\<lparr>crc_payload := Some (p, bytes)\<rparr>)"
  by (simp add: store_payload_def memcpy_to_def)

lemma move_goal_enc:
  fixes axes :: u32
  assumes data: "goal_data ps ts" and "plenty w" and rnd: "\<forall>k. e_rand (w_env w) k mod 2147483648 \<noteq> 0"
    and r: "mock_ok r" "mr_servo_power_on r" "0 < unat (mr_num_groups r)" "\<not> has_active_goal (mr_groups r ! 0)"
    and heap: "heap_ok w" "mock_owns r \<subseteq> set (w_heap w)"
  defines "d \<equiv> enc_move_goal axes 0 ps ts"
  assumes h: "payload_length h = word_of_nat (length d)"
  shows "\<exists>c r' w' a. move_goal_command h d r w = Inr (Some c, r', w') \<and>
    message_type (crc_header c) = msg_num MSG_GOAL_ACCEPTED \<and>
    mg_stored (mr_groups r' ! 0) = Some (a, d) \<and> mr_num_groups r' = mr_num_groups r"
proof -
  note reads = enc_goal_reads [OF data, of axes 0, folded d_def]
  have n: "unat (payload_length h) = length d" using reads(6) by (simp add: h unat_of_nat)
  have wf: "goal_wf d (length d)" "no_wrap d"
    using goal_wf_enc [OF data, of axes 0] length_goal [OF data, of axes 0] by (simp_all add: d_def)
  obtain w1 where w1: "move_goal_from_payload (Some d) (payload_length h) w = Inr (Some d, w1)"
    using from_payload_spec [of "payload_length h" d w] wf n by auto
  have io: "same_io w w1" "w_heap w1 = w_heap w" "w_next w1 = w_next w"
    using safe_InrD [OF from_payload_safe w1] by simp_all
  have env: "w_env w1 = w_env w" using io by (simp add: same_io_def)
  have heap1: "heap_ok w1" "mock_owns r \<subseteq> set (w_heap w1)" using heap io by (simp_all add: heap_ok_def)
  have "plenty w1" "\<forall>k. e_rand (w_env w1) k mod 2147483648 \<noteq> 0" using assms(2,3) env by (simp_all add: plenty_def)
  from accept_goal_enc [OF data this r heap1, of axes] obtain i r1 w2 a
    where acc: "mock_robot_accept_goal d r w1 = Inr (i, r1, w2)" "0 \<le> sint i"
      "mg_stored (mr_groups r1 ! 0) = Some (a, d)" "mr_num_groups r1 = mr_num_groups r"
    by (auto simp: d_def)
  have "handled mock_owns mock_ok (set (w_heap w1) - mock_owns r) w1 None r w1"
    using r(1) heap1 by (auto intro: handled_start simp: user_inv_def)
  from safe_InrD [OF accept_goal_safe [OF this] acc(1)] have w2: "heap_ok w2" "w_env w2 = w_env w"
    using env by (auto simp: handled_def same_io_def user_inv_def)
  have "plenty w2" using assms(2) w2(2) by (simp add: plenty_def)
  then obtain c w3 p bs where c: "allocate_response_context 16 (msg_num MSG_GOAL_ACCEPTED) w2 = Inr (Some c, w3)"
    "crc_payload c = Some (p, bs)" "length bs = unat (16 :: u32)" "message_type (crc_header c) = msg_num MSG_GOAL_ACCEPTED"
    by (rule allocate_room [OF w2(1), of 16 "msg_num MSG_GOAL_ACCEPTED"]) simp_all
  have "length (enc_goal_accepted ga) = length bs" for ga
    using c(3) by (simp add: enc_goal_accepted_def)
  note fill = store_fill [OF c(2) this]
  show ?thesis
    using w1 acc c(1,4) fill reads(2) by (simp add: move_goal_command_def split_def Let_def)
qed

lemma echo_enc:
  fixes axes :: u32
  assumes data: "goal_data ps ts" and "plenty w" and "heap_ok w"
  defines "d \<equiv> enc_move_goal axes 0 ps ts"
  assumes small: "length d \<le> MAX_PAYLOAD_SIZE" and stored: "mg_stored (mr_groups r ! 0) = Some (a, d)"
    and "0 < unat (mr_num_groups r)"
  shows "\<exists>c w'. echo_command r w = Inr (Some c, r, w') \<and>
    message_type (crc_header c) = msg_num MSG_ECHO_TRAJECTORY \<and> ctx_body c = d"
proof -
  note reads = enc_goal_reads [OF data, of axes 0, folded d_def]
  let ?n = "ucast (MOVE_GOAL_CALC_SIZE (goal_traj d) (goal_tol d)) :: u32"
  have "0 < unat ?n" "unat ?n \<le> MAX_PAYLOAD_SIZE" using reads(7) small by (auto simp: reads(5))
  then obtain c w1 p bs where c: "allocate_response_context ?n (msg_num MSG_ECHO_TRAJECTORY) w = Inr (Some c, w1)"
    "crc_payload c = Some (p, bs)" "length bs = unat ?n" "message_type (crc_header c) = msg_num MSG_ECHO_TRAJECTORY"
    by (rule allocate_room [OF assms(3,2)])
  have "store_payload d c = Inr (c\<lparr>crc_payload := Some (p, d)\<rparr>)"
    by (rule store_fill [OF c(2)]) (simp add: c(3) reads(5))
  then show ?thesis
    using c(1,4) reads(2-4) stored assms(7)
    by (simp add: echo_command_def mock_robot_echo_trajectory_def Let_def memcpy_from_ok ctx_body_def)
qed

text \<open>C25. Round trip through the robot: a \<open>MSG_MOVE_GOAL\<close> with a well-formed goal for group 0, sent while
  the servo power is on and no goal is active there, is answered with \<open>MSG_GOAL_ACCEPTED\<close>, and a
  \<open>MSG_ECHO_TRAJECTORY\<close> after it - whenever it comes, in whatever state the platform is then, as
  long as there is memory - is answered with that goal, byte for byte, although the block that held
  the payload has been freed in between.\<close>

theorem echo_returns_accepted_goal:
  assumes "goal_data ps ts" and "length (enc_move_goal axes 0 ps ts) \<le> MAX_PAYLOAD_SIZE"
    and "mock_ok r" and "mr_servo_power_on r" and "0 < unat (mr_num_groups r)"
    and "\<not> has_active_goal (mr_groups r ! 0)" and "heap_ok w" and "mock_owns r \<subseteq> set (w_heap w)"
    and "plenty w" and "\<forall>k. e_rand (w_env w) k mod 2147483648 \<noteq> 0"
    and "message_type h = msg_num MSG_MOVE_GOAL"
    and "payload_length h = word_of_nat (length (enc_move_goal axes 0 ps ts))"
  shows "\<exists>c r1 w1. mock_robot_handle_command h (enc_move_goal axes 0 ps ts) r w = Inr (Some c, r1, w1) \<and>
    message_type (crc_header c) = msg_num MSG_GOAL_ACCEPTED \<and>
    (\<forall>h2 p2 w2. message_type h2 = msg_num MSG_ECHO_TRAJECTORY \<and> heap_ok w2 \<and> plenty w2 \<longrightarrow>
      (\<exists>c2 r2 w3. mock_robot_handle_command h2 p2 r1 w2 = Inr (Some c2, r2, w3) \<and>
        message_type (crc_header c2) = msg_num MSG_ECHO_TRAJECTORY \<and> ctx_body c2 = enc_move_goal axes 0 ps ts))"
proof -
  let ?d = "enc_move_goal axes 0 ps ts" and ?w = "pr_info ''[SERVER] Received MOVE_GOAL'' w"
  let ?r = "r\<lparr>mr_command_count := mr_command_count r + 1\<rparr>"
  have "mock_ok ?r" "mock_owns ?r = mock_owns r" using assms(3) by (simp_all add: mock_ok_def mock_owns_def)
  then obtain c r1 w1 a where c: "move_goal_command h ?d ?r ?w = Inr (Some c, r1, w1)"
    "message_type (crc_header c) = msg_num MSG_GOAL_ACCEPTED"
    "mg_stored (mr_groups r1 ! 0) = Some (a, ?d)" "mr_num_groups r1 = mr_num_groups r"
    using move_goal_enc [OF assms(1), where w = ?w and r = ?r and axes = axes and h = h] assms
    by (auto simp: plenty_def heap_ok_def has_active_goal_def)
  have "mock_robot_handle_command h ?d r w = Inr (Some c, r1, w1)"
    using assms(11) c(1) by (simp add: mock_robot_handle_command_def)
  moreover have "\<exists>c2 r2 w3. mock_robot_handle_command h2 p2 r1 w2 = Inr (Some c2, r2, w3) \<and>
      message_type (crc_header c2) = msg_num MSG_ECHO_TRAJECTORY \<and> ctx_body c2 = ?d"
    if "message_type h2 = msg_num MSG_ECHO_TRAJECTORY" "heap_ok w2" "plenty w2" for h2 p2 w2
  proof -
    let ?r1 = "r1\<lparr>mr_command_count := mr_command_count r1 + 1\<rparr>"
      and ?w2 = "pr_info ''[SERVER] Received ECHO_TRAJECTORY'' w2"
    have "plenty ?w2" "heap_ok ?w2" using that by (simp_all add: plenty_def heap_ok_def)
    moreover have "mg_stored (mr_groups ?r1 ! 0) = Some (a, ?d)" "0 < unat (mr_num_groups ?r1)"
      using c(3,4) assms(5) by simp_all
    ultimately obtain c2 w3 where "echo_command ?r1 ?w2 = Inr (Some c2, ?r1, w3)"
      "message_type (crc_header c2) = msg_num MSG_ECHO_TRAJECTORY" "ctx_body c2 = ?d"
      using echo_enc [OF assms(1) _ _ assms(2)] by blast
    then show ?thesis using that(1) by (simp add: mock_robot_handle_command_def)
  qed
  ultimately show ?thesis using c(2) by blast
qed

text \<open>A robot with one group, on a platform whose \<open>rand\<close> yields 7.\<close>

definition ex_goal_hdr :: protocol_header where
  "ex_goal_hdr = \<lparr>magic_number = PROTOCOL_MAGIC_NUMBER, version = 6, message_type = msg_num MSG_MOVE_GOAL,
     timestamp_ms = 0, payload_length = word_of_nat (length (enc_move_goal 6 0 [ex_point] [ex_tolerance]))\<rparr>"

theorem echo_returns_accepted_goal_witness:
  "\<exists>c r1 w1. mock_robot_handle_command ex_goal_hdr
     (enc_move_goal 6 0 [ex_point] [ex_tolerance]) ((initial_robot [zero_group])\<lparr>mr_servo_power_on := True\<rparr>)
     (ok_world\<lparr>w_env := ok_env\<lparr>e_rand := \<lambda>_. 7\<rparr>\<rparr>) =
     Inr (Some c, r1, w1) \<and> message_type (crc_header c) = msg_num MSG_GOAL_ACCEPTED"
proof -
  let ?r = "(initial_robot [zero_group])\<lparr>mr_servo_power_on := True\<rparr>"
  have ok: "mock_ok ?r" "mock_owns ?r = {}"
    using initial_robot_ok by (simp_all add: mock_ok_def mock_owns_def)
  have small: "length (enc_move_goal 6 0 [ex_point] [ex_tolerance]) \<le> MAX_PAYLOAD_SIZE"
    by (simp add: length_goal [OF ex_goal_data] goal_bytes_def)
  have "0 < unat (mr_num_groups ?r)" "\<not> has_active_goal (mr_groups ?r ! 0)"
    by (simp_all add: initial_robot_def has_active_goal_def zero_group_def)
  then show ?thesis
    using echo_returns_accepted_goal [OF ex_goal_data small ok(1), of "ok_world\<lparr>w_env := ok_env\<lparr>e_rand := \<lambda>_. 7\<rparr>\<rparr>" ex_goal_hdr]
      ok(2)
    by (simp add: heap_ok_def plenty_def ex_goal_hdr_def) blast
qed

end
