(* ===== verification/LogPrinter.thy ===== *)
theory LogPrinter
  imports Logging
begin

text \<open>
  The logger of the example program, \<open>tests/protocol/robot_server_example.c\<close>: setting up the ring
  buffer and the logger, and the thread that prints what other threads log. Together they are a
  bounded channel from the messages of the program to its output; the contract of that channel is
  stated as a function on queues of bytes, and the code refines it.
\<close>

section \<open>Setting up\<close>

abbreviation BUFFER_SIZE :: u64 where "BUFFER_SIZE \<equiv> 8192"

text \<open>\<open>rb\<close> and \<open>log_buffer\<close> are static and so start as zeros; \<open>rb\<close> lives at this address of the store.\<close>

definition log_rb :: nat where
  "log_rb = 0"

definition zero_ring_buffer :: ring_buffer where
  "zero_ring_buffer = \<lparr>rb_buffer = None, rb_size = 0, rb_head = 0, rb_tail = 0, rb_lock = None\<rparr>"

definition pthread_create :: "world \<Rightarrow> int \<times> world" where
  "pthread_create w = (if e_spawn (w_env w) (w_calls w) then 0 else 11, tick w)"

text \<open>
  \<open>main\<close> up to the first message: the exit code if it fails, else \<open>0\<close>. The failures are reported
  with \<open>printf\<close>.
\<close>

definition example_logger :: "world \<Rightarrow> (int \<times> logging_config \<times> rb_store \<times> world) res" where
  "example_logger w =
     andThen (ring_buffer_initialize (Some zero_ring_buffer) (Some (replicate 8192 0)) BUFFER_SIZE w) (\<lambda>(r, rb, w1).
       let st = (\<lambda>_. None)(log_rb := rb) in
       if r \<noteq> 0 then Inr (1, initial_logging_config, st, w1)
       else
         let (r2, c) = logging_initialize (Some log_rb) initial_logging_config in
         if r2 \<noteq> 0 then Inr (1, c, st, w1)
         else
           let c1 = logging_set_level LOG_INFO c; (r3, w2) = pthread_create w1 in
           if r3 \<noteq> 0 then Inr (1, c1, st, w2) else Inr (0, c1, st, w2))"

section \<open>The printing thread\<close>

text \<open>One turn of its loop, which has no end: \<open>main\<close> cancels the thread.\<close>

definition print_log_turn :: "logging_config \<Rightarrow> rb_store \<Rightarrow> world \<Rightarrow> (rb_store \<times> world) res" where
  "print_log_turn c st w = andThen (log_to_stdout c st w) (\<lambda>(st1, w1). Inr (st1, platform_usleep 100000 w1))"

fun fn_print_log_thread :: "nat \<Rightarrow> logging_config \<Rightarrow> rb_store \<Rightarrow> world \<Rightarrow> (rb_store \<times> world) res" where
  "fn_print_log_thread 0 c st w = Inr (st, w)"
| "fn_print_log_thread (Suc n) c st w =
     andThen (print_log_turn c st w) (\<lambda>(st1, w1). fn_print_log_thread n c st1 w1)"

text \<open>Messages of the program and turns of the printing thread, in any order.\<close>

datatype log_action = Say log_level "byte list" "byte list option" | Print

fun log_run :: "log_action list \<Rightarrow> logging_config \<Rightarrow> rb_store \<Rightarrow> world \<Rightarrow> (rb_store \<times> world) res" where
  "log_run [] c st w = Inr (st, w)"
| "log_run (Say level stamp body # acts) c st w =
     andThen (write_log_message level stamp body c st w) (\<lambda>(_, st1, w1). log_run acts c st1 w1)"
| "log_run (Print # acts) c st w = andThen (print_log_turn c st w) (\<lambda>(st1, w1). log_run acts c st1 w1)"

lemma print_thread_run: "fn_print_log_thread n c st w = log_run (replicate n Print) c st w"
  by (induction n arbitrary: st w) (simp_all add: split_def)

section \<open>The contract\<close>

text \<open>
  On a queue of bytes with room for \<open>cap\<close>: the final queue, what is printed, and how many bytes of
  messages were dropped because the queue was full. A turn prints up to 1023 bytes; being printed as
  a C string, they end at the first zero byte.
\<close>

definition printed :: "byte list \<Rightarrow> byte list list" where
  "printed q = (let m = c_string (take (TEMP_SIZE - 1) q) in if m = [] then [] else [m])"

fun log_spec :: "log_level \<Rightarrow> nat \<Rightarrow> log_action list \<Rightarrow> byte list \<Rightarrow> byte list \<times> byte list list \<times> nat" where
  "log_spec cur cap [] q = (q, [], 0)"
| "log_spec cur cap (Say level stamp body # acts) q =
     (let line = (if level \<le> cur then log_line stamp body else []);
          (q1, out, lost) = log_spec cur cap acts (q @ take (cap - length q) line)
      in (q1, out, lost + (length line - (cap - length q))))"
| "log_spec cur cap (Print # acts) q =
     (let (q1, out, lost) = log_spec cur cap acts (drop (TEMP_SIZE - 1) q) in (q1, printed q @ out, lost))"

text \<open>The bytes of the messages that pass the level.\<close>

fun said :: "log_level \<Rightarrow> log_action list \<Rightarrow> byte list" where
  "said cur [] = []"
| "said cur (Say level stamp body # acts) = (if level \<le> cur then log_line stamp body else []) @ said cur acts"
| "said cur (Print # acts) = said cur acts"

lemma printed_text: "0 \<notin> set q \<Longrightarrow> concat (printed q) = take (TEMP_SIZE - 1) q"
proof -
  assume "0 \<notin> set q"
  then have "c_string (take (TEMP_SIZE - 1) q) = take (TEMP_SIZE - 1) q"
    using set_take_subset [of "TEMP_SIZE - 1" q] by (auto simp: c_string_def takeWhile_eq_all_conv)
  then show ?thesis by (simp add: printed_def Let_def)
qed

text \<open>What the contract promises: a queue never beyond its bound, and text in order, complete if nothing was dropped.\<close>

lemma log_spec_bound:
  "log_spec cur cap acts q = (q1, out, lost) \<Longrightarrow> length q \<le> cap \<Longrightarrow> length q1 \<le> cap"
  by (induction cur cap acts q arbitrary: q1 out lost rule: log_spec.induct) (auto simp: Let_def split: prod.splits)

lemma log_spec_text:
  assumes "log_spec cur cap acts q = (q1, out, 0)" and "0 \<notin> set q" and "0 \<notin> set (said cur acts)"
  shows "concat out @ q1 = q @ said cur acts"
  using assms
proof (induction acts arbitrary: q q1 out)
  case Nil
  then show ?case by simp
next
  case (Cons a acts)
  show ?case
  proof (cases a)
    case (Say level stamp body)
    let ?line = "if level \<le> cur then log_line stamp body else []"
    have fit: "length ?line \<le> cap - length q" and run: "log_spec cur cap acts (q @ ?line) = (q1, out, 0)"
      using Cons.prems(1) by (auto simp: Say Let_def split: prod.splits)
    have "0 \<notin> set (q @ ?line)" "0 \<notin> set (said cur acts)" using Cons.prems(2,3) by (auto simp: Say)
    from Cons.IH [OF run this] show ?thesis by (simp add: Say)
  next
    case Print
    obtain out1 where run: "log_spec cur cap acts (drop (TEMP_SIZE - 1) q) = (q1, out1, 0)" "out = printed q @ out1"
      using Cons.prems(1) by (auto simp: Print split: prod.splits)
    have "0 \<notin> set (drop (TEMP_SIZE - 1) q)" using Cons.prems(2) set_drop_subset [of "TEMP_SIZE - 1" q] by auto
    from Cons.IH [OF run(1) this] Cons.prems(3)
    have "concat out1 @ q1 = drop (TEMP_SIZE - 1) q @ said cur acts" by (simp add: Print)
    then show ?thesis
      using run(2) printed_text [OF Cons.prems(2)] by (simp add: Print)
  qed
qed

lemma log_spec_prints: "\<exists>out. log_spec cur cap (replicate n Print) q = (drop ((TEMP_SIZE - 1) * n) q, out, 0)"
proof (induction n arbitrary: q)
  case 0
  then show ?case by simp
next
  case (Suc n)
  obtain out where "log_spec cur cap (replicate n Print) (drop 1023 q) = (drop (1023 * n) (drop 1023 q), out, 0)"
    using Suc [of "drop 1023 q"] by auto
  then show ?case by (simp add: algebra_simps)
qed

section \<open>The code keeps the contract\<close>

lemma c_string_stop: "c_string (xs @ 0 # ys) = c_string xs"
  unfolding c_string_def by (induction xs) auto

lemma print_turn_ok:
  assumes c: "lg_ring_buffer c = Some p" and rb: "st p = Some rb" "rb_inv rb" "rb_ready rb w"
  obtains rb' w' where "print_log_turn c st w = Inr (st(p := Some rb'), w')" and "rb_inv rb'" and "rb_ready rb' w'"
    and "rb_cap rb' = rb_cap rb" and "rb_lock rb' = rb_lock rb"
    and "rb_contents rb' = drop (TEMP_SIZE - 1) (rb_contents rb)"
    and "w_trace w' = w_trace w @ map EvPrint (printed (rb_contents rb))"
    and "w_sems w' = (if rb_contents rb = [] then w_sems (over_give rb w) else w_sems w)" and "w_env w' = w_env w"
proof -
  let ?q = "rb_contents rb" and ?d = "replicate TEMP_SIZE (0 :: byte)" and ?len = "word_of_nat (TEMP_SIZE - 1) :: u64"
  let ?m = "min 1023 (length ?q)"
  obtain rb' w1 where r: "ring_buffer_read_n (Some rb) (Some ?d) ?len w =
      Inr (word_of_nat ?m, Some rb', Some (take 1023 ?q @ drop ?m ?d), w1)"
    and rb': "rb_inv rb'" "rb_ready rb' w1" "rb_cap rb' = rb_cap rb" "rb_contents rb' = drop 1023 ?q"
    "w1 = (if ?q = [] then over_give rb w else w)" "rb_lock rb' = rb_lock rb"
    by (rule read_n_queue [OF rb(2,3), of ?len ?d]) simp_all
  have um: "unat (word_of_nat ?m :: u64) = ?m" by (rule unat_small64) simp
  have nz: "(word_of_nat ?m :: u64) = 0 \<longleftrightarrow> ?q = []" using um unat_eq_0 [of "word_of_nat ?m :: u64"] by (auto simp: min_def split: if_splits)
  have cp: "memcpy_to (take 1023 ?q @ drop ?m ?d) ?m [0] = Inr (take 1023 ?q @ 0 # drop (Suc ?m) ?d)"
    using min_def [of "length ?q" 1023] by (simp add: memcpy_to_def min.commute flip: drop_Suc)
  have over: "w_trace (over_give rb w) = w_trace w" "w_env (over_give rb w) = w_env w"
    by (auto simp: over_give_def split: option.split)
  have out: "log_to_stdout c st w = Inr (st(p := Some rb'), if printed ?q = [] then w1 else emit (EvPrint (hd (printed ?q))) w1)"
  proof (cases "?q = []")
    case True
    then show ?thesis using c rb(1) r nz by (simp add: log_to_stdout_def printed_def Let_def c_string_def)
  next
    case False
    then show ?thesis
      using c rb(1) r nz cp by (simp add: log_to_stdout_def um printed_def Let_def c_string_stop)
  qed
  let ?w = "platform_usleep 100000 (if printed ?q = [] then w1 else emit (EvPrint (hd (printed ?q))) w1)"
  have cases: "map EvPrint (printed ?q) = (if printed ?q = [] then [] else [EvPrint (hd (printed ?q))])"
    by (simp add: printed_def Let_def)
  show thesis
  proof (rule that [of rb' ?w])
    show "w_trace ?w = w_trace w @ map EvPrint (printed ?q)"
      using rb'(5) over by (simp add: platform_usleep_def cases)
    show "w_sems ?w = (if ?q = [] then w_sems (over_give rb w) else w_sems w)" "w_env ?w = w_env w"
      using rb'(5) over by (auto simp: platform_usleep_def)
    show "rb_ready rb' ?w" using rb'(2) by (simp add: platform_usleep_def rb_ready_def)
  qed (use out rb' in \<open>simp_all add: print_log_turn_def\<close>)
qed

lemma log_run_ok:
  assumes "lg_ring_buffer c = Some p" and "st p = Some rb" and "rb_inv rb" and "rb_ready rb w"
    and "log_spec (lg_level c) (rb_cap rb - 1) acts (rb_contents rb) = (q, out, lost)"
  shows "\<exists>st' rb' w'. log_run acts c st w = Inr (st', w') \<and> st' p = Some rb' \<and> rb_inv rb' \<and> rb_ready rb' w' \<and>
    rb_contents rb' = q \<and> w_trace w' = w_trace w @ map EvPrint out"
  using assms(2-5)
proof (induction acts arbitrary: st rb w q out lost)
  case Nil
  then show ?case by simp
next
  case (Cons a acts)
  show ?case
  proof (cases a)
    case Print
    obtain rb1 w1 where t: "print_log_turn c st w = Inr (st(p := Some rb1), w1)" "rb_inv rb1" "rb_ready rb1 w1"
      "rb_cap rb1 = rb_cap rb" "rb_contents rb1 = drop (TEMP_SIZE - 1) (rb_contents rb)"
      "w_trace w1 = w_trace w @ map EvPrint (printed (rb_contents rb))"
      by (rule print_turn_ok [of c p st rb w, OF assms(1) Cons.prems(1-3)])
    obtain out1 where run: "log_spec (lg_level c) (rb_cap rb1 - 1) acts (rb_contents rb1) = (q, out1, lost)"
      "out = printed (rb_contents rb) @ out1"
      using Cons.prems(4) t(4,5) by (auto simp: Print split: prod.splits)
    have "(st(p := Some rb1)) p = Some rb1" by simp
    from Cons.IH [of "st(p := Some rb1)" rb1 w1, OF this t(2,3) run(1)] show ?thesis
      using run(2) t(1,6) by (simp add: Print del: fun_upd_apply)
  next
    case (Say level stamp body)
    show ?thesis
    proof (cases "level \<le> lg_level c")
      case False
      then have "write_log_message level stamp body c st w = Inr (0, st, w)"
        using assms(1) by (simp add: write_log_message_def not_le)
      moreover have "log_spec (lg_level c) (rb_cap rb - 1) acts (rb_contents rb) = (q, out, lost)"
        using Cons.prems(4) False by (simp add: Say split: prod.splits)
      ultimately show ?thesis using Cons.IH [of st rb w, OF Cons.prems(1-3)] by (simp add: Say)
    next
      case True
      obtain rb1 w1 n where wr: "write_log_message level stamp body c st w = Inr (n, st(p := Some rb1), w1)"
        "rb_inv rb1" "rb_ready rb1 w1" "rb_cap rb1 = rb_cap rb"
        "rb_contents rb1 = rb_contents rb @ take (rb_room rb) (log_line stamp body)" "w_trace w1 = w_trace w"
        by (rule write_log_message_ok [of c p st rb level w stamp body, OF assms(1) Cons.prems(1) True Cons.prems(2,3)])
      obtain lost1 where run: "log_spec (lg_level c) (rb_cap rb1 - 1) acts (rb_contents rb1) = (q, out, lost1)"
        using Cons.prems(4) True wr(4,5) by (auto simp: Say Let_def rb_room_def split: prod.splits)
      have "(st(p := Some rb1)) p = Some rb1" by simp
      from Cons.IH [of "st(p := Some rb1)" rb1 w1, OF this wr(2,3) run] show ?thesis using wr(1,6) by (simp add: Say del: fun_upd_apply)
    qed
  qed
qed

section \<open>Properties of the logger of the program\<close>

lemma example_logger_granted:
  assumes "e_malloc (w_env w) (w_calls w)" and "e_sem_init (w_env w) (Suc (w_calls w))"
    and "e_spawn (w_env w) (Suc (Suc (w_calls w)))"
  obtains c rb w1 where "example_logger w = Inr (0, c, (\<lambda>_. None)(log_rb := Some rb), w1)"
    and "lg_ring_buffer c = Some log_rb" and "lg_level c = LOG_INFO" and "rb_inv rb" and "rb_contents rb = []"
    and "rb_cap rb = 8192" and "rb_lock rb = Some (w_next w)" and "w_sems w1 = (w_sems w)(w_next w := Some 1)"
    and "w_env w1 = w_env w" and "w_trace w1 = w_trace w" and "w_heap w1 = w_next w # w_heap w"
    and "w_next w1 = Suc (w_next w)" and "w_fds w1 = w_fds w" and "w_calls w1 = w_calls w + 3"
proof -
  let ?rb = "\<lparr>rb_buffer = Some (replicate 8192 0), rb_size = BUFFER_SIZE, rb_head = 0, rb_tail = 0, rb_lock = Some (w_next w)\<rparr>"
  let ?w = "tick (tick w\<lparr>w_next := Suc (w_next w), w_heap := w_next w # w_heap w\<rparr>)
    \<lparr>w_sems := (w_sems w)(w_next w := Some 1)\<rparr>"
  have lock: "lock_create w = Inr (Some (w_next w), ?w)"
    using assms(1,2) by (simp add: lock_create_def malloc_def Let_def tick_def)
  have init: "ring_buffer_initialize (Some zero_ring_buffer) (Some (replicate 8192 0)) BUFFER_SIZE w = Inr (0, Some ?rb, ?w)"
    by (simp add: ring_buffer_initialize_def memcpy_to_def lock zero_ring_buffer_def)
  have "example_logger w = Inr (0, \<lparr>lg_ring_buffer = Some log_rb, lg_level = LOG_INFO\<rparr>, (\<lambda>_. None)(log_rb := Some ?rb), tick ?w)"
    using assms(3)
    by (simp add: example_logger_def init logging_initialize_def logging_set_level_def initial_logging_config_def
        pthread_create_def tick_def Let_def)
  then show thesis
    by (rule that) (simp_all add: rb_inv_def rb_cap_def rb_contents_def rb_used_def ring_get_def)
qed

text \<open>C27. From message to output: after the set-up of \<open>main\<close> no sequence of messages and turns of the
  printing thread goes wrong, and what is printed and what remains queued is what the contract says:
  a queue of up to 8191 bytes, messages above the level INFO dropped, the others appended as far as
  they fit, up to 1023 bytes printed per turn. So when nothing had to be dropped and the messages are
  text, what was printed followed by what is queued is exactly the messages, in order; and enough
  further turns print the rest.\<close>

theorem log_reaches_output:
  assumes "e_malloc (w_env w) (w_calls w)" and "e_sem_init (w_env w) (Suc (w_calls w))"
    and "e_spawn (w_env w) (Suc (Suc (w_calls w)))" and "\<forall>k. e_sem_wait (w_env w) k"
    and "log_spec LOG_INFO 8191 acts [] = (q, out, lost)"
  shows "\<exists>c st w1 st' rb w'. example_logger w = Inr (0, c, st, w1) \<and> log_run acts c st w1 = Inr (st', w') \<and>
    st' log_rb = Some rb \<and> rb_inv rb \<and> rb_contents rb = q \<and> length q \<le> 8191 \<and>
    w_trace w' = w_trace w @ map EvPrint out \<and>
    (lost = 0 \<and> 0 \<notin> set (said LOG_INFO acts) \<longrightarrow> concat out @ q = said LOG_INFO acts) \<and>
    (\<exists>st'' rb' w'' more. fn_print_log_thread 9 c st' w' = Inr (st'', w'') \<and> st'' log_rb = Some rb' \<and>
       rb_contents rb' = [] \<and> w_trace w'' = w_trace w' @ map EvPrint more \<and> (0 \<notin> set q \<longrightarrow> concat more = q))"
proof -
  obtain c rb w1 where up: "example_logger w = Inr (0, c, (\<lambda>_. None)(log_rb := Some rb), w1)" "lg_ring_buffer c = Some log_rb"
    "lg_level c = LOG_INFO" "rb_inv rb" "rb_contents rb = []" "rb_cap rb = 8192" "rb_lock rb = Some (w_next w)"
    "w_sems w1 = (w_sems w)(w_next w := Some 1)" "w_env w1 = w_env w" "w_trace w1 = w_trace w"
    by (rule example_logger_granted [OF assms(1-3)])
  let ?st = "(\<lambda>_. None)(log_rb := Some rb) :: rb_store"
  have rdy: "rb_ready rb w1" using up(7-9) assms(4) by (simp add: rb_ready_def)
  have st: "?st log_rb = Some rb" by simp
  have spec: "log_spec (lg_level c) (rb_cap rb - 1) acts (rb_contents rb) = (q, out, lost)"
    using assms(5) up(3,5,6) by simp
  obtain st' rb' w' where run: "log_run acts c ?st w1 = Inr (st', w')" "st' log_rb = Some rb'" "rb_inv rb'"
    "rb_ready rb' w'" "rb_contents rb' = q" "w_trace w' = w_trace w1 @ map EvPrint out"
    using log_run_ok [of c log_rb ?st rb w1, OF up(2) st up(4) rdy spec] by blast
  have bound: "length q \<le> 8191" using log_spec_bound [OF assms(5)] by simp
  obtain more where "log_spec (lg_level c) (rb_cap rb' - 1) (replicate 9 Print) q = (drop ((TEMP_SIZE - 1) * 9) q, more, 0)"
    using log_spec_prints by blast
  then have rest: "log_spec (lg_level c) (rb_cap rb' - 1) (replicate 9 Print) (rb_contents rb') = ([], more, 0)"
    using bound run(5) by simp
  obtain st'' rb'' w'' where drain: "fn_print_log_thread 9 c st' w' = Inr (st'', w'')" "st'' log_rb = Some rb''"
    "rb_contents rb'' = []" "w_trace w'' = w_trace w' @ map EvPrint more"
    using log_run_ok [of c log_rb st' rb' w', OF up(2) run(2-4) rest] by (auto simp: print_thread_run)
  have "said cur (replicate n Print) = []" for cur n by (induction n) simp_all
  then have "concat more = q" if "0 \<notin> set q"
    using log_spec_text [OF rest] that run(5) by simp
  moreover have "concat out @ q = said LOG_INFO acts" if "lost = 0" "0 \<notin> set (said LOG_INFO acts)"
    using log_spec_text [of LOG_INFO 8191 acts "[]" q out] assms(5) that by simp
  ultimately show ?thesis
    using up(1,10) run bound drain
    by (intro exI [of _ c] exI [of _ ?st] exI [of _ w1] exI [of _ st'] exI [of _ rb'] exI [of _ w'] conjI
        exI [of _ st''] exI [of _ rb''] exI [of _ w''] exI [of _ more]) simp_all
qed

theorem log_reaches_output_witness:
  "\<exists>c st w1 st' rb w'. example_logger ok_world = Inr (0, c, st, w1) \<and>
     log_run [Say LOG_INFO [65] (Some [66]), Say LOG_DEBUG [] (Some [67]), Print, Say LOG_ERROR [] (Some [68])] c st w1 =
       Inr (st', w') \<and> w_trace w' = [EvPrint [65, 66]] \<and> st' log_rb = Some rb \<and> rb_contents rb = [68]"
proof -
  let ?acts = "[Say LOG_INFO [65] (Some [66]), Say LOG_DEBUG [] (Some [67]), Print, Say LOG_ERROR [] (Some [68])]"
  have "log_spec LOG_INFO 8191 ?acts [] = ([68], [[65, 66]], 0)"
    by (simp add: less_eq_log_level_def log_line_def strftime_out_def printed_def c_string_def)
  from log_reaches_output [OF _ _ _ _ this, of ok_world] show ?thesis by auto
qed

text \<open>\<open>n\<close> callers of \<open>lock_take\<close>, none of which gives the lock back.\<close>

fun take_times :: "nat \<Rightarrow> LOCK_ID \<Rightarrow> world \<Rightarrow> (int list \<times> world) res" where
  "take_times 0 l w = Inr ([], w)"
| "take_times (Suc n) l w =
     andThen (lock_take l w) (\<lambda>(r, w1). andThen (take_times n l w1) (\<lambda>(rs, w2). Inr (r # rs, w2)))"

lemma take_times_ok:
  "w_sems w a = Some n \<Longrightarrow> \<forall>k. e_sem_wait (w_env w) k \<Longrightarrow>
   \<exists>w'. take_times n (Some a) w = Inr (replicate n LOCK_SUCCESS, w')"
proof (induction n arbitrary: w)
  case 0
  then show ?case by simp
next
  case (Suc n)
  let ?w = "(tick w)\<lparr>w_sems := (w_sems w)(a := Some n)\<rparr>"
  have "lock_take (Some a) w = Inr (LOCK_SUCCESS, ?w)" using Suc.prems by (simp add: lock_take_def)
  moreover obtain w' where "take_times n (Some a) ?w = Inr (replicate n LOCK_SUCCESS, w')"
    using Suc.IH [of ?w] Suc.prems(2) by auto
  ultimately show ?case by simp
qed

lemma idle_turns:
  assumes "lg_ring_buffer c = Some p" and "st p = Some rb" and "rb_inv rb" and "rb_contents rb = []"
    and "rb_lock rb = Some a" and "w_sems w a = Some (Suc k)" and "Suc k + n \<le> SEM_VALUE_MAX"
    and "\<forall>k. e_sem_wait (w_env w) k"
  shows "\<exists>st' rb' w'. fn_print_log_thread n c st w = Inr (st', w') \<and> w_trace w' = w_trace w \<and> w_env w' = w_env w \<and>
    st' p = Some rb' \<and> rb_lock rb' = Some a \<and> w_sems w' a = Some (Suc k + n)"
  using assms(2-8)
proof (induction n arbitrary: st rb w k)
  case 0
  then show ?case by simp
next
  case (Suc n)
  have rdy: "rb_ready rb w" using Suc.prems(4-7) by (simp add: rb_ready_def)
  obtain rb1 w1 where t: "print_log_turn c st w = Inr (st(p := Some rb1), w1)" "rb_inv rb1" "rb_ready rb1 w1"
    "rb_cap rb1 = rb_cap rb" "rb_lock rb1 = rb_lock rb" "rb_contents rb1 = drop (TEMP_SIZE - 1) (rb_contents rb)"
    "w_trace w1 = w_trace w @ map EvPrint (printed (rb_contents rb))"
    "w_sems w1 = (if rb_contents rb = [] then w_sems (over_give rb w) else w_sems w)" "w_env w1 = w_env w"
    by (rule print_turn_ok [of c p st rb w, OF assms(1) Suc.prems(1,2) rdy])
  have sem: "w_sems w1 a = Some (Suc (Suc k))"
    using t(8) Suc.prems(3-6) by (simp add: over_give_def)
  have out: "w_trace w1 = w_trace w" using t(7) Suc.prems(3) by (simp add: printed_def c_string_def)
  have st1: "(st(p := Some rb1)) p = Some rb1" by simp
  have "rb_contents rb1 = []" "rb_lock rb1 = Some a" using t(5,6) Suc.prems(3,4) by simp_all
  from Suc.IH [of "st(p := Some rb1)" rb1 w1 "Suc k", OF st1 t(2) this sem] show ?case
    using Suc.prems(6,7) t(1,9) out by (simp del: fun_upd_apply)
qed

text \<open>C33. The printing thread, when there is nothing to print, gives away the lock of the writers: every
  idle turn raises the semaphore by one, up to its maximum. After \<open>n\<close> idle turns, a tenth of a second
  each, \<open>n + 1\<close> writers at once can enter the section that the lock should keep for one.\<close>

theorem idle_printing_opens_lock:
  assumes "lg_ring_buffer c = Some p" and "st p = Some rb" and "rb_inv rb" and "rb_contents rb = []"
    and "rb_lock rb = Some a" and "w_sems w a = Some (Suc k)" and "Suc k + n \<le> SEM_VALUE_MAX"
    and "\<forall>k. e_sem_wait (w_env w) k"
  shows "\<exists>st' rb' w'. fn_print_log_thread n c st w = Inr (st', w') \<and> w_trace w' = w_trace w \<and>
    st' p = Some rb' \<and> rb_lock rb' = Some a \<and> w_sems w' a = Some (Suc k + n) \<and>
    (\<exists>w''. take_times (Suc k + n) (rb_lock rb') w' = Inr (replicate (Suc k + n) LOCK_SUCCESS, w''))"
proof -
  obtain st' rb' w' where run: "fn_print_log_thread n c st w = Inr (st', w')" "w_trace w' = w_trace w" "w_env w' = w_env w"
    "st' p = Some rb'" "rb_lock rb' = Some a" "w_sems w' a = Some (Suc k + n)"
    using idle_turns [of c p st rb a w k n, OF assms] by blast
  have "\<forall>k. e_sem_wait (w_env w') k" using assms(8) run(3) by simp
  with take_times_ok [OF run(6)] show ?thesis
    using run by (intro exI [of _ st'] exI [of _ rb'] exI [of _ w']) simp
qed

theorem idle_printing_opens_lock_witness:
  "\<exists>c st w1 st' w'. example_logger ok_world = Inr (0, c, st, w1) \<and>
     fn_print_log_thread 10 c st w1 = Inr (st', w') \<and> w_sems w' 1 = Some 11"
proof -
  obtain c rb w1 where up: "example_logger ok_world = Inr (0, c, (\<lambda>_. None)(log_rb := Some rb), w1)" "lg_ring_buffer c = Some log_rb"
    "lg_level c = LOG_INFO" "rb_inv rb" "rb_contents rb = []" "rb_cap rb = 8192" "rb_lock rb = Some (w_next ok_world)"
    "w_sems w1 = (w_sems ok_world)(w_next ok_world := Some 1)" "w_env w1 = w_env ok_world"
    by (rule example_logger_granted [of ok_world]) simp_all
  have lock: "rb_lock rb = Some 1" "w_sems w1 1 = Some (Suc 0)" using up(7,8) by simp_all
  have st: "((\<lambda>_. None)(log_rb := Some rb)) log_rb = Some rb" by simp
  from idle_printing_opens_lock [of c log_rb "(\<lambda>_. None)(log_rb := Some rb)" rb, OF up(2) st up(4,5) lock, of 10]
  show ?thesis using up(1,9) by auto
qed

end
