(* ===== verification/ExampleServer.thy ===== *)
theory ExampleServer
  imports Shutdown MockGoals LogPrinter
begin

text \<open>
  \<open>tests/protocol/robot_server_example.c\<close>: the program that runs the server with the mock robot
  behind it. Its main thread starts the server, sends status datagrams at fixed intervals while it
  advances the simulation, and stops the server when a signal arrives. Here the parts meet: the
  server's threads, the mock robot and the owner of both.
\<close>

section \<open>The program\<close>

abbreviation TCP_PORT :: u16 where "TCP_PORT \<equiv> 27654"
abbreviation UDP_PORT :: u16 where "UDP_PORT \<equiv> 27655"

definition HEARTBEAT_INTERVAL_MS :: int where "HEARTBEAT_INTERVAL_MS = 10"

definition example_config :: "mock_robot robot_server_config" where
  "example_config = \<lparr>tcp_port = TCP_PORT, udp_port = UDP_PORT, connection_timeout_ms = 1000,
     callbacks = mock_callbacks\<rparr>"

text \<open>
  The variables of \<open>status_loop\<close>, automatic and static. The status is never initialised, so its
  contents before the first turn are arbitrary; the structure of the robot status is written in full
  by every turn that sends it. The counters are of type \<open>int\<close> and would run over, which is undefined,
  after eight months. \<open>g_robot\<close> is the user data of the server.
\<close>

record status_vars =
  sv_status :: status_payload
  sv_last_status_time :: i64
  sv_last_robot_status_time :: i64
  sv_status_count :: int
  sv_robot_status_count :: int

text \<open>Datagrams sent are counted, and every \<open>every\<close>-th is reported.\<close>

definition count_sent :: "int \<Rightarrow> int \<Rightarrow> string \<Rightarrow> int \<Rightarrow> world \<Rightarrow> int \<times> world" where
  "count_sent sent every text count w =
     (if 0 < sent then (count + 1, if (count + 1) mod every = 0 then pr_info text w else w) else (count, w))"

definition position_turn ::
  "(u64 \<Rightarrow> u64) \<Rightarrow> (i64 \<Rightarrow> u64) \<Rightarrow> i64 \<Rightarrow> mock_robot robot_server_ctx \<Rightarrow> status_vars \<Rightarrow> world \<Rightarrow>
   (mock_robot robot_server_ctx \<times> status_vars \<times> world) res" where
  "position_turn fade progress now ctx v w =
     (if HEARTBEAT_INTERVAL_MS \<le> sint (now - sv_last_status_time v) then
        andThen (mock_robot_get_status (user_data ctx) (sv_status v) now 0) (\<lambda>status.
        andThen (mock_robot_update fade progress (user_data ctx) w) (\<lambda>(robot, w1).
          let ctx1 = ctx\<lparr>user_data := robot\<rparr>;
              (sent, w2) = robot_protocol_send_position_velocity_torque (Some ctx1) (Some status) w1;
              (count, w3) = count_sent sent 100 ''[SERVER] Sent status'' (sv_status_count v) w2
          in Inr (ctx1, v\<lparr>sv_status := status, sv_last_status_time := now, sv_status_count := count\<rparr>, w3)))
      else Inr (ctx, v, w))"

definition robot_status_turn ::
  "i64 \<Rightarrow> mock_robot robot_server_ctx \<Rightarrow> status_vars \<Rightarrow> world \<Rightarrow>
   (mock_robot robot_server_ctx \<times> status_vars \<times> world) res" where
  "robot_status_turn now ctx v w =
     (if 100 \<le> sint (now - sv_last_robot_status_time v) then
        andThen (mock_robot_get_robot_status (user_data ctx) now) (\<lambda>robot_status.
          let (sent, w1) = robot_protocol_send_robot_status (Some ctx) (Some robot_status) w;
              (count, w2) = count_sent sent 10 ''[SERVER] Sent robot status'' (sv_robot_status_count v) w1
          in Inr (ctx, v\<lparr>sv_last_robot_status_time := now, sv_robot_status_count := count\<rparr>, w2))
      else Inr (ctx, v, w))"

text \<open>One turn of the loop.\<close>

definition status_turn ::
  "(u64 \<Rightarrow> u64) \<Rightarrow> (i64 \<Rightarrow> u64) \<Rightarrow> mock_robot robot_server_ctx \<Rightarrow> status_vars \<Rightarrow> world \<Rightarrow>
   (mock_robot robot_server_ctx \<times> status_vars \<times> world) res" where
  "status_turn fade progress ctx v w =
     (let (now, w1) = get_timestamp_ms w in
      andThen (position_turn fade progress now ctx v w1) (\<lambda>(ctx1, v1, w2).
      andThen (robot_status_turn now ctx1 v1 w2) (\<lambda>(ctx2, v2, w3).
        Inr (ctx2, v2, platform_usleep 1000 w3))))"

text \<open>The loop, for at most \<open>n\<close> turns: the signal arrives during turn \<open>n\<close>, or the server stops first.\<close>

fun status_loop ::
  "(u64 \<Rightarrow> u64) \<Rightarrow> (i64 \<Rightarrow> u64) \<Rightarrow> nat \<Rightarrow> mock_robot robot_server_ctx \<Rightarrow> status_vars \<Rightarrow> world \<Rightarrow>
   (mock_robot robot_server_ctx \<times> status_vars \<times> world) res" where
  "status_loop fade progress 0 ctx v w = Inr (ctx, v, w)"
| "status_loop fade progress (Suc n) ctx v w =
     (if robot_protocol_is_running (Some ctx) \<noteq> 0
      then andThen (status_turn fade progress ctx v w) (\<lambda>(ctx1, v1, w1). status_loop fade progress n ctx1 v1 w1)
      else Inr (ctx, v, w))"

text \<open>
  \<open>main\<close> from \<open>mock_robot_init\<close> on, after the logger has been set up: the exit code and, if the server
  runs, its context.
\<close>

definition example_start :: "world \<Rightarrow> (int \<times> mock_robot robot_server_ctx option \<times> world) res" where
  "example_start w =
     andThen mock_robot_init (\<lambda>robot.
     andThen (robot_protocol_create example_config robot w) (\<lambda>(g_ctx, w1).
       if g_ctx = None then Inr (1, None, pr_error ''[SERVER] Failed to create network server'' w1)
       else let (r, g_ctx1, w2) = robot_protocol_start g_ctx w1 in
         if r < 0 then
           andThen (robot_protocol_destroy g_ctx1 (pr_error ''[SERVER] Failed to start network server'' w2))
             (\<lambda>w3. Inr (1, None, w3))
         else Inr (0, g_ctx1, pr_info ''[SERVER] Server ready'' w2)))"

definition example_main ::
  "(u64 \<Rightarrow> u64) \<Rightarrow> (i64 \<Rightarrow> u64) \<Rightarrow> nat \<Rightarrow> status_payload \<Rightarrow> world \<Rightarrow> (int \<times> world) res" where
  "example_main fade progress n status w =
     andThen (example_start w) (\<lambda>(code, g_ctx, w1).
       case g_ctx of
         None \<Rightarrow> Inr (code, w1)
       | Some ctx \<Rightarrow>
           andThen (status_loop fade progress n ctx
               \<lparr>sv_status = status, sv_last_status_time = 0, sv_last_robot_status_time = 0,
       sv_status_count = 0, sv_robot_status_count = 0\<rparr> w1) (\<lambda>(ctx1, _, w2).
           andThen (robot_protocol_stop (Some ctx1) (pr_info ''[SERVER] Shutting down...'' w2)) (\<lambda>(g_ctx2, w3).
           andThen (robot_protocol_destroy g_ctx2 w3) (\<lambda>w4.
             Inr (code, pr_info ''[SERVER] Server shutdown complete'' w4)))))"

section \<open>The rate of the status datagrams\<close>

text \<open>Time stamps in milliseconds that have not run over.\<close>

definition clock_sane :: "world \<Rightarrow> bool" where
  "clock_sane w \<longleftrightarrow> (\<forall>k. 0 \<le> sint (fst (get_timestamp_ms (w\<lparr>w_calls := k\<rparr>))))"

definition of_type :: "message_type \<Rightarrow> int \<times> byte list \<times> sockaddr_in \<Rightarrow> bool" where
  "of_type t d \<longleftrightarrow> message_type (dec_header (take HEADER_SIZE (fst (snd d)))) = msg_num t"

text \<open>
  Turns of the loop, and what they send. Between two turns the other threads may have changed the
  context, the robot and the world in any way; the local variables of the loop they cannot change.
\<close>

inductive status_turns ::
  "(u64 \<Rightarrow> u64) \<Rightarrow> (i64 \<Rightarrow> u64) \<Rightarrow> status_vars \<Rightarrow> event list \<Rightarrow> status_vars \<Rightarrow> bool" for fade progress where
  none: "status_turns fade progress v [] v"
| turn: "status_turn fade progress ctx v w = Inr (ctx', v1, w') \<Longrightarrow> clock_sane w \<Longrightarrow>
    w_trace w' = w_trace w @ evs \<Longrightarrow> status_turns fade progress v1 es v2 \<Longrightarrow>
    status_turns fade progress v (evs @ es) v2"

lemma status_datagrams_append [simp]: "datagrams (xs @ ys) = datagrams xs @ datagrams ys"
  by (induction xs rule: datagrams.induct) simp_all

lemma send_datagram_events:
  assumes "send_datagram ctx type body w = (r, w1)"
  obtains evs where "w_trace w1 = w_trace w @ evs" and "length (datagrams evs) \<le> 1"
    and "\<And>d t. d \<in> set (datagrams evs) \<Longrightarrow> of_type t d = (msg_num t = msg_num type)"
proof (cases "w_trace w1 = w_trace w")
  case True
  then show thesis by (intro that [of "[]"]) simp_all
next
  case False
  then obtain fd dest hdr where "w_trace w1 = w_trace w @ [EvSendto fd (enc_header hdr @ body) dest]"
    "message_type hdr = msg_num type"
    using assms
    by (auto simp: send_datagram_def get_timestamp_ms_def clock_gettime_def platform_sendto_def Let_def
        split: if_splits sum.splits)
  then show thesis
    by (intro that [of "[EvSendto fd (enc_header hdr @ body) dest]"]) (auto simp: of_type_def)
qed

lemma status_events:
  assumes "robot_protocol_send_position_velocity_torque (Some ctx) (Some s) w = (r, w1)"
  obtains evs where "w_trace w1 = w_trace w @ evs" and "length (datagrams evs) \<le> 1"
    and "\<And>d t. d \<in> set (datagrams evs) \<Longrightarrow> of_type t d = (msg_num t = msg_num MSG_ROBOT_POSITION_VELOCITY_TORQUE)"
  using assms
  by (auto simp: robot_protocol_send_position_velocity_torque_def split: if_splits elim: send_datagram_events
      intro: that [of "[]"])

lemma robot_status_events:
  assumes "robot_protocol_send_robot_status (Some ctx) (Some s) w = (r, w1)"
  obtains evs where "w_trace w1 = w_trace w @ evs" and "length (datagrams evs) \<le> 1"
    and "\<And>d t. d \<in> set (datagrams evs) \<Longrightarrow> of_type t d = (msg_num t = msg_num MSG_ROBOT_STATUS)"
  using assms
  by (auto simp: robot_protocol_send_robot_status_def split: if_splits elim: send_datagram_events
      intro: that [of "[]"])

lemma sint_diff_nonneg:
  fixes a b :: i64
  assumes "0 \<le> sint a" and "0 \<le> sint b"
  shows "sint (a - b) = sint a - sint b"
proof -
  have "sint a < 2 ^ 63" "sint b < 2 ^ 63"
    using sint_lt [of a] sint_lt [of b] by simp_all
  then show ?thesis using assms by (simp add: sint_word_ariths signed_take_bit_int_eq_self)
qed

lemma filter_none: "(\<And>x. x \<in> set xs \<Longrightarrow> \<not> P x) \<Longrightarrow> filter P xs = []"
  by (simp add: filter_empty_conv)

text \<open>The simulation only asks for the time.\<close>

lemma timestamp_ticks: "get_timestamp_ms w = (t, w1) \<Longrightarrow> \<exists>k. w1 = w\<lparr>w_calls := k\<rparr>"
  by (auto simp: get_timestamp_ms_def clock_gettime_def tick_def Let_def)

lemma update_groups_ticks: "update_groups progress gs w = (gs', w') \<Longrightarrow> \<exists>k. w' = w\<lparr>w_calls := k\<rparr>"
proof (induction gs arbitrary: gs' w w')
  case Nil
  then show ?case by (intro exI [of _ "w_calls w"]) simp
next
  case (Cons g gs)
  obtain t w1 where t: "get_timestamp_ms w = (t, w1)" by (cases "get_timestamp_ms w")
  obtain gs1 where "update_groups progress gs w = (gs1, w') \<or> update_groups progress gs w1 = (gs1, w')"
    using Cons.prems t by (auto split: if_splits prod.splits)
  then show ?case using Cons.IH [of w gs1 w'] Cons.IH [of w1 gs1 w'] timestamp_ticks [OF t] by auto
qed

lemma update_ticks: "mock_robot_update fade progress r w = Inr (r', w') \<Longrightarrow> \<exists>k. w' = w\<lparr>w_calls := k\<rparr>"
  by (auto simp: mock_robot_update_def mock_robot_update_goal_progress_def Let_def used_groups_def
      split: if_splits prod.splits dest: update_groups_ticks)

lemma count_sent_trace: "count_sent sent every text count w = (n, w1) \<Longrightarrow> w_trace w1 = w_trace w"
  by (auto simp: count_sent_def split: if_splits)

lemma count_sent_none: "sent \<le> 0 \<Longrightarrow> count_sent sent every text count w = (count, w)"
  by (simp add: count_sent_def)

lemma position_turn_rate:
  assumes "position_turn fade progress now ctx v w = Inr (ctx', v', w')"
    and "0 \<le> sint now" and "0 \<le> sint (sv_last_status_time v)"
  obtains evs where "w_trace w' = w_trace w @ evs"
    and "10 * int (length (datagrams evs)) \<le> sint (sv_last_status_time v') - sint (sv_last_status_time v)"
    and "\<And>d t. d \<in> set (datagrams evs) \<Longrightarrow> of_type t d = (msg_num t = msg_num MSG_ROBOT_POSITION_VELOCITY_TORQUE)"
    and "0 \<le> sint (sv_last_status_time v')" and "sv_last_robot_status_time v' = sv_last_robot_status_time v"
proof (cases "HEARTBEAT_INTERVAL_MS \<le> sint (now - sv_last_status_time v)")
  case False
  then show thesis using assms by (intro that [of "[]"]) (simp_all add: position_turn_def)
next
  case True
  let ?send = "\<lambda>robot status w1. robot_protocol_send_position_velocity_torque (Some (ctx\<lparr>user_data := robot\<rparr>)) (Some status) w1"
  let ?count = "\<lambda>(r, w2). count_sent r 100 ''[SERVER] Sent status'' (sv_status_count v) w2"
  obtain status robot w1 where u: "mock_robot_update fade progress (user_data ctx) w = Inr (robot, w1)"
    and w': "w' = snd (?count (?send robot status w1))"
    and v': "v' = v\<lparr>sv_status := status, sv_last_status_time := now, sv_status_count := fst (?count (?send robot status w1))\<rparr>"
    using True assms(1) by (auto simp: position_turn_def andThen_eq_Inr Let_def split_def)
  obtain r w2 where s: "?send robot status w1 = (r, w2)" by (cases "?send robot status w1")
  obtain n where c: "?count (r, w2) = (n, w')" using w' s by (metis prod.collapse)
  obtain evs where e: "w_trace w' = w_trace w1 @ evs" "length (datagrams evs) \<le> 1"
    "\<And>d t. d \<in> set (datagrams evs) \<Longrightarrow> of_type t d = (msg_num t = msg_num MSG_ROBOT_POSITION_VELOCITY_TORQUE)"
    using status_events [OF s] count_sent_trace [OF c [unfolded prod.case]] by metis
  have "w_trace w1 = w_trace w" using update_ticks [OF u] by auto
  then show thesis
    using e True assms(2,3) v' sint_diff_nonneg [OF assms(2,3)]
    by (intro that [of evs]) (auto simp: HEARTBEAT_INTERVAL_MS_def)
qed

lemma robot_status_turn_rate:
  assumes "robot_status_turn now ctx v w = Inr (ctx', v', w')"
    and "0 \<le> sint now" and "0 \<le> sint (sv_last_robot_status_time v)"
  obtains evs where "w_trace w' = w_trace w @ evs"
    and "100 * int (length (datagrams evs)) \<le> sint (sv_last_robot_status_time v') - sint (sv_last_robot_status_time v)"
    and "\<And>d t. d \<in> set (datagrams evs) \<Longrightarrow> of_type t d = (msg_num t = msg_num MSG_ROBOT_STATUS)"
    and "0 \<le> sint (sv_last_robot_status_time v')" and "sv_last_status_time v' = sv_last_status_time v"
proof (cases "100 \<le> sint (now - sv_last_robot_status_time v)")
  case False
  then show thesis using assms by (intro that [of "[]"]) (simp_all add: robot_status_turn_def)
next
  case True
  let ?send = "\<lambda>status. robot_protocol_send_robot_status (Some ctx) (Some status) w"
  let ?count = "\<lambda>(r, w1). count_sent r 10 ''[SERVER] Sent robot status'' (sv_robot_status_count v) w1"
  obtain status where w': "w' = snd (?count (?send status))"
    and v': "v' = v\<lparr>sv_last_robot_status_time := now, sv_robot_status_count := fst (?count (?send status))\<rparr>"
    using True assms(1) by (auto simp: robot_status_turn_def andThen_eq_Inr Let_def split_def)
  obtain r w1 where s: "?send status = (r, w1)" by (cases "?send status")
  obtain n where c: "?count (r, w1) = (n, w')" using w' s by (metis prod.collapse)
  obtain evs where e: "w_trace w' = w_trace w @ evs" "length (datagrams evs) \<le> 1"
    "\<And>d t. d \<in> set (datagrams evs) \<Longrightarrow> of_type t d = (msg_num t = msg_num MSG_ROBOT_STATUS)"
    using robot_status_events [OF s] count_sent_trace [OF c [unfolded prod.case]] by metis
  then show thesis
    using True assms(2,3) v' sint_diff_nonneg [OF assms(2,3)] by (intro that [of evs]) auto
qed

text \<open>C22. The rate of the status datagrams: over any number of turns of the loop, whatever the server, the
  other threads and the robot do in between, two status datagrams are at least ten and two robot
  status datagrams at least a hundred milliseconds apart on average - as many as fit between the
  first and the last time stamp that the loop has kept, and no more.\<close>

theorem status_datagram_rate:
  assumes "status_turns fade progress v es v'" and "0 \<le> sint (sv_last_status_time v)"
    and "0 \<le> sint (sv_last_robot_status_time v)"
  shows "10 * int (length (filter (of_type MSG_ROBOT_POSITION_VELOCITY_TORQUE) (datagrams es))) \<le>
      sint (sv_last_status_time v') - sint (sv_last_status_time v) \<and>
    100 * int (length (filter (of_type MSG_ROBOT_STATUS) (datagrams es))) \<le>
      sint (sv_last_robot_status_time v') - sint (sv_last_robot_status_time v)"
  using assms
proof (induction rule: status_turns.induct)
  case (turn ctx v w ctx' v1 w' evs es v2)
  obtain now w1 where now: "get_timestamp_ms w = (now, w1)" by (cases "get_timestamp_ms w")
  have "0 \<le> sint (fst (get_timestamp_ms (w\<lparr>w_calls := w_calls w\<rparr>)))" using turn.hyps(2) unfolding clock_sane_def by blast
  then have pos: "0 \<le> sint now" using now by simp
  obtain ctx1 va w2 w3 where p: "position_turn fade progress now ctx v w1 = Inr (ctx1, va, w2)"
    and q: "robot_status_turn now ctx1 va w2 = Inr (ctx', v1, w3)" and w': "w' = platform_usleep 1000 w3"
    using turn.hyps(1) now by (auto simp: status_turn_def andThen_eq_Inr)
  obtain e1 where e1: "w_trace w2 = w_trace w1 @ e1"
    "10 * int (length (datagrams e1)) \<le> sint (sv_last_status_time va) - sint (sv_last_status_time v)"
    "\<And>d t. d \<in> set (datagrams e1) \<Longrightarrow> of_type t d = (msg_num t = msg_num MSG_ROBOT_POSITION_VELOCITY_TORQUE)"
    "0 \<le> sint (sv_last_status_time va)" "sv_last_robot_status_time va = sv_last_robot_status_time v"
    using position_turn_rate [OF p pos turn.prems(1)] by blast
  have "0 \<le> sint (sv_last_robot_status_time va)" using e1(5) turn.prems(2) by simp
  then obtain e2 where e2: "w_trace w3 = w_trace w2 @ e2"
    "100 * int (length (datagrams e2)) \<le> sint (sv_last_robot_status_time v1) - sint (sv_last_robot_status_time va)"
    "\<And>d t. d \<in> set (datagrams e2) \<Longrightarrow> of_type t d = (msg_num t = msg_num MSG_ROBOT_STATUS)"
    "0 \<le> sint (sv_last_robot_status_time v1)" "sv_last_status_time v1 = sv_last_status_time va"
    using robot_status_turn_rate [OF q pos] by blast
  have "w_trace w' = w_trace w @ e1 @ e2"
    using e1(1) e2(1) timestamp_ticks [OF now] w' by (auto simp: platform_usleep_def)
  then have evs: "evs = e1 @ e2" using turn.hyps(3) by simp
  have "filter (of_type MSG_ROBOT_POSITION_VELOCITY_TORQUE) (datagrams e2) = []"
    "filter (of_type MSG_ROBOT_STATUS) (datagrams e1) = []"
    by (rule filter_none, simp add: e1(3) e2(3))+
  moreover have "length (filter (of_type t) ds) \<le> length ds" for t ds by simp
  ultimately have "10 * int (length (filter (of_type MSG_ROBOT_POSITION_VELOCITY_TORQUE) (datagrams evs))) \<le>
      sint (sv_last_status_time v1) - sint (sv_last_status_time v)"
    "100 * int (length (filter (of_type MSG_ROBOT_STATUS) (datagrams evs))) \<le>
      sint (sv_last_robot_status_time v1) - sint (sv_last_robot_status_time v)"
    using e1(2,5) e2(2,5) by (simp_all add: evs) (smt (verit) length_filter_le of_nat_mono)+
  moreover have "0 \<le> sint (sv_last_status_time v1)" using e1(4) e2(5) by simp
  ultimately show ?case using turn.IH e2(4) by simp
qed simp

section \<open>What the status datagrams say\<close>

text \<open>A registered client, a UDP socket that takes every datagram.\<close>

definition reports_to :: "mock_robot robot_server_ctx \<Rightarrow> world \<Rightarrow> bool" where
  "reports_to ctx w \<longleftrightarrow> connected (client ctx) \<and> udp_port_registered (client ctx) \<and>
     udp_socket ctx \<in> set (w_fds w) \<and> (\<forall>k. \<exists>n. e_send (w_env w) k = Inr n)"

lemma get_status_spec:
  assumes "mock_ok r" and "0 < unat (mr_num_groups r)" and "wf_status old"
  shows "\<exists>s. mock_robot_get_status r old now 0 = Inr s \<and> wf_status s \<and> sp_timestamp s = now \<and>
    (let g = mr_groups r ! 0; n = unat (mg_num_axes g) in num_axes s = mg_num_axes g \<and>
      take n (position s) = take n (mg_positions g) \<and> drop n (position s) = drop n (position old))"
proof -
  let ?g = "mr_groups r ! 0"
  have g: "wf_group ?g" by (rule mock_ok_nth [OF assms(1,2)])
  have "take n (overwrite n xs ys) = take n xs" "drop n (overwrite n xs ys) = drop n ys"
    if "n \<le> 8" "length xs = 8" for n and xs ys :: "u64 list"
    using that by (simp_all add: overwrite_def)
  then show ?thesis
    using assms(2,3) g
    by (simp_all add: mock_robot_get_status_def wf_status_def wf_group_def Let_def not_le)
qed

lemma update_error_count:
  "mock_robot_update fade progress r w = Inr (r', w') \<Longrightarrow> mr_error_count r' = mr_error_count r"
  by (auto simp: mock_robot_update_def mock_robot_update_goal_progress_def split: if_splits prod.splits)

lemma position_turn_sends:
  assumes "mock_ok (user_data ctx)" and "0 < unat (mr_num_groups (user_data ctx))" and "wf_status (sv_status v)"
    and "reports_to ctx w" and "HEARTBEAT_INTERVAL_MS \<le> sint (now - sv_last_status_time v)"
  obtains s robot n w' bs dest where "position_turn fade progress now ctx v w =
      Inr (ctx\<lparr>user_data := robot\<rparr>, v\<lparr>sv_status := s, sv_last_status_time := now, sv_status_count := n\<rparr>, w')"
    and "mock_robot_get_status (user_data ctx) (sv_status v) now 0 = Inr s"
    and "w_trace w' = w_trace w @ [EvSendto (udp_socket ctx) bs dest]" and "dec_status (drop HEADER_SIZE bs) = s"
    and "of_type MSG_ROBOT_POSITION_VELOCITY_TORQUE (udp_socket ctx, bs, dest)"
    and "sin_addr dest = sin_addr (client_addr (client ctx))"
    and "platform_ntohs (sin_port dest) = registered_udp_port (client ctx)"
    and "mr_error_count robot = mr_error_count (user_data ctx)"
proof -
  obtain s where s: "mock_robot_get_status (user_data ctx) (sv_status v) now 0 = Inr s" "wf_status s"
    using get_status_spec [OF assms(1-3)] by blast
  obtain robot w1 where u: "mock_robot_update fade progress (user_data ctx) w = Inr (robot, w1)" "mock_ok robot"
    using mock_robot_update_keeps [OF assms(1)] by blast
  obtain k where w1: "w1 = w\<lparr>w_calls := k\<rparr>" using update_ticks [OF u(1)] by blast
  have e: "mr_error_count robot = mr_error_count (user_data ctx)" by (rule update_error_count [OF u(1)])
  let ?ctx = "ctx\<lparr>user_data := robot\<rparr>"
  obtain n where "e_send (w_env w1) (Suc (w_calls w1)) = Inr n" "udp_socket ?ctx \<in> set (w_fds w1)"
    using assms(4) w1 by (auto simp: reports_to_def)
  then obtain t w' where sent: "send_datagram ?ctx MSG_ROBOT_POSITION_VELOCITY_TORQUE (enc_status s) w1 = (1, w')"
    "w_trace w' = w_trace w1 @ [EvSendto (udp_socket ?ctx)
      (enc_header \<lparr>magic_number = PROTOCOL_MAGIC_NUMBER, version = PROTOCOL_VERSION,
         message_type = msg_num MSG_ROBOT_POSITION_VELOCITY_TORQUE, timestamp_ms = t,
         payload_length = word_of_nat (length (enc_status s))\<rparr> @ enc_status s)
      ((client_addr (client ?ctx))\<lparr>sin_port := platform_htons (registered_udp_port (client ?ctx))\<rparr>)]"
    using send_datagram_spec [of ?ctx w1 n MSG_ROBOT_POSITION_VELOCITY_TORQUE "enc_status s"] by blast
  have "robot_protocol_send_position_velocity_torque (Some ?ctx) (Some s) w1 = (1, w')"
    using sent(1) assms(4) by (simp add: robot_protocol_send_position_velocity_torque_def reports_to_def)
  moreover obtain m w2 where c: "count_sent 1 100 ''[SERVER] Sent status'' (sv_status_count v) w' = (m, w2)"
    by (cases "count_sent 1 100 ''[SERVER] Sent status'' (sv_status_count v) w'")
  ultimately have "position_turn fade progress now ctx v w =
      Inr (?ctx, v\<lparr>sv_status := s, sv_last_status_time := now, sv_status_count := m\<rparr>, w2)"
    using assms(5) s(1) u(1) by (simp add: position_turn_def Let_def)
  then show thesis
    by (rule that [OF _ s(1) sent(2) [folded count_sent_trace [OF c], unfolded w1, simplified]])
      (use e s(2) in \<open>simp_all add: of_type_def dec_enc_status htons_ntohs\<close>)
qed

lemma robot_status_turn_events:
  assumes "0 \<le> sint (mr_error_count (user_data ctx))"
  obtains v2 w2 evs where "robot_status_turn now ctx v w = Inr (ctx, v2, w2)" and "w_trace w2 = w_trace w @ evs"
    and "sv_last_status_time v2 = sv_last_status_time v"
proof (cases "100 \<le> sint (now - sv_last_robot_status_time v)")
  case False
  then show thesis by (intro that [of v w "[]"]) (simp_all add: robot_status_turn_def)
next
  case True
  obtain st where st: "mock_robot_get_robot_status (user_data ctx) now = Inr st"
    using assms by (simp add: mock_robot_get_robot_status_def Let_def)
  obtain r w1 where sent: "robot_protocol_send_robot_status (Some ctx) (Some st) w = (r, w1)"
    by (cases "robot_protocol_send_robot_status (Some ctx) (Some st) w")
  obtain m w2 where c: "count_sent r 10 ''[SERVER] Sent robot status'' (sv_robot_status_count v) w1 = (m, w2)"
    by (cases "count_sent r 10 ''[SERVER] Sent robot status'' (sv_robot_status_count v) w1")
  obtain evs where "w_trace w1 = w_trace w @ evs" by (rule robot_status_events [OF sent])
  then have trace: "w_trace w2 = w_trace w @ evs" using count_sent_trace [OF c] by simp
  have "robot_status_turn now ctx v w =
      Inr (ctx, v\<lparr>sv_last_robot_status_time := now, sv_robot_status_count := m\<rparr>, w2)"
    using True by (simp add: robot_status_turn_def st sent c)
  then show thesis by (rule that [OF _ trace]) simp
qed

lemma status_turn_sends:
  assumes "mock_ok (user_data ctx)" and "0 < unat (mr_num_groups (user_data ctx))" and "wf_status (sv_status v)"
    and "reports_to ctx w" and "get_timestamp_ms w = (now, w0)"
    and "HEARTBEAT_INTERVAL_MS \<le> sint (now - sv_last_status_time v)"
    and "0 \<le> sint (mr_error_count (user_data ctx))"
  shows "\<exists>ctx' v' w' bs dest evs. status_turn fade progress ctx v w = Inr (ctx', v', w') \<and>
    sv_last_status_time v' = now \<and> w_trace w' = w_trace w @ EvSendto (udp_socket ctx) bs dest # evs \<and>
    of_type MSG_ROBOT_POSITION_VELOCITY_TORQUE (udp_socket ctx, bs, dest) \<and>
    sin_addr dest = sin_addr (client_addr (client ctx)) \<and>
    platform_ntohs (sin_port dest) = registered_udp_port (client ctx) \<and>
    (let s = dec_status (drop HEADER_SIZE bs); g = mr_groups (user_data ctx) ! 0; n = unat (mg_num_axes g) in
     sp_timestamp s = now \<and> num_axes s = mg_num_axes g \<and> take n (position s) = take n (mg_positions g) \<and>
     drop n (position s) = drop n (position (sv_status v)))"
proof -
  obtain k where w0: "w0 = w\<lparr>w_calls := k\<rparr>" using timestamp_ticks [OF assms(5)] by blast
  have rep: "reports_to ctx w0" using assms(4) by (simp add: reports_to_def w0)
  obtain s robot n w1 bs dest where p: "position_turn fade progress now ctx v w0 =
      Inr (ctx\<lparr>user_data := robot\<rparr>, v\<lparr>sv_status := s, sv_last_status_time := now, sv_status_count := n\<rparr>, w1)"
    "mock_robot_get_status (user_data ctx) (sv_status v) now 0 = Inr s"
    "w_trace w1 = w_trace w0 @ [EvSendto (udp_socket ctx) bs dest]" "dec_status (drop HEADER_SIZE bs) = s"
    "of_type MSG_ROBOT_POSITION_VELOCITY_TORQUE (udp_socket ctx, bs, dest)"
    "sin_addr dest = sin_addr (client_addr (client ctx))"
    "platform_ntohs (sin_port dest) = registered_udp_port (client ctx)"
    "mr_error_count robot = mr_error_count (user_data ctx)"
    using position_turn_sends [OF assms(1-3) rep assms(6), of fade progress] by metis
  let ?ctx = "ctx\<lparr>user_data := robot\<rparr>" and ?v = "v\<lparr>sv_status := s, sv_last_status_time := now, sv_status_count := n\<rparr>"
  have "0 \<le> sint (mr_error_count (user_data ?ctx))" using assms(7) p(8) by simp
  then obtain v2 w2 evs where q: "robot_status_turn now ?ctx ?v w1 = Inr (?ctx, v2, w2)" "w_trace w2 = w_trace w1 @ evs"
    "sv_last_status_time v2 = sv_last_status_time ?v"
    by (rule robot_status_turn_events)
  have "status_turn fade progress ctx v w = Inr (?ctx, v2, platform_usleep 1000 w2)"
    using assms(5) p(1) q(1) by (simp add: status_turn_def)
  moreover have "w_trace (platform_usleep 1000 w2) = w_trace w @ EvSendto (udp_socket ctx) bs dest # evs"
    using p(3) q(2) w0 by (simp add: platform_usleep_def)
  ultimately show ?thesis
    using p q(3) get_status_spec [OF assms(1-3), of now] by (auto simp: Let_def)
qed

text \<open>C21. What a client sees of the robot: a turn of the loop in which the status is due, with a client
  registered and a UDP socket that takes the datagram, sends first a status datagram, to the address
  and port of that client, with the time of the turn and the positions of the axes that the first
  group of the robot has before its simulation step. For the axes it does not have, the datagram
  carries what the local variable of the loop held before, which nobody ever set.\<close>

theorem status_turn_reports_robot:
  assumes "mock_ok (user_data ctx)" and "0 < unat (mr_num_groups (user_data ctx))" and "wf_status (sv_status v)"
    and "reports_to ctx w" and "get_timestamp_ms w = (now, w0)"
    and "HEARTBEAT_INTERVAL_MS \<le> sint (now - sv_last_status_time v)"
    and "0 \<le> sint (mr_error_count (user_data ctx))"
  shows "\<exists>ctx' v' w' bs dest evs. status_turn fade progress ctx v w = Inr (ctx', v', w') \<and>
    w_trace w' = w_trace w @ EvSendto (udp_socket ctx) bs dest # evs \<and>
    of_type MSG_ROBOT_POSITION_VELOCITY_TORQUE (udp_socket ctx, bs, dest) \<and>
    sin_addr dest = sin_addr (client_addr (client ctx)) \<and>
    platform_ntohs (sin_port dest) = registered_udp_port (client ctx) \<and>
    (let s = dec_status (drop HEADER_SIZE bs); g = mr_groups (user_data ctx) ! 0; n = unat (mg_num_axes g) in
     sp_timestamp s = now \<and> num_axes s = mg_num_axes g \<and> take n (position s) = take n (mg_positions g) \<and>
     drop n (position s) = drop n (position (sv_status v)))"
  using status_turn_sends [OF assms] by blast

section \<open>An example\<close>

text \<open>Two axes, a client registered at port 7000, two seconds on the clock, and a status full of \<open>0xA5\<close>.\<close>

definition ex_group :: mock_group where
  "ex_group = zero_group\<lparr>mg_num_axes := 2, mg_positions := [1, 2, 3, 4, 5, 6, 7, 8]\<rparr>"

definition ex_reporter :: "mock_robot robot_server_ctx" where
  "ex_reporter = mock_server\<lparr>client := ex_client\<lparr>registered_udp_port := 7000, udp_port_registered := True\<rparr>,
     user_data := initial_robot [ex_group]\<rparr>"

definition ex_status_net :: world where
  "ex_status_net = ex_net []\<lparr>w_env := ok_env\<lparr>e_clock := \<lambda>_. \<lparr>tv_sec = 2, tv_nsec = 0\<rparr>\<rparr>\<rparr>"

definition ex_vars :: status_vars where
  "ex_vars = \<lparr>sv_status = \<lparr>group_index = 0xA5, group_type = 0xA5, sp_timestamp = 0, num_axes = 0xA5,
       position = replicate 8 0xA5, velocity = replicate 8 0xA5, torque = replicate 8 0xA5,
       position_corrected = replicate 8 0xA5\<rparr>,
     sv_last_status_time = 0, sv_last_robot_status_time = 0,
       sv_status_count = 0, sv_robot_status_count = 0\<rparr>"

lemma ex_reporter_facts:
  "mock_ok (user_data ex_reporter)" "mr_num_groups (user_data ex_reporter) = 1" "wf_status (sv_status ex_vars)"
  "reports_to ex_reporter ex_status_net" "mr_error_count (user_data ex_reporter) = 0"
  "mr_groups (user_data ex_reporter) ! 0 = ex_group" "udp_socket ex_reporter = 4"
  by (simp_all add: ex_reporter_def ex_group_def initial_robot_def mock_ok_def zero_group_def stored_blocks_def
      stored_block_def wf_group_def ex_vars_def wf_status_def reports_to_def ex_status_net_def mock_server_def)

lemma ex_time: "get_timestamp_ms (ex_status_net\<lparr>w_calls := k\<rparr>) = (2000, tick (ex_status_net\<lparr>w_calls := k\<rparr>))"
  by (simp add: get_timestamp_ms_def clock_gettime_def ex_status_net_def Let_def)

lemma ex_status_sane: "clock_sane ex_status_net"
  by (simp add: clock_sane_def ex_time)

theorem status_turn_reports_robot_witness:
  "\<exists>ctx' v' w' bs dest evs. status_turn id id ex_reporter ex_vars ex_status_net = Inr (ctx', v', w') \<and>
     w_trace w' = EvSendto 4 bs dest # evs \<and>
     take 2 (position (dec_status (drop HEADER_SIZE bs))) = [1, 2] \<and>
     drop 2 (position (dec_status (drop HEADER_SIZE bs))) = replicate 6 0xA5"
proof -
  have now: "get_timestamp_ms ex_status_net = (2000, tick ex_status_net)"
    using ex_time [of "w_calls ex_status_net"] by simp
  have due: "HEARTBEAT_INTERVAL_MS \<le> sint (2000 - sv_last_status_time ex_vars :: i64)"
    by (simp add: HEARTBEAT_INTERVAL_MS_def ex_vars_def)
  have "0 < unat (mr_num_groups (user_data ex_reporter))" "0 \<le> sint (mr_error_count (user_data ex_reporter))"
    by (simp_all add: ex_reporter_facts)
  from status_turn_reports_robot [OF ex_reporter_facts(1) this(1) ex_reporter_facts(3,4) now due this(2), of id id]
  obtain ctx' v' w' bs dest evs where "status_turn id id ex_reporter ex_vars ex_status_net = Inr (ctx', v', w')"
    "w_trace w' = EvSendto 4 bs dest # evs"
    "take 2 (position (dec_status (drop HEADER_SIZE bs))) = [1, 2]"
    "drop 2 (position (dec_status (drop HEADER_SIZE bs))) = replicate 6 0xA5"
    by (auto simp: Let_def ex_reporter_facts(6,7)) (auto simp: ex_group_def ex_vars_def ex_status_net_def)
  then show ?thesis by blast
qed

theorem status_datagram_rate_witness:
  "\<exists>es v'. status_turns id id ex_vars es v' \<and>
     1 \<le> length (filter (of_type MSG_ROBOT_POSITION_VELOCITY_TORQUE) (datagrams es)) \<and>
     10 * int (length (filter (of_type MSG_ROBOT_POSITION_VELOCITY_TORQUE) (datagrams es))) \<le> 2000"
proof -
  have now: "get_timestamp_ms ex_status_net = (2000, tick ex_status_net)"
    using ex_time [of "w_calls ex_status_net"] by simp
  have due: "HEARTBEAT_INTERVAL_MS \<le> sint (2000 - sv_last_status_time ex_vars :: i64)"
    by (simp add: HEARTBEAT_INTERVAL_MS_def ex_vars_def)
  have "0 < unat (mr_num_groups (user_data ex_reporter))" "0 \<le> sint (mr_error_count (user_data ex_reporter))"
    by (simp_all add: ex_reporter_facts)
  from status_turn_sends [OF ex_reporter_facts(1) this(1) ex_reporter_facts(3,4) now due this(2), of id id]
  obtain ctx' v' w' bs dest evs where t: "status_turn id id ex_reporter ex_vars ex_status_net = Inr (ctx', v', w')"
    "w_trace w' = w_trace ex_status_net @ EvSendto 4 bs dest # evs" "sv_last_status_time v' = 2000"
    "of_type MSG_ROBOT_POSITION_VELOCITY_TORQUE (4, bs, dest)"
    by (auto simp: ex_reporter_facts(7))
  have run: "status_turns id id ex_vars ((EvSendto 4 bs dest # evs) @ []) v'"
    by (rule status_turns.turn [OF t(1) ex_status_sane t(2) status_turns.none])
  from status_datagram_rate [OF run] show ?thesis
    using run t(3,4) by (intro exI [of _ "(EvSendto 4 bs dest # evs) @ []"] exI [of _ v']) (simp add: ex_vars_def)
qed

section \<open>The server of the program\<close>

text \<open>The steps of the server's threads, and those of the simulation in the main thread.\<close>

inductive example_step :: "nat \<Rightarrow> mock_robot race_state \<Rightarrow> mock_robot race_state \<Rightarrow> bool" for policy where
  server: "race_step policy s t \<Longrightarrow> example_step policy s t"
| simulate: "mock_robot_update fade progress (user_data ctx) w = Inr (robot, w1) \<Longrightarrow>
    example_step policy (pc, p, ctx, w) (pc, p, ctx\<lparr>user_data := robot\<rparr>, w1)"

lemma race_inv_user:
  assumes "race_inv owns ok ctx0 R pc ctx w" and "ok u" and "owns u = owns (user_data ctx)"
  shows "race_inv owns ok ctx0 R pc (ctx\<lparr>user_data := u\<rparr>) w"
proof -
  have "pc_ok pc (ctx\<lparr>user_data := u\<rparr>) w"
    using assms(1) by (cases pc) (simp_all add: race_inv_def own_socket_def)
  then show ?thesis
    using assms
    by (auto simp: race_inv_def shared_inv_def server_inv_def user_inv_def lock_held_def client_inv_def)
qed

interpretation example: simulation "example_step policy" "race_ok mock_owns mock_ok ctx0 R D" race_session race_closes
  session_next session_closes for policy ctx0 R D
proof
  fix s t :: "mock_robot race_state"
  assume ok: "race_ok mock_owns mock_ok ctx0 R D s" and "example_step policy s t"
  from this(2) have "race_ok mock_owns mock_ok ctx0 R D t \<and>
      (\<exists>e. session_next (race_session s) e = Some (race_session t) \<and>
        race_closes t = race_closes s @ session_closes (race_session s) e)"
  proof cases
    case server
    then show ?thesis using races.inv_step [OF ok] races.simulate [OF ok] by blast
  next
    case (simulate fade progress ctx w robot w1 pc p)
    obtain k where w1: "w1 = w\<lparr>w_calls := k\<rparr>" using update_ticks [OF simulate(3)] by blast
    obtain r where inv: "race_inv mock_owns mock_ok (ctx0\<lparr>running := r\<rparr>) R pc ctx w"
      and h: "command_handler (callbacks (config ctx0)) mock_owns mock_ok"
      using ok simulate(1) by (auto simp: race_ok_def)
    have "mock_ok (user_data ctx)"
      using inv by (simp add: race_inv_def shared_inv_def server_inv_def user_inv_def)
    from mock_robot_update_keeps [OF this, of fade progress w]
    have "mock_ok robot" "mock_owns robot = mock_owns (user_data ctx)" using simulate(3) by auto
    from race_inv_frame [OF race_inv_user [OF inv this], of w1] have "race_ok mock_owns mock_ok ctx0 R D t"
      using h w1 simulate(1,2) ok by (auto simp: race_ok_def)
    then show ?thesis using simulate(1,2) w1 by (intro conjI exI [of _ Quiet]) simp_all
  qed
  then show "race_ok mock_owns mock_ok ctx0 R D t"
    and "\<exists>e. session_next (race_session s) e = Some (race_session t) \<and>
      race_closes t = race_closes s @ session_closes (race_session s) e"
    by blast+
qed

lemma initial_robot_wf:
  "wf_group g \<Longrightarrow> mg_stored g = None \<Longrightarrow> mock_ok (initial_robot [g]) \<and> mock_owns (initial_robot [g]) = {}"
  by (auto simp: initial_robot_def mock_ok_def mock_owns_def stored_blocks_def stored_block_def wf_group_def zero_group_def)

lemma mock_init:
  obtains robot where "mock_robot_init = Inr robot" and "mock_ok robot" and "mock_owns robot = {}"
    and "mr_error_count robot = 0"
proof -
  obtain g where "mock_robot_init = Inr (initial_robot [g])" "wf_group g" "mg_stored g = None"
    by (simp add: mock_robot_init_def mock_robot_init_multi_def init_group_def zero_group_def wf_group_def Let_def)
  moreover have "mr_error_count (initial_robot [g]) = 0" by (simp add: initial_robot_def)
  ultimately show thesis using that initial_robot_wf by blast
qed

definition example_ctx :: "mock_robot \<Rightarrow> world \<Rightarrow> nat \<Rightarrow> nat \<Rightarrow> mock_robot robot_server_ctx" where
  "example_ctx robot w t1 t2 =
     started_ctx (fresh_ctx example_config robot (w_next w) (Suc (w_next w)))
       (first_free (w_fds w)) (first_free (first_free (w_fds w) # w_fds w)) t1 t2"

lemma example_ctx_sel [simp]:
  "user_data (example_ctx robot w t1 t2) = robot" "config (example_ctx robot w t1 t2) = example_config"
  "client (example_ctx robot w t1 t2) = zero_client" "client_mutex (example_ctx robot w t1 t2) = Some (Suc (w_next w))"
  "ctx_addr (example_ctx robot w t1 t2) = w_next w" "tcp_socket (example_ctx robot w t1 t2) = first_free (w_fds w)"
  "udp_socket (example_ctx robot w t1 t2) = first_free (first_free (w_fds w) # w_fds w)"
  by (simp_all add: example_ctx_def started_ctx_def fresh_ctx_def)

lemma example_start_granted:
  assumes "granting 8 w"
  obtains robot t1 t2 w1 where "example_start w = Inr (0, Some (example_ctx robot w t1 t2), w1)"
    and "mock_ok robot" and "mock_owns robot = {}" and "mr_error_count robot = 0"
    and "w_heap w1 = Suc (w_next w) # w_next w # w_heap w" and "w_next w1 = Suc (Suc (w_next w))"
    and "w_fds w1 = first_free (first_free (w_fds w) # w_fds w) # first_free (w_fds w) # w_fds w"
    and "w_sems w1 = (w_sems w)(Suc (w_next w) := Some 1)" and "w_env w1 = w_env w"
proof -
  obtain robot where robot: "mock_robot_init = Inr robot" "mock_ok robot" "mock_owns robot = {}"
    "mr_error_count robot = 0"
    by (rule mock_init)
  let ?a = "w_next w"
  let ?ctx = "fresh_ctx example_config robot ?a (Suc ?a)"
  obtain w1 where c: "robot_protocol_create example_config robot w = Inr (Some ?ctx, w1)"
    "w_heap w1 = Suc ?a # ?a # w_heap w" "w_fds w1 = w_fds w" "w_sems w1 = (w_sems w)(Suc ?a := Some 1)"
    "w_env w1 = w_env w" "w_next w1 = Suc (Suc ?a)" "granting (5 + 0) w1"
    by (rule create_granted [of 5 w]) (use assms in simp_all)
  from start_granted [OF c(7), of ?ctx] obtain w2 t1 t2 where st:
    "robot_protocol_start (Some ?ctx) w1 = (0, Some (example_ctx robot w t1 t2), w2)"
    "w_heap w2 = w_heap w1" "w_fds w2 = first_free (first_free (w_fds w) # w_fds w) # first_free (w_fds w) # w_fds w"
    "w_sems w2 = w_sems w1" "w_env w2 = w_env w" "w_next w2 = w_next w1"
    unfolding c(3,5) example_ctx_def by blast
  have "example_start w = Inr (0, Some (example_ctx robot w t1 t2), pr_info ''[SERVER] Server ready'' w2)"
    by (simp add: example_start_def robot(1) c(1) st(1))
  then show thesis by (rule that) (simp_all add: robot c st)
qed

lemma example_started:
  assumes "granting 8 w" and "heap_ok w"
  obtains ctx w1 where "example_start w = Inr (0, Some ctx, w1)"
    and "server_inv mock_owns mock_ok ctx (set (w_heap w1)) ctx w1" and "callbacks (config ctx) = mock_callbacks"
    and "client ctx = zero_client"
    and "set (w_heap w1) = {ctx_addr ctx, the (client_mutex ctx)} \<union> set (w_heap w)"
    and "set (w_fds w1) = {tcp_socket ctx, udp_socket ctx} \<union> set (w_fds w)"
    and "{tcp_socket ctx, udp_socket ctx} \<inter> set (w_fds w) = {}"
    and "tcp_socket ctx \<noteq> udp_socket ctx" and "0 \<le> tcp_socket ctx" and "0 \<le> udp_socket ctx"
    and "client_mutex ctx = Some (Suc (ctx_addr ctx))"
    and "{ctx_addr ctx, Suc (ctx_addr ctx)} \<inter> set (w_heap w) = {}"
proof -
  obtain robot t1 t2 w1 where st: "example_start w = Inr (0, Some (example_ctx robot w t1 t2), w1)"
    "mock_ok robot" "mock_owns robot = {}" "w_heap w1 = Suc (w_next w) # w_next w # w_heap w"
    "w_next w1 = Suc (Suc (w_next w))"
    "w_fds w1 = first_free (first_free (w_fds w) # w_fds w) # first_free (w_fds w) # w_fds w"
    "w_sems w1 = (w_sems w)(Suc (w_next w) := Some 1)" "w_env w1 = w_env w"
    by (rule example_start_granted [OF assms(1)])
  let ?run = "example_ctx robot w t1 t2"
  let ?s = "first_free (w_fds w)" and ?d = "first_free (first_free (w_fds w) # w_fds w)"
  have fresh: "?s \<notin> set (w_fds w)" "?d \<noteq> ?s" "?d \<notin> set (w_fds w)" "0 \<le> ?s" "0 \<le> ?d"
    using first_free_fresh [of "w_fds w"] first_free_fresh [of "?s # w_fds w"]
      first_free_nonneg [of "w_fds w"] first_free_nonneg [of "?s # w_fds w"] by auto
  have "heap_ok w1" using assms(2) st(4,5) by (auto simp: heap_ok_def)
  then have "user_inv mock_owns mock_ok (set (w_heap w1)) robot w1" using st(2,3) by (simp add: user_inv_def)
  then have "server_inv mock_owns mock_ok ?run (set (w_heap w1)) ?run w1"
    using assms(1) st(6-8)
    by (simp add: server_inv_def lock_held_def granting_def client_inv_def client_rec_inv_def)
  moreover have "{w_next w, Suc (w_next w)} \<inter> set (w_heap w) = {}" using assms(2) by (auto simp: heap_ok_def)
  ultimately show thesis
    using st(1) fresh by (intro that [of ?run w1]) (auto simp: example_config_def st(4,6))
qed

text \<open>Every state of a run: the server in order, and the descriptors of the start still open.\<close>

lemma example_run_ok:
  assumes "server_inv mock_owns mock_ok ctx R ctx w" and "callbacks (config ctx) = mock_callbacks"
    and "client ctx = zero_client" and "(example_step policy)\<^sup>*\<^sup>* (Top, False, ctx, w) (pc, p, c, v)"
  shows "race_ok mock_owns mock_ok ctx R (set (w_fds w)) (pc, p, c, v)"
    and "\<exists>es os. spec_run session_next session_closes (None, None) es = Some ((session_of c, visitor_of pc), os) \<and>
      closes v = closes w @ os"
proof -
  have "command_handler (callbacks (config ctx)) mock_owns mock_ok"
    using mock.command_handler_axioms assms(2) by simp
  note start = race_ok_start [OF this assms(1)]
  have none: "session_of ctx = None" using assms(3) by (simp add: session_of_def)
  show "race_ok mock_owns mock_ok ctx R (set (w_fds w)) (pc, p, c, v)"
    using example.inv_run [OF assms(4) start] by (simp add: none)
  show "\<exists>es os. spec_run session_next session_closes (None, None) es = Some ((session_of c, visitor_of pc), os) \<and>
      closes v = closes w @ os"
    using example.refines [OF assms(4) start] by (simp add: none)
qed



section \<open>Stopping with clients\<close>

lemma example_running:
  assumes "(example_step policy)\<^sup>*\<^sup>* (pc, p, c, v) (pc', p', c', v')"
    and "race_ok mock_owns mock_ok ctx0 R D (pc, p, c, v)" and "running c = 0"
  shows "race_ok mock_owns mock_ok ctx0 R D (pc', p', c', v') \<and> running c' = 0"
  using assms
proof (induction "(pc', p', c', v')" arbitrary: pc' p' c' v' rule: rtranclp_induct)
  case base
  then show ?case by simp
next
  case (step s)
  obtain pc1 p1 c1 v1 where s: "s = (pc1, p1, c1, v1)" by (cases s)
  have "race_ok mock_owns mock_ok ctx0 R D (pc1, p1, c1, v1)" "running c1 = 0" using step.hyps(3) s step.prems by simp_all
  moreover from step.hyps(2) [unfolded s] calculation have "running c' = 0"
    by cases (auto intro: race_step_running)
  ultimately show ?case using example.inv_step step.hyps(2) s by blast
qed

text \<open>C20. Stopping the program while it serves clients. Whatever has happened since its start: after
  the request to stop, and whatever the other threads, the network and the simulation still do,
  the TCP thread comes to the end of its loop when it is let run - or to one of the listed
  faults, of which one is to wait for the rest of a payload that the client withholds, so that
  \<open>robot_protocol_stop\<close> then never returns. Once it has ended, with nothing left to do for the timeout
  thread, \<open>robot_protocol_stop\<close> goes on to its end and \<open>robot_protocol_destroy\<close> succeeds: the descriptors
  that are open are those from before the program started, each socket of the server having been
  closed once, and on the heap there is what was there before, and the trajectories that the
  robot still stores.\<close>

theorem example_stops_and_cleans_up:
  assumes "granting 8 w" and "heap_ok w"
  shows "\<exists>ctx w1. example_start w = Inr (0, Some ctx, w1) \<and>
    (\<forall>pc p c v pc' p' c' v'.
      (example_step policy)\<^sup>*\<^sup>* (Top, False, ctx, w1) (pc, p, c, v) \<longrightarrow>
      (example_step policy)\<^sup>*\<^sup>* (pc, p, fst (stop_request c v), snd (stop_request c v)) (pc', p', c', v') \<longrightarrow>
      thread_ends policy (pc', c', v') \<and>
      (pc' = Stopped \<longrightarrow>
        (\<exists>v2 v3. stop_finish True c' v' = Inr (Some (stopped c'), v2) \<and>
           robot_protocol_destroy (Some (stopped c')) v2 = Inr v3 \<and>
           set (w_fds v3) = set (w_fds w) \<and> set (w_heap v3) = set (w_heap w) \<union> mock_owns (user_data c') \<and>
           w_trace v2 = w_trace v' @ join_events c' @ close_events (held_sockets c'))))"
proof -
  obtain ctx w1 where start: "example_start w = Inr (0, Some ctx, w1)"
    "server_inv mock_owns mock_ok ctx (set (w_heap w1)) ctx w1" "callbacks (config ctx) = mock_callbacks"
    "client ctx = zero_client"
    and heap: "set (w_heap w1) = {ctx_addr ctx, the (client_mutex ctx)} \<union> set (w_heap w)"
      "client_mutex ctx = Some (Suc (ctx_addr ctx))" "{ctx_addr ctx, Suc (ctx_addr ctx)} \<inter> set (w_heap w) = {}"
    and fds: "set (w_fds w1) = {tcp_socket ctx, udp_socket ctx} \<union> set (w_fds w)"
      "{tcp_socket ctx, udp_socket ctx} \<inter> set (w_fds w) = {}"
      "tcp_socket ctx \<noteq> udp_socket ctx" "0 \<le> tcp_socket ctx" "0 \<le> udp_socket ctx"
    by (rule example_started [OF assms])
  let ?R = "set (w_heap w1)" and ?D = "set (w_fds w1)"
  have "thread_ends policy (pc', c', v') \<and>
      (pc' = Stopped \<longrightarrow>
        (\<exists>v2 v3. stop_finish True c' v' = Inr (Some (stopped c'), v2) \<and>
           robot_protocol_destroy (Some (stopped c')) v2 = Inr v3 \<and>
           set (w_fds v3) = set (w_fds w) \<and> set (w_heap v3) = set (w_heap w) \<union> mock_owns (user_data c') \<and>
           w_trace v2 = w_trace v' @ join_events c' @ close_events (held_sockets c')))"
    if run: "(example_step policy)\<^sup>*\<^sup>* (Top, False, ctx, w1) (pc, p, c, v)"
      and after: "(example_step policy)\<^sup>*\<^sup>* (pc, p, fst (stop_request c v), snd (stop_request c v)) (pc', p', c', v')"
    for pc p c v pc' p' c' v'
  proof -
    have "example_step policy (pc, p, c, v) (pc, p, fst (stop_request c v), snd (stop_request c v))"
      by (intro example_step.server race_step.halt) simp
    with run have "(example_step policy)\<^sup>*\<^sup>* (Top, False, ctx, w1) (pc, p, fst (stop_request c v), snd (stop_request c v))"
      by (rule rtranclp.rtrancl_into_rtrancl)
    note ok = example_run_ok(1) [OF start(2-4) this]
    have ok': "race_ok mock_owns mock_ok ctx ?R ?D (pc', p', c', v')" and halted: "running c' = 0"
      using example_running [OF after ok] by simp_all
    then obtain r where h: "command_handler (callbacks (config (ctx\<lparr>running := r\<rparr>))) mock_owns mock_ok"
      and inv: "race_inv mock_owns mock_ok (ctx\<lparr>running := r\<rparr>) ?R pc' c' v'"
      by (auto simp: race_ok_def)
    have "running (ctx\<lparr>running := r\<rparr>) = 0" using race_inv_running [OF inv] halted by simp
    then have ends: "thread_ends policy (pc', c', v')" by (rule thread_comes_to_end [OF h inv])
    show ?thesis
    proof (intro conjI impI ends)
      assume "pc' = Stopped"
      with ok' have "race_ok mock_owns mock_ok ctx ?R ?D (Stopped, p', c', v')" by simp
      then obtain v2 v3 where "stop_finish True c' v' = Inr (Some (stopped c'), v2)"
        "robot_protocol_destroy (Some (stopped c')) v2 = Inr v3"
        "set (w_fds v3) = ?D - {tcp_socket ctx, udp_socket ctx}"
        "set (w_heap v3) = (?R \<union> mock_owns (user_data c')) - {Suc (ctx_addr ctx), ctx_addr ctx}"
        "w_trace v2 = w_trace v' @ join_events c' @ close_events (held_sockets c')"
        by (rule finish_ends_server [OF _ halted _ fds(3-5) heap(2)]) (use fds(1) heap(1,2) in auto)
      moreover have "mock_owns (user_data c') \<inter> ?R = {}"
        using inv by (auto simp: race_inv_def shared_inv_def server_inv_def user_inv_def)
      ultimately show "\<exists>v2 v3. stop_finish True c' v' = Inr (Some (stopped c'), v2) \<and>
           robot_protocol_destroy (Some (stopped c')) v2 = Inr v3 \<and>
           set (w_fds v3) = set (w_fds w) \<and> set (w_heap v3) = set (w_heap w) \<union> mock_owns (user_data c') \<and>
           w_trace v2 = w_trace v' @ join_events c' @ close_events (held_sockets c')"
        using fds(1,2) heap by (intro exI [of _ v2] exI [of _ v3]) auto
    qed
  qed
  then show ?thesis using start(1) by (intro exI [of _ ctx] exI [of _ w1]) blast
qed

text \<open>Started and stopped at once, the TCP thread is at its end after one step.\<close>

theorem example_stops_and_cleans_up_witness:
  "\<exists>ctx w1 c v v2 v3. example_start ok_world = Inr (0, Some ctx, w1) \<and>
    (example_step 1)\<^sup>*\<^sup>* (Top, False, fst (stop_request ctx w1), snd (stop_request ctx w1)) (Stopped, False, c, v) \<and>
    stop_finish True c v = Inr (Some (stopped c), v2) \<and> robot_protocol_destroy (Some (stopped c)) v2 = Inr v3 \<and>
    set (w_fds v3) = {0, 1, 2}"
proof -
  have "granting 8 ok_world" "heap_ok ok_world" by (simp_all add: granting_def heap_ok_def)
  from example_stops_and_cleans_up [OF this, of 1] obtain ctx w1 where start: "example_start ok_world = Inr (0, Some ctx, w1)"
    and ends: "\<forall>pc p c v pc' p' c' v'.
      (example_step 1)\<^sup>*\<^sup>* (Top, False, ctx, w1) (pc, p, c, v) \<longrightarrow>
      (example_step 1)\<^sup>*\<^sup>* (pc, p, fst (stop_request c v), snd (stop_request c v)) (pc', p', c', v') \<longrightarrow>
      thread_ends 1 (pc', c', v') \<and>
      (pc' = Stopped \<longrightarrow>
        (\<exists>v2 v3. stop_finish True c' v' = Inr (Some (stopped c'), v2) \<and>
           robot_protocol_destroy (Some (stopped c')) v2 = Inr v3 \<and>
           set (w_fds v3) = set (w_fds ok_world) \<and> set (w_heap v3) = set (w_heap ok_world) \<union> mock_owns (user_data c') \<and>
           w_trace v2 = w_trace v' @ join_events c' @ close_events (held_sockets c')))"
    by (elim exE conjE)
  let ?c = "fst (stop_request ctx w1)" and ?v = "snd (stop_request ctx w1)"
  have "example_step 1 (Top, False, ?c, ?v) (Stopped, False, ?c, ?v)"
    by (intro example_step.server race_step.tcp) simp
  then have run: "(example_step 1)\<^sup>*\<^sup>* (Top, False, ?c, ?v) (Stopped, False, ?c, ?v)" by (rule r_into_rtranclp)
  obtain v2 v3 where "stop_finish True ?c ?v = Inr (Some (stopped ?c), v2)"
    "robot_protocol_destroy (Some (stopped ?c)) v2 = Inr v3" "set (w_fds v3) = set (w_fds ok_world)"
    using ends [rule_format, OF rtranclp.rtrancl_refl run] by (elim conjE impE) (rule refl, elim exE conjE)
  moreover have "set (w_fds ok_world) = {0, 1, 2}" by auto
  ultimately show ?thesis using start run by (intro exI conjI) (assumption+, simp)
qed

section \<open>The program without clients\<close>

text \<open>While nobody is connected, the loop only lets the simulation run.\<close>

lemma idle_turn:
  assumes "\<not> connected (client ctx)" and "mock_ok (user_data ctx)" and "0 \<le> sint (mr_error_count (user_data ctx))"
  obtains robot v' k where "status_turn fade progress ctx v w = Inr (ctx\<lparr>user_data := robot\<rparr>, v', w\<lparr>w_calls := k\<rparr>)"
    and "mock_ok robot" and "mr_error_count robot = mr_error_count (user_data ctx)"
proof -
  obtain now w0 where now: "get_timestamp_ms w = (now, w0)" by (cases "get_timestamp_ms w")
  obtain k0 where w0: "w0 = w\<lparr>w_calls := k0\<rparr>" using timestamp_ticks [OF now] by blast
  obtain robot v1 k1 where p: "position_turn fade progress now ctx v w0 =
      Inr (ctx\<lparr>user_data := robot\<rparr>, v1, w\<lparr>w_calls := k1\<rparr>)"
    "mock_ok robot" "mr_error_count robot = mr_error_count (user_data ctx)"
  proof (cases "HEARTBEAT_INTERVAL_MS \<le> sint (now - sv_last_status_time v)")
    case False
    then show thesis
      using that [of "user_data ctx" v k0] assms(2) by (simp add: position_turn_def w0)
  next
    case True
    obtain s where s: "mock_robot_get_status (user_data ctx) (sv_status v) now 0 = Inr s"
      using mock_ok_nth [OF assms(2), of 0]
      by (cases "unat (mr_num_groups (user_data ctx)) = 0")
        (simp_all add: mock_robot_get_status_def wf_group_def Let_def not_le)
    obtain robot w1 where u: "mock_robot_update fade progress (user_data ctx) w0 = Inr (robot, w1)" "mock_ok robot"
      using mock_robot_update_keeps [OF assms(2)] by blast
    obtain k1 where "w1 = w\<lparr>w_calls := k1\<rparr>" using update_ticks [OF u(1)] w0 by auto
    then show thesis
      using that [of robot _ k1] True s u update_error_count [OF u(1)] assms(1)
      by (simp add: position_turn_def robot_protocol_send_position_velocity_torque_def count_sent_none Let_def)
  qed
  have "\<exists>v2. robot_status_turn now (ctx\<lparr>user_data := robot\<rparr>) v1 (w\<lparr>w_calls := k1\<rparr>) =
      Inr (ctx\<lparr>user_data := robot\<rparr>, v2, w\<lparr>w_calls := k1\<rparr>)"
    using assms(1,3) p(3)
    by (auto simp: robot_status_turn_def robot_protocol_send_robot_status_def mock_robot_get_robot_status_def
        count_sent_none Let_def)
  then show thesis
    using that [OF _ p(2,3)] now p(1) by (auto simp: status_turn_def platform_usleep_def tick_def)
qed

lemma idle_loop:
  "\<not> connected (client ctx) \<Longrightarrow> mock_ok (user_data ctx) \<Longrightarrow> 0 \<le> sint (mr_error_count (user_data ctx)) \<Longrightarrow>
   \<exists>robot v' k. status_loop fade progress n ctx v w = Inr (ctx\<lparr>user_data := robot\<rparr>, v', w\<lparr>w_calls := k\<rparr>)"
proof (induction n arbitrary: ctx v w)
  case 0
  show ?case by (intro exI [of _ "user_data ctx"] exI [of _ v] exI [of _ "w_calls w"]) simp
next
  case (Suc n)
  show ?case
  proof (cases "robot_protocol_is_running (Some ctx) = 0")
    case True
    then show ?thesis by (intro exI [of _ "user_data ctx"] exI [of _ v] exI [of _ "w_calls w"]) simp
  next
    case False
    obtain robot v1 k where t: "status_turn fade progress ctx v w = Inr (ctx\<lparr>user_data := robot\<rparr>, v1, w\<lparr>w_calls := k\<rparr>)"
      "mock_ok robot" "mr_error_count robot = mr_error_count (user_data ctx)"
      by (rule idle_turn [OF Suc.prems])
    have "\<exists>r v' j. status_loop fade progress n (ctx\<lparr>user_data := robot\<rparr>) v1 (w\<lparr>w_calls := k\<rparr>) =
        Inr ((ctx\<lparr>user_data := robot\<rparr>)\<lparr>user_data := r\<rparr>, v', (w\<lparr>w_calls := k\<rparr>)\<lparr>w_calls := j\<rparr>)"
      using Suc.prems t(2,3) by (intro Suc.IH) simp_all
    then show ?thesis using False t(1) by auto
  qed
qed

lemma destroy_stopped:
  assumes "lock_held 1 (stopped ctx) w" and "client_mutex ctx = Some m" and "w_heap w = m # ctx_addr ctx # h"
  obtains w' where "robot_protocol_destroy (Some (stopped ctx)) w = Inr w'" and "w_heap w' = h" and "w_fds w' = w_fds w"
    and "w_sems w' = (w_sems w)(m := None)"
proof -
  have sel: "client_mutex (stopped ctx) = Some m" "ctx_addr (stopped ctx) = ctx_addr ctx"
    using assms(2) by (simp_all add: stopped_def)
  have none: "held_sockets (stopped ctx) = []" by (simp add: held_sockets_def stopped_def fd_list_def)
  then have "holds_sockets (stopped ctx) w" by (simp add: holds_sockets_def)
  then obtain w1 where st: "robot_protocol_stop (Some (stopped ctx)) w = Inr (Some (stopped (stopped ctx)), w1)"
    "w_fds w1 = w_fds w" "w_heap w1 = w_heap w" "w_sems w1 = w_sems w"
    using stop_closes [OF assms(1), of thesis] none by auto
  have "w_sems w m = Some 1" using assms(1) sel(1) by (simp add: lock_held_def)
  let ?w2 = "w1\<lparr>w_sems := (w_sems w)(m := None), w_heap := ctx_addr ctx # h\<rparr>"
  have "lock_destroy (Some m) w1 = Inr (0, ?w2)"
    using st(3,4) assms(3) \<open>w_sems w m = Some 1\<close> by (simp add: lock_destroy_def platform_free_def)
  then show thesis
    using st by (intro that [of "?w2\<lparr>w_heap := h\<rparr>"]) (simp_all add: robot_protocol_destroy_def sel platform_free_def)
qed

text \<open>The program without clients, whose server threads have nothing to do: on an operating system that
  grants the requests of its start, it starts, runs its loop until the signal arrives - after any
  number of turns, with any clock and any rounding in the simulation -, stops and destroys the server
  and exits with code 0, and every block, semaphore and descriptor it took has been given back.\<close>

theorem example_main_cleans_up:
  assumes "granting 8 w" and "heap_ok w" and "w_sems w (Suc (w_next w)) = None"
  shows "\<exists>w'. example_main fade progress n status w = Inr (0, w') \<and> w_heap w' = w_heap w \<and>
    w_fds w' = w_fds w \<and> w_sems w' = w_sems w"
proof -
  obtain robot t1 t2 w1 where st: "example_start w = Inr (0, Some (example_ctx robot w t1 t2), w1)"
    "mock_ok robot" "mr_error_count robot = 0" "w_heap w1 = Suc (w_next w) # w_next w # w_heap w"
    "w_fds w1 = first_free (first_free (w_fds w) # w_fds w) # first_free (w_fds w) # w_fds w"
    "w_sems w1 = (w_sems w)(Suc (w_next w) := Some 1)" "w_env w1 = w_env w"
    by (rule example_start_granted [OF assms(1)])
  let ?s = "first_free (w_fds w)" and ?d = "first_free (first_free (w_fds w) # w_fds w)"
  let ?vars = "\<lparr>sv_status = status, sv_last_status_time = 0, sv_last_robot_status_time = 0,
       sv_status_count = 0, sv_robot_status_count = 0\<rparr>"
  obtain r v' k where loop: "status_loop fade progress n (example_ctx robot w t1 t2) ?vars w1 =
      Inr ((example_ctx robot w t1 t2)\<lparr>user_data := r\<rparr>, v', w1\<lparr>w_calls := k\<rparr>)"
    using idle_loop [of "example_ctx robot w t1 t2" fade progress n ?vars w1] st(2,3) by auto
  let ?ctx = "(example_ctx robot w t1 t2)\<lparr>user_data := r\<rparr>"
    and ?w1 = "pr_info ''[SERVER] Shutting down...'' (w1\<lparr>w_calls := k\<rparr>)"
  have fresh: "?s \<notin> set (w_fds w)" "?d \<noteq> ?s" "?d \<notin> set (w_fds w)" "0 \<le> ?s" "0 \<le> ?d"
    using first_free_fresh [of "w_fds w"] first_free_fresh [of "?s # w_fds w"]
      first_free_nonneg [of "w_fds w"] first_free_nonneg [of "?s # w_fds w"] by auto
  have held: "held_sockets ?ctx = [?s, ?d]" using fresh(4,5) by (simp add: held_sockets_def fd_list_def)
  have "lock_held 1 ?ctx ?w1" using assms(1) st(6,7) by (simp add: lock_held_def granting_def)
  moreover have "holds_sockets ?ctx ?w1" using fresh st(5) by (simp add: holds_sockets_def held)
  ultimately obtain w2 where sp: "robot_protocol_stop (Some ?ctx) ?w1 = Inr (Some (stopped ?ctx), w2)"
    "w_fds w2 = filter (\<lambda>fd. fd \<notin> set (held_sockets ?ctx)) (w_fds ?w1)" "lock_held 1 (stopped ?ctx) w2"
    "w_heap w2 = w_heap ?w1" "w_sems w2 = w_sems ?w1"
    by (rule stop_closes)
  have fds: "w_fds w2 = w_fds w" using fresh st(5) by (auto simp: sp(2) held intro!: filter_True)
  obtain w3 where d: "robot_protocol_destroy (Some (stopped ?ctx)) w2 = Inr w3" "w_heap w3 = w_heap w"
    "w_fds w3 = w_fds w2" "w_sems w3 = (w_sems w2)(Suc (w_next w) := None)"
    by (rule destroy_stopped [OF sp(3), of "Suc (w_next w)" "w_heap w"]) (simp_all add: sp(4) st(4))
  have "(w_sems w2)(Suc (w_next w) := None) = w_sems w"
    using sp(5) st(6) assms(3) by (simp add: fun_upd_idem)
  then show ?thesis
    using d fds by (simp add: example_main_def st(1) loop sp(1))
qed

theorem example_main_cleans_up_witness:
  "\<exists>w'. example_main id id 5 (sv_status ex_vars) ok_world = Inr (0, w') \<and> w_heap w' = [] \<and> w_fds w' = [0, 1, 2]"
  using example_main_cleans_up [of ok_world id id 5 "sv_status ex_vars"] by (auto simp: granting_def heap_ok_def)

section \<open>The whole program\<close>

text \<open>
  \<open>main\<close>, from the logger to the exit code: also the configuration of the logger that is left. The
  printing thread is cancelled at the end, at an arbitrary point of its loop, and not joined; what it
  does in the meantime is the subject of \<open>LogPrinter\<close>. The messages of the server are recorded in \<open>w_log\<close>.
\<close>

definition example_program ::
  "(u64 \<Rightarrow> u64) \<Rightarrow> (i64 \<Rightarrow> u64) \<Rightarrow> nat \<Rightarrow> status_payload \<Rightarrow> world \<Rightarrow> (int \<times> logging_config \<times> world) res" where
  "example_program fade progress n status w =
     andThen (example_logger w) (\<lambda>(code, c, st, w1).
       if code \<noteq> 0 then Inr (code, c, w1)
       else andThen (example_main fade progress n status (pr_info ''[SERVER] Robot Server with Network Library'' w1))
         (\<lambda>(code1, w2). Inr (code1, if code1 = 0 then logging_shutdown c else c, w2)))"



end
