(* ===== verification/FaultInject.thy ===== *)
theory FaultInject
  imports ServerRaces MockGoals
begin

text \<open>
  \<open>tests/protocol/fault_inject.c\<close> and the handler of \<open>tests/protocol/test_fault_injection.c\<close> that
  puts it in front of the mock robot: rules that say on which message a fault is due, and the faults
  themselves - a connection that is shut down under the server, and a TCP thread that does not
  respond. The handler is a second provider of the interface of callbacks, one that interferes with
  the connection it is called for; so the invariants of the server hold for it as well.
\<close>

section \<open>Rules\<close>

datatype fault_type = FAULT_NONE | FAULT_DISCONNECT | FAULT_UNRESPONSIVE | FAULT_CLOSE_CONNECTION

datatype fault_trigger_type =
  TRIGGER_IMMEDIATE | TRIGGER_AFTER_N_MESSAGES | TRIGGER_ON_MESSAGE_TYPE | TRIGGER_AFTER_N_OF_TYPE

record fault_rule =
  fr_fault :: fault_type
  fr_trigger :: fault_trigger_type
  fr_trigger_message_type :: byte
  fr_trigger_count :: u32
  fr_one_shot :: bool
  fr_current_count :: u32

text \<open>The pointer to the server is kept as whether it is set.\<close>

record fault_inject_ctx =
  fi_rules :: "fault_rule list"
  fi_total_message_count :: u32
  fi_rule_fired :: "bool list"
  fi_server :: bool

abbreviation FAULT_MAX_RULES :: nat where "FAULT_MAX_RULES \<equiv> 8"

definition zero_rule :: fault_rule where
  "zero_rule = \<lparr>fr_fault = FAULT_NONE, fr_trigger = TRIGGER_IMMEDIATE, fr_trigger_message_type = 0,
     fr_trigger_count = 0, fr_one_shot = False, fr_current_count = 0\<rparr>"

definition fault_inject_init :: "bool \<Rightarrow> fault_inject_ctx" where
  "fault_inject_init server = \<lparr>fi_rules = replicate FAULT_MAX_RULES zero_rule, fi_total_message_count = 0,
     fi_rule_fired = replicate FAULT_MAX_RULES False, fi_server = server\<rparr>"

definition fault_inject_reset :: "fault_inject_ctx \<Rightarrow> fault_inject_ctx" where
  "fault_inject_reset ctx = fault_inject_init (fi_server ctx)"

definition fault_inject_add_rule :: "fault_inject_ctx \<Rightarrow> fault_rule \<Rightarrow> int \<times> fault_inject_ctx" where
  "fault_inject_add_rule ctx rule =
     (case find (\<lambda>i. fr_fault (fi_rules ctx ! i) = FAULT_NONE) [0..<FAULT_MAX_RULES] of
        Some i \<Rightarrow> (int i, ctx\<lparr>fi_rules := (fi_rules ctx)[i := rule\<lparr>fr_current_count := 0\<rparr>],
                          fi_rule_fired := (fi_rule_fired ctx)[i := False]\<rparr>)
      | None \<Rightarrow> (-1, ctx))"

definition fault_inject_disconnect_after :: "fault_inject_ctx \<Rightarrow> u32 \<Rightarrow> int \<times> fault_inject_ctx" where
  "fault_inject_disconnect_after ctx n_messages =
     fault_inject_add_rule ctx \<lparr>fr_fault = FAULT_DISCONNECT, fr_trigger = TRIGGER_AFTER_N_MESSAGES,
       fr_trigger_message_type = 0, fr_trigger_count = n_messages, fr_one_shot = True, fr_current_count = 0\<rparr>"

definition fault_inject_unresponsive_on :: "fault_inject_ctx \<Rightarrow> byte \<Rightarrow> int \<times> fault_inject_ctx" where
  "fault_inject_unresponsive_on ctx msg_type =
     fault_inject_add_rule ctx \<lparr>fr_fault = FAULT_UNRESPONSIVE, fr_trigger = TRIGGER_ON_MESSAGE_TYPE,
       fr_trigger_message_type = msg_type, fr_trigger_count = 0, fr_one_shot = False, fr_current_count = 0\<rparr>"

definition fault_inject_close_connection :: "fault_inject_ctx \<Rightarrow> int \<times> fault_inject_ctx" where
  "fault_inject_close_connection ctx =
     fault_inject_add_rule ctx \<lparr>fr_fault = FAULT_CLOSE_CONNECTION, fr_trigger = TRIGGER_IMMEDIATE,
       fr_trigger_message_type = 0, fr_trigger_count = 0, fr_one_shot = True, fr_current_count = 0\<rparr>"

section \<open>Which fault a message triggers\<close>

text \<open>The switch over the trigger, which may count the message.\<close>

definition rule_trigger :: "u32 \<Rightarrow> protocol_header \<Rightarrow> fault_rule \<Rightarrow> bool \<times> fault_rule" where
  "rule_trigger messages header rule =
     (case fr_trigger rule of
        TRIGGER_IMMEDIATE \<Rightarrow> (True, rule)
      | TRIGGER_AFTER_N_MESSAGES \<Rightarrow> (fr_trigger_count rule \<le> messages, rule)
      | TRIGGER_ON_MESSAGE_TYPE \<Rightarrow> (message_type header = fr_trigger_message_type rule, rule)
      | TRIGGER_AFTER_N_OF_TYPE \<Rightarrow>
          if message_type header = fr_trigger_message_type rule
          then let rule1 = rule\<lparr>fr_current_count := fr_current_count rule + 1\<rparr>
               in (fr_trigger_count rule1 \<le> fr_current_count rule1, rule1)
          else (False, rule))"

text \<open>
  The loop over the rules, here over a list of slots. A rule whose fault is \<open>FAULT_NONE\<close> is skipped,
  so the loop returns \<open>FAULT_NONE\<close> only when no rule was triggered, and logs in all other cases.
\<close>

fun fault_scan :: "nat list \<Rightarrow> fault_inject_ctx \<Rightarrow> protocol_header \<Rightarrow> fault_type \<times> fault_inject_ctx" where
  "fault_scan [] ctx header = (FAULT_NONE, ctx)"
| "fault_scan (i # slots) ctx header =
     (let rule = fi_rules ctx ! i in
      if fr_fault rule = FAULT_NONE then fault_scan slots ctx header
      else if fr_one_shot rule \<and> fi_rule_fired ctx ! i then fault_scan slots ctx header
      else
        let (triggered, rule1) = rule_trigger (fi_total_message_count ctx) header rule;
            ctx1 = ctx\<lparr>fi_rules := (fi_rules ctx)[i := rule1]\<rparr>
        in if triggered
           then (fr_fault rule1,
                 if fr_one_shot rule1 then ctx1\<lparr>fi_rule_fired := (fi_rule_fired ctx1)[i := True]\<rparr> else ctx1)
           else fault_scan slots ctx1 header)"

definition fault_inject_check ::
  "fault_inject_ctx \<Rightarrow> protocol_header \<Rightarrow> world \<Rightarrow> fault_type \<times> fault_inject_ctx \<times> world" where
  "fault_inject_check ctx header w =
     (let (fault, ctx1) = fault_scan [0..<FAULT_MAX_RULES]
            (ctx\<lparr>fi_total_message_count := fi_total_message_count ctx + 1\<rparr>) header
      in (fault, ctx1, if fault = FAULT_NONE then w else pr_info ''[FAULT] Rule triggered'' w))"

section \<open>The faults\<close>

text \<open>
  The injector reads the structure of the server without its mutex, so every read may find something
  else: \<open>server k\<close> is what the \<open>k\<close>-th read of a call finds.
\<close>

function unresponsive_loop ::
  "int \<Rightarrow> (nat \<Rightarrow> 'u robot_server_ctx) \<Rightarrow> nat \<Rightarrow> world \<Rightarrow> world" where
  "unresponsive_loop ms server k w =
     (if ms < 5000 \<and> running (server k) \<noteq> 0
      then unresponsive_loop (ms + 50) server (Suc k) (platform_usleep 50000 w) else w)"
  by pat_completeness auto

termination
  by (relation "measure (\<lambda>(ms, _). nat (5000 - ms))") auto

declare unresponsive_loop.simps [simp del]

definition shutdown_client :: "(nat \<Rightarrow> 'u robot_server_ctx) \<Rightarrow> world \<Rightarrow> world" where
  "shutdown_client server w =
     (if connected (client (server 0)) then platform_shutdown (client_socket (client (server 1))) w else w)"

definition fault_inject_execute ::
  "(nat \<Rightarrow> 'u robot_server_ctx) \<Rightarrow> fault_inject_ctx \<Rightarrow> fault_type \<Rightarrow> world \<Rightarrow> int \<times> world" where
  "fault_inject_execute server ctx fault w =
     (if \<not> fi_server ctx then (-1, w)
      else (case fault of
              FAULT_NONE \<Rightarrow> (0, w)
            | FAULT_DISCONNECT \<Rightarrow> (0, shutdown_client server (pr_info ''[FAULT] Executing DISCONNECT'' w))
            | FAULT_UNRESPONSIVE \<Rightarrow>
                (0, unresponsive_loop 0 server 0 (pr_info ''[FAULT] Executing UNRESPONSIVE'' w))
            | FAULT_CLOSE_CONNECTION \<Rightarrow>
                (0, shutdown_client server (pr_info ''[FAULT] Executing CLOSE_CONNECTION'' w))))"

section \<open>The handler of the tests\<close>

text \<open>
  \<open>test_robot\<close> and \<open>test_fault_ctx\<close> are both global; here they are the user data together.
  \<open>server k\<close> are the reads of the server's structure by the call of the handler that starts when
  \<open>k\<close> calls to the operating system have been made.
\<close>

type_synonym faulty = "mock_robot \<times> fault_inject_ctx"

definition fault_injecting_handle_command ::
  "(nat \<Rightarrow> nat \<Rightarrow> faulty robot_server_ctx) \<Rightarrow> faulty command_callback" where
  "fault_injecting_handle_command server header payload u w =
     (let (robot, fault_ctx) = u; (fault, fault_ctx1, w1) = fault_inject_check fault_ctx header w in
      if fault \<noteq> FAULT_NONE then
        let (_, w2) = fault_inject_execute (server (w_calls w)) fault_ctx1 fault w1 in
        if fault = FAULT_UNRESPONSIVE
        then andThen (MSG_OK_RESPONSE w2) (\<lambda>(rsp, w3). Inr (rsp, (robot, fault_ctx1), w3))
        else Inr (None, (robot, fault_ctx1), w2)
      else andThen (mock_robot_handle_command header payload robot w1)
        (\<lambda>(rsp, robot1, w2). Inr (rsp, (robot1, fault_ctx1), w2)))"

text \<open>The other callbacks are those of the mock robot.\<close>

definition on_robot :: "mock_robot connection_callback \<Rightarrow> faulty connection_callback" where
  "on_robot f ip port u w = andThen (f ip port (fst u) w) (\<lambda>(robot, w1). Inr ((robot, snd u), w1))"

definition error_info_on_robot :: "faulty error_info_callback" where
  "error_info_on_robot u w =
     andThen (mock_robot_get_error_info_callback (fst u) w)
       (\<lambda>(rsp, n, robot, w1). Inr (rsp, n, (robot, snd u), w1))"

definition fault_callbacks :: "(nat \<Rightarrow> nat \<Rightarrow> faulty robot_server_ctx) \<Rightarrow> faulty robot_network_callbacks" where
  "fault_callbacks server = \<lparr>on_connection = Some (on_robot mock_robot_on_connection),
     on_disconnection = Some (on_robot mock_robot_on_disconnection),
     handle_command = Some (fault_injecting_handle_command server),
     get_error_info = Some error_info_on_robot\<rparr>"

text \<open>\<open>setUp\<close>: the server that the tests run against, if its assertions hold.\<close>

definition fault_setUp ::
  "(nat \<Rightarrow> nat \<Rightarrow> faulty robot_server_ctx) \<Rightarrow> world \<Rightarrow> (faulty robot_server_ctx option \<times> world) res" where
  "fault_setUp server w =
     andThen mock_robot_init (\<lambda>robot.
     andThen (robot_protocol_create \<lparr>tcp_port = 27654, udp_port = 27655, connection_timeout_ms = 2000,
         callbacks = fault_callbacks server\<rparr> (robot, fault_inject_init False) w) (\<lambda>(network, w1).
       case network of
         None \<Rightarrow> Inr (None, w1)
       | Some ctx \<Rightarrow>
           let ctx1 = ctx\<lparr>user_data := (fst (user_data ctx), (snd (user_data ctx))\<lparr>fi_server := True\<rparr>)\<rparr>;
               (result, network1, w2) = robot_protocol_start (Some ctx1) w1
           in if result = 0 then Inr (network1, platform_usleep 100000 w2) else Inr (None, w2)))"

section \<open>The first rule that is due decides\<close>

text \<open>What the scan does, without the scan: which slots are due, and what looking at one changes.\<close>

definition slot_live :: "fault_inject_ctx \<Rightarrow> nat \<Rightarrow> bool" where
  "slot_live ctx i \<longleftrightarrow> fr_fault (fi_rules ctx ! i) \<noteq> FAULT_NONE \<and>
     \<not> (fr_one_shot (fi_rules ctx ! i) \<and> fi_rule_fired ctx ! i)"

definition slot_due :: "fault_inject_ctx \<Rightarrow> protocol_header \<Rightarrow> nat \<Rightarrow> bool" where
  "slot_due ctx h i \<longleftrightarrow> slot_live ctx i \<and> fst (rule_trigger (fi_total_message_count ctx) h (fi_rules ctx ! i))"

definition slot_seen :: "fault_inject_ctx \<Rightarrow> protocol_header \<Rightarrow> nat \<Rightarrow> fault_rule" where
  "slot_seen ctx h i =
     (if slot_live ctx i then snd (rule_trigger (fi_total_message_count ctx) h (fi_rules ctx ! i))
      else fi_rules ctx ! i)"

definition first_match ::
  "nat \<Rightarrow> nat \<Rightarrow> fault_inject_ctx \<Rightarrow> protocol_header \<Rightarrow> fault_type \<times> fault_inject_ctx" where
  "first_match k n ctx h =
     (case find (slot_due ctx h) [k..<n] of
        None \<Rightarrow> (FAULT_NONE, ctx\<lparr>fi_rules := map (\<lambda>i. if k \<le> i then slot_seen ctx h i else fi_rules ctx ! i) [0..<n]\<rparr>)
      | Some j \<Rightarrow> (fr_fault (fi_rules ctx ! j),
          let ctx1 = ctx\<lparr>fi_rules := map (\<lambda>i. if k \<le> i \<and> i \<le> j then slot_seen ctx h i
                                        else fi_rules ctx ! i) [0..<n]\<rparr>
          in if fr_one_shot (fi_rules ctx ! j)
             then ctx1\<lparr>fi_rule_fired := (fi_rule_fired ctx)[j := True]\<rparr> else ctx1))"

lemma rule_trigger_keeps:
  "rule_trigger messages h rule = (b, rule1) \<Longrightarrow> fr_fault rule1 = fr_fault rule \<and> fr_one_shot rule1 = fr_one_shot rule"
  by (auto simp: rule_trigger_def Let_def split: fault_trigger_type.splits if_splits)

lemma find_cong_set: "(\<And>x. x \<in> set xs \<Longrightarrow> P x = Q x) \<Longrightarrow> find P xs = find Q xs"
  by (induction xs) auto

lemma find_upt_ge: "find P [k..<n] = Some j \<Longrightarrow> k \<le> j \<and> j < n \<and> P j"
  by (auto simp: find_Some_iff)

text \<open>Looking at one slot does not change the others.\<close>

lemma first_match_Suc:
  assumes k: "k < n" and len: "length (fi_rules ctx) = n" and "\<not> slot_due ctx h k"
  defines "ctx1 \<equiv> ctx\<lparr>fi_rules := (fi_rules ctx)[k := slot_seen ctx h k]\<rparr>"
  shows "first_match k n ctx h = first_match (Suc k) n ctx1 h"
proof -
  have other: "slot_due ctx1 h i = slot_due ctx h i" "slot_seen ctx1 h i = slot_seen ctx h i"
    "fi_rules ctx1 ! i = fi_rules ctx ! i" if "i \<noteq> k" for i
    using that by (simp_all add: slot_due_def slot_seen_def slot_live_def ctx1_def)
  have at_k: "fi_rules ctx1 ! k = slot_seen ctx h k" using k len by (simp add: ctx1_def)
  have "find (slot_due ctx h) [k..<n] = find (slot_due ctx h) [Suc k..<n]"
    using k assms(3) by (simp add: upt_conv_Cons)
  also have "\<dots> = find (slot_due ctx1 h) [Suc k..<n]" by (rule find_cong_set) (use other in auto)
  finally have find: "find (slot_due ctx h) [k..<n] = find (slot_due ctx1 h) [Suc k..<n]" .
  have all: "map (\<lambda>i. if k \<le> i then slot_seen ctx h i else fi_rules ctx ! i) [0..<n] =
      map (\<lambda>i. if Suc k \<le> i then slot_seen ctx1 h i else fi_rules ctx1 ! i) [0..<n]"
  proof (rule map_cong [OF refl])
    fix i
    show "(if k \<le> i then slot_seen ctx h i else fi_rules ctx ! i) =
        (if Suc k \<le> i then slot_seen ctx1 h i else fi_rules ctx1 ! i)"
      using other [of i] at_k by (cases "i = k") auto
  qed
  have upto: "map (\<lambda>i. if k \<le> i \<and> i \<le> j then slot_seen ctx h i else fi_rules ctx ! i) [0..<n] =
      map (\<lambda>i. if Suc k \<le> i \<and> i \<le> j then slot_seen ctx1 h i else fi_rules ctx1 ! i) [0..<n]" if "k < j" for j
  proof (rule map_cong [OF refl])
    fix i
    show "(if k \<le> i \<and> i \<le> j then slot_seen ctx h i else fi_rules ctx ! i) =
        (if Suc k \<le> i \<and> i \<le> j then slot_seen ctx1 h i else fi_rules ctx1 ! i)"
      using other [of i] at_k that by (cases "i = k") auto
  qed
  show ?thesis
  proof (cases "find (slot_due ctx1 h) [Suc k..<n]")
    case None
    then show ?thesis using find all by (simp add: first_match_def ctx1_def)
  next
    case (Some j)
    then have j: "k < j" using find_upt_ge by force
    have "ctx1\<lparr>fi_rules := x\<rparr> = ctx\<lparr>fi_rules := x\<rparr>" "fi_rule_fired ctx1 = fi_rule_fired ctx" for x
      by (simp_all add: ctx1_def)
    moreover have "fi_rules ctx1 ! j = fi_rules ctx ! j" using other(3) [of j] j by simp
    ultimately show ?thesis by (simp only: first_match_def find Some option.case upto [OF j] Let_def)
  qed
qed

lemma fault_scan_first_match:
  assumes "k \<le> n" and "length (fi_rules ctx) = n" and "length (fi_rule_fired ctx) = n"
  shows "fault_scan [k..<n] ctx h = first_match k n ctx h"
  using assms
proof (induction "n - k" arbitrary: k ctx)
  case 0
  then have "map (\<lambda>i. if n \<le> i then slot_seen ctx h i else fi_rules ctx ! i) [0..<n] = fi_rules ctx"
    by (auto intro!: nth_equalityI)
  then show ?case using 0 by (simp add: first_match_def)
next
  case (Suc d)
  let ?rule = "fi_rules ctx ! k"
  have k: "k < n" "[k..<n] = k # [Suc k..<n]" using Suc.hyps(2) by (simp_all add: upt_conv_Cons)
  have rest: "fault_scan [Suc k..<n] (ctx\<lparr>fi_rules := (fi_rules ctx)[k := slot_seen ctx h k]\<rparr>) h = first_match k n ctx h"
    if "\<not> slot_due ctx h k"
    using Suc.hyps(1) [of "Suc k"] Suc.hyps(2) Suc.prems first_match_Suc [OF k(1) Suc.prems(2) that] k(1) by simp
  show ?case
  proof (cases "slot_live ctx k")
    case False
    then have "slot_seen ctx h k = ?rule" "\<not> slot_due ctx h k" by (simp_all add: slot_seen_def slot_due_def)
    then show ?thesis using rest False k(2) by (auto simp: slot_live_def Let_def)
  next
    case live: True
    obtain b rule1 where t: "rule_trigger (fi_total_message_count ctx) h ?rule = (b, rule1)"
      by (cases "rule_trigger (fi_total_message_count ctx) h ?rule")
    have seen: "slot_seen ctx h k = rule1" using live t by (simp add: slot_seen_def)
    show ?thesis
    proof (cases b)
      case False
      then have "\<not> slot_due ctx h k" using t by (simp add: slot_due_def)
      then show ?thesis using rest live t False seen k(2) by (auto simp: slot_live_def)
    next
      case True
      then have "find (slot_due ctx h) [k..<n] = Some k" using live t k(2) by (simp add: slot_due_def)
      moreover have "map (\<lambda>i. if k \<le> i \<and> i \<le> k then slot_seen ctx h i else fi_rules ctx ! i) [0..<n] =
          (fi_rules ctx)[k := rule1]"
        using Suc.prems(2) seen by (auto intro!: nth_equalityI simp: nth_list_update)
      ultimately show ?thesis
        using live t True rule_trigger_keeps [OF t] k(2)
        by (auto simp: first_match_def slot_live_def list_update_id)
    qed
  qed
qed

definition fault_ok :: "fault_inject_ctx \<Rightarrow> bool" where
  "fault_ok ctx \<longleftrightarrow> length (fi_rules ctx) = FAULT_MAX_RULES \<and> length (fi_rule_fired ctx) = FAULT_MAX_RULES"

lemma init_fault_ok [simp]: "fault_ok (fault_inject_init b)"
  by (simp add: fault_ok_def fault_inject_init_def)

lemma add_rule_ok: "fault_ok ctx \<Longrightarrow> fault_ok (snd (fault_inject_add_rule ctx r))"
  by (auto simp: fault_ok_def fault_inject_add_rule_def split: option.split)

lemma scan_keeps: "fault_scan slots ctx h = (fault, ctx1) \<Longrightarrow> fault_ok ctx \<Longrightarrow> fault_ok ctx1 \<and> fi_server ctx1 = fi_server ctx"
  by (induction slots ctx h rule: fault_scan.induct)
    (auto simp: fault_ok_def Let_def split: prod.splits if_splits)

lemma check_keeps:
  assumes "fault_inject_check ctx h w = (fault, ctx1, w1)" and "fault_ok ctx"
  shows "fault_ok ctx1" and "fi_server ctx1 = fi_server ctx" and "w1 = w \<or> w1 = pr_info ''[FAULT] Rule triggered'' w"
  using assms scan_keeps [of "[0..<FAULT_MAX_RULES]" "ctx\<lparr>fi_total_message_count := fi_total_message_count ctx + 1\<rparr>" h]
  by (auto simp: fault_inject_check_def fault_ok_def split: prod.splits if_splits)

text \<open>A sequence of messages.\<close>

fun fault_checks :: "protocol_header list \<Rightarrow> fault_inject_ctx \<Rightarrow> world \<Rightarrow> fault_type list \<times> fault_inject_ctx \<times> world" where
  "fault_checks [] ctx w = ([], ctx, w)"
| "fault_checks (h # hs) ctx w =
     (let (fault, ctx1, w1) = fault_inject_check ctx h w; (faults, ctx2, w2) = fault_checks hs ctx1 w1
      in (fault # faults, ctx2, w2))"

section \<open>Rules that fire once\<close>

text \<open>A rule that has been spent, and slots without one, are passed over.\<close>

lemma scan_passes:
  "(\<And>i. i \<in> set slots \<Longrightarrow> \<not> slot_live ctx i) \<Longrightarrow> fault_scan slots ctx h = (FAULT_NONE, ctx)"
  by (induction slots) (auto simp: slot_live_def Let_def)

definition once :: "fault_rule \<Rightarrow> u32 \<Rightarrow> bool \<Rightarrow> bool \<Rightarrow> fault_inject_ctx" where
  "once r n fired server = \<lparr>fi_rules = r # replicate 7 zero_rule, fi_total_message_count = n,
     fi_rule_fired = fired # replicate 7 False, fi_server = server\<rparr>"

definition disconnect_rule :: "u32 \<Rightarrow> fault_rule" where
  "disconnect_rule n = \<lparr>fr_fault = FAULT_DISCONNECT, fr_trigger = TRIGGER_AFTER_N_MESSAGES,
     fr_trigger_message_type = 0, fr_trigger_count = n, fr_one_shot = True, fr_current_count = 0\<rparr>"

lemma slots8: "[0..<FAULT_MAX_RULES] = [0, 1, 2, 3, 4, 5, 6, 7]"
  by (simp add: upt_conv_Cons)

lemma add_disconnect: "fault_inject_disconnect_after (fault_inject_init server) n = (0, once (disconnect_rule n) 0 False server)"
  by (simp add: fault_inject_disconnect_after_def fault_inject_add_rule_def fault_inject_init_def zero_rule_def
      once_def slots8 numeral_eq_Suc disconnect_rule_def)

lemma once_slots: "0 < i \<Longrightarrow> i < 8 \<Longrightarrow> \<not> slot_live (once r n fired server) i"
  by (cases i) (simp_all add: slot_live_def once_def zero_rule_def nth_replicate del: replicate_Suc)

lemma scan_once:
  "fault_scan [0..<FAULT_MAX_RULES] (once (disconnect_rule k) m b server) h =
     (if \<not> b \<and> k \<le> m then (FAULT_DISCONNECT, once (disconnect_rule k) m True server)
      else (FAULT_NONE, once (disconnect_rule k) m b server))"
proof -
  have split: "[0..<FAULT_MAX_RULES] = 0 # [1..<FAULT_MAX_RULES]" by (simp add: upt_conv_Cons)
  have pass: "fault_scan [1..<FAULT_MAX_RULES] (once r m b server) h = (FAULT_NONE, once r m b server)" for r
    by (rule scan_passes, rule once_slots) auto
  have parts: "fi_rules (once r m b server) ! 0 = r" "fi_rule_fired (once r m b server) ! 0 = b"
    "fi_total_message_count (once r m b server) = m" for r
    by (simp_all add: once_def)
  have same: "(once r m b server)\<lparr>fi_rules := (fi_rules (once r m b server))[0 := r]\<rparr> = once r m b server"
    "(once r m b server)\<lparr>fi_rule_fired := (fi_rule_fired (once r m b server))[0 := True]\<rparr> = once r m True server" for r
    by (simp_all add: once_def)
  have trigger: "rule_trigger m h (disconnect_rule k) = (k \<le> m, disconnect_rule k)"
    "fr_fault (disconnect_rule k) = FAULT_DISCONNECT" "fr_one_shot (disconnect_rule k)"
    by (simp_all add: rule_trigger_def disconnect_rule_def)
  show ?thesis
    by (simp only: split fault_scan.simps Let_def parts trigger pass same prod.case fault_type.distinct simp_thms
        if_True if_False) simp
qed

lemma check_once:
  obtains w1 where "fault_inject_check (once (disconnect_rule k) n fired server) h w =
    (if \<not> fired \<and> k \<le> n + 1 then FAULT_DISCONNECT else FAULT_NONE,
     once (disconnect_rule k) (n + 1) (fired \<or> k \<le> n + 1) server, w1)"
proof -
  have step: "(once r n b server)\<lparr>fi_total_message_count := m\<rparr> = once r m b server"
    "fi_total_message_count (once r n b server) = n" for r b m
    by (simp_all add: once_def)
  show thesis
    using that by (cases fired; cases "k \<le> n + 1") (simp_all add: fault_inject_check_def step scan_once)
qed

lemma checks_once:
  assumes "unat n + length hs < 2 ^ 32" and "fired = (unat k \<le> unat n)" and "0 < k"
  shows "fst (fault_checks hs (once (disconnect_rule k) n fired server) w) =
    map (\<lambda>i. if Suc i + unat n = unat k then FAULT_DISCONNECT else FAULT_NONE) [0..<length hs]"
  using assms
proof (induction hs arbitrary: n fired w)
  case Nil
  then show ?case by simp
next
  case (Cons h hs)
  let ?ctx = "once (disconnect_rule k) n fired server" and ?fired = "fired \<or> k \<le> n + 1"
  let ?due = "\<lambda>m i. if Suc i + m = unat k then FAULT_DISCONNECT else FAULT_NONE"
  have small: "Suc (unat n) < 2 ^ 32" using Cons.prems(1) by simp
  have n1: "unat (n + 1) = Suc (unat n)" using small by (simp add: unat_word_ariths(1))
  have le: "k \<le> n + 1 \<longleftrightarrow> unat k \<le> Suc (unat n)" by (simp only: word_le_nat_alt n1)
  obtain w1 where c: "fault_inject_check ?ctx h w = (if \<not> fired \<and> k \<le> n + 1 then FAULT_DISCONNECT else FAULT_NONE,
      once (disconnect_rule k) (n + 1) ?fired server, w1)"
    by (rule check_once)
  have "unat (n + 1) + length hs < 2 ^ 32" using Cons.prems(1) by (simp only: n1) simp
  moreover have "?fired = (unat k \<le> unat (n + 1))" using Cons.prems(2) by (simp only: n1 le) linarith
  ultimately have ih: "fst (fault_checks hs (once (disconnect_rule k) (n + 1) ?fired server) w1) =
      map (?due (Suc (unat n))) [0..<length hs]"
    using Cons.IH [of "n + 1" ?fired w1] Cons.prems(3) by (simp only: n1)
  have "map (?due (unat n)) [0..<length (h # hs)] = ?due (unat n) 0 # map (?due (Suc (unat n))) [0..<length hs]"
    by (simp add: map_upt_Suc del: upt_Suc)
  moreover have "(\<not> fired \<and> k \<le> n + 1) = (Suc (unat n) = unat k)" using Cons.prems(2) by (simp only: le) linarith
  ultimately show ?case by (simp add: c ih split_def del: upt_Suc)
qed

section \<open>What a fault does to the world\<close>

lemma sleeps_sel [simp]:
  "w_env ((platform_usleep n ^^ m) w) = w_env w" "w_heap ((platform_usleep n ^^ m) w) = w_heap w"
  "w_next ((platform_usleep n ^^ m) w) = w_next w" "w_sems ((platform_usleep n ^^ m) w) = w_sems w"
  "w_fds ((platform_usleep n ^^ m) w) = w_fds w" "w_trace ((platform_usleep n ^^ m) w) = w_trace w"
  "w_inq ((platform_usleep n ^^ m) w) = w_inq w" "w_calls ((platform_usleep n ^^ m) w) = w_calls w + m"
  by (induction m) (simp_all add: platform_usleep_def)

lemma unresponsive_sleeps:
  assumes "j \<le> 100"
  shows "\<exists>m. unresponsive_loop (50 * int j) server k w = (platform_usleep 50000 ^^ m) w \<and> m + j \<le> 100 \<and>
    (\<forall>i < m. running (server (k + i)) \<noteq> 0) \<and> (m + j = 100 \<or> running (server (k + m)) = 0)"
  using assms
proof (induction "100 - j" arbitrary: j k w)
  case 0
  then show ?case by (subst unresponsive_loop.simps) (auto intro!: exI [of _ 0])
next
  case (Suc d)
  show ?case
  proof (cases "running (server k) = 0")
    case True
    then show ?thesis using Suc.prems by (subst unresponsive_loop.simps) (auto intro!: exI [of _ 0])
  next
    case False
    have "d = 100 - Suc j" "Suc j \<le> 100" using Suc.hyps(2) by simp_all
    from Suc.hyps(1) [OF this, of "Suc k" "platform_usleep 50000 w"] obtain m where m:
      "unresponsive_loop (50 * int (Suc j)) server (Suc k) (platform_usleep 50000 w) =
        (platform_usleep 50000 ^^ m) (platform_usleep 50000 w)"
      "m + Suc j \<le> 100" "\<forall>i < m. running (server (Suc k + i)) \<noteq> 0"
      "m + Suc j = 100 \<or> running (server (Suc k + m)) = 0" by blast
    have "unresponsive_loop (50 * int j) server k w = (platform_usleep 50000 ^^ Suc m) w"
      using m(1) False Suc.hyps(2)
      by (subst unresponsive_loop.simps) (simp add: funpow_swap1 algebra_simps)
    moreover have "\<forall>i < Suc m. running (server (k + i)) \<noteq> 0"
      using m(3) False by (auto simp: less_Suc_eq_0_disj)
    ultimately show ?thesis using m(2,4) by (intro exI [of _ "Suc m"]) simp
  qed
qed

lemma execute_frame:
  assumes "fault_inject_execute server ctx fault w = (r, w')"
  shows "w_env w' = w_env w" "w_heap w' = w_heap w" "w_next w' = w_next w" "w_sems w' = w_sems w"
    "w_fds w' = w_fds w" "closes w' = closes w"
proof -
  obtain m where m: "unresponsive_loop 0 server 0 (pr_info ''[FAULT] Executing UNRESPONSIVE'' w) =
      (platform_usleep 50000 ^^ m) (pr_info ''[FAULT] Executing UNRESPONSIVE'' w)"
    using unresponsive_sleeps [of 0 server 0] by auto
  then show "w_env w' = w_env w" "w_heap w' = w_heap w" "w_next w' = w_next w" "w_sems w' = w_sems w"
    "w_fds w' = w_fds w" "closes w' = closes w"
    using assms by (auto simp: fault_inject_execute_def shutdown_client_def m split: fault_type.splits if_splits)
qed

section \<open>A handler that interferes keeps the laws of the server\<close>

definition faulty_owns :: "faulty \<Rightarrow> nat set" where
  "faulty_owns u = mock_owns (fst u)"

definition faulty_ok :: "faulty \<Rightarrow> bool" where
  "faulty_ok u \<longleftrightarrow> mock_ok (fst u) \<and> fault_ok (snd u)"

lemma faulty_inv:
  "user_inv faulty_owns faulty_ok R u w \<longleftrightarrow> user_inv mock_owns mock_ok R (fst u) w \<and> fault_ok (snd u)"
  by (auto simp: user_inv_def faulty_owns_def faulty_ok_def)

lemma faulty_handled:
  "handled faulty_owns faulty_ok R w rsp u w' \<longleftrightarrow> handled mock_owns mock_ok R w rsp (fst u) w' \<and> fault_ok (snd u)"
  by (auto simp: handled_def faulty_inv)

lemma faulty_acted:
  "acted faulty_owns faulty_ok R w rsp u w' \<longleftrightarrow> acted mock_owns mock_ok R w rsp (fst u) w' \<and> fault_ok (snd u)"
  by (auto simp: acted_def faulty_inv)

lemma acted_after:
  assumes "handled owns ok R w1 rsp u w2" and "w_env w1 = w_env w" "w_sems w1 = w_sems w" "w_fds w1 = w_fds w"
    and "closes w1 = closes w"
  shows "acted owns ok R w rsp u w2"
  using assms by (simp add: handled_def acted_def same_io_def)

lemma injecting_acted:
  assumes "user_inv faulty_owns faulty_ok R u w"
  shows "safe (fault_injecting_handle_command server h payload u w)
    (\<lambda>(rsp, u', w'). acted faulty_owns faulty_ok R w rsp u' w')"
proof -
  obtain robot fc where u: "u = (robot, fc)" by (cases u)
  have r: "user_inv mock_owns mock_ok R robot w" "fault_ok fc" using assms by (simp_all add: faulty_inv u)
  obtain fault fc1 w1 where c: "fault_inject_check fc h w = (fault, fc1, w1)" by (metis prod_cases3)
  note ck = check_keeps [OF c r(2)]
  have w1: "w_env w1 = w_env w" "w_heap w1 = w_heap w" "w_next w1 = w_next w" "w_sems w1 = w_sems w"
    "w_fds w1 = w_fds w" "closes w1 = closes w"
    using ck(3) by auto
  show ?thesis
  proof (cases "fault = FAULT_NONE")
    case True
    then have "w1 = w" using c by (auto simp: fault_inject_check_def split: prod.splits if_splits)
    moreover have "safe (mock_robot_handle_command h payload robot w) (\<lambda>(rsp, r', w'). acted mock_owns mock_ok R w rsp r' w')"
      by (rule mock.command_law) (use r(1) in \<open>simp_all add: mock_callbacks_def\<close>)
    ultimately show ?thesis
      using True c ck(1) u
      by (auto simp: fault_injecting_handle_command_def faulty_acted elim!: safe_andThen)
  next
    case fault: False
    obtain n w2 where e: "fault_inject_execute (server (w_calls w)) fc1 fault w1 = (n, w2)"
      by (cases "fault_inject_execute (server (w_calls w)) fc1 fault w1")
    note frame = execute_frame [OF e, unfolded w1]
    have start: "handled mock_owns mock_ok R w2 None robot w2"
      by (rule handled_start, rule user_inv_frame [OF r(1)]) (use frame in simp_all)
    have after: "acted faulty_owns faulty_ok R w rsp (robot, fc1) w3" if "handled mock_owns mock_ok R w2 rsp robot w3" for rsp w3
      using acted_after [OF that, of w] frame ck(1) by (simp add: faulty_acted)
    show ?thesis
    proof (cases "fault = FAULT_UNRESPONSIVE")
      case True
      show ?thesis
        using True c e u
        by (simp add: fault_injecting_handle_command_def MSG_OK_RESPONSE_def)
          (rule safe_andThen [OF handled_alloc [OF start]], auto intro: after)
    next
      case False
      then show ?thesis using fault c e u after [OF start] by (simp add: fault_injecting_handle_command_def)
    qed
  qed
qed

lemma on_robot_handled:
  assumes "returns (f ip port (fst u) w) (\<lambda>(r, w'). handled mock_owns mock_ok R w None r w')" and "fault_ok (snd u)"
  shows "returns (on_robot f ip port u w) (\<lambda>(u', w'). handled faulty_owns faulty_ok R w None u' w')"
  unfolding on_robot_def by (rule safe_andThen [OF assms(1)]) (use assms(2) in \<open>auto simp: faulty_handled\<close>)

interpretation faulty: command_handler "fault_callbacks server" faulty_owns faulty_ok for server
proof unfold_locales
  fix f R u w ip port
  assume "on_connection (fault_callbacks server) = Some f" and u: "user_inv faulty_owns faulty_ok R u w"
  moreover have "returns (on_robot mock_robot_on_connection ip port u w) (\<lambda>(u', w'). handled faulty_owns faulty_ok R w None u' w')"
    by (rule on_robot_handled, rule mock.connection_law) (use u in \<open>simp_all add: mock_callbacks_def faulty_inv\<close>)
  ultimately show "returns (f ip port u w) (\<lambda>(u', w'). handled faulty_owns faulty_ok R w None u' w')"
    by (simp add: fault_callbacks_def)
next
  fix f R u w ip port
  assume "on_disconnection (fault_callbacks server) = Some f" and u: "user_inv faulty_owns faulty_ok R u w"
  moreover have "returns (on_robot mock_robot_on_disconnection ip port u w) (\<lambda>(u', w'). handled faulty_owns faulty_ok R w None u' w')"
    by (rule on_robot_handled, rule mock.disconnection_law) (use u in \<open>simp_all add: mock_callbacks_def faulty_inv\<close>)
  ultimately show "returns (f ip port u w) (\<lambda>(u', w'). handled faulty_owns faulty_ok R w None u' w')"
    by (simp add: fault_callbacks_def)
next
  fix g R u w h bs
  assume "handle_command (fault_callbacks server) = Some g" and "user_inv faulty_owns faulty_ok R u w"
  then show "safe (g h bs u w) (\<lambda>(rsp, u', w'). acted faulty_owns faulty_ok R w rsp u' w')"
    using injecting_acted [of R u w server h bs] by (simp add: fault_callbacks_def)
next
  fix e R u w
  assume e: "get_error_info (fault_callbacks server) = Some e" and u: "user_inv faulty_owns faulty_ok R u w"
  have "safe (mock_robot_get_error_info_callback (fst u) w) (\<lambda>(rsp, _, r, w'). handled mock_owns mock_ok R w rsp r w')"
    by (rule mock.error_info_law) (use u in \<open>simp_all add: mock_callbacks_def faulty_inv\<close>)
  then show "safe (e u w) (\<lambda>(rsp, _, u', w'). handled faulty_owns faulty_ok R w rsp u' w')"
    using e u by (auto simp: fault_callbacks_def error_info_on_robot_def faulty_handled faulty_inv elim!: safe_andThen)
qed

section \<open>The server of the tests\<close>

definition with_rules :: "fault_rule list \<Rightarrow> faulty robot_server_ctx \<Rightarrow> faulty robot_server_ctx" where
  "with_rules rules ctx = ctx\<lparr>user_data :=
     (fst (user_data ctx), fold (\<lambda>rule fc. snd (fault_inject_add_rule fc rule)) rules (snd (user_data ctx)))\<rparr>"

lemma with_rules_sel [simp]:
  "client (with_rules rules ctx) = client ctx" "config (with_rules rules ctx) = config ctx"
  "client_mutex (with_rules rules ctx) = client_mutex ctx" "tcp_socket (with_rules rules ctx) = tcp_socket ctx"
  "fst (user_data (with_rules rules ctx)) = fst (user_data ctx)"
  by (simp_all add: with_rules_def)

lemma with_rules_ok: "fault_ok (snd (user_data ctx)) \<Longrightarrow> fault_ok (snd (user_data (with_rules rules ctx)))"
proof -
  have "fault_ok fc \<Longrightarrow> fault_ok (fold (\<lambda>rule fc. snd (fault_inject_add_rule fc rule)) rules fc)" for fc
    by (induction rules arbitrary: fc) (simp_all add: add_rule_ok)
  then show "fault_ok (snd (user_data ctx)) \<Longrightarrow> ?thesis" by (simp add: with_rules_def)
qed

lemma mock_init_ok:
  obtains robot where "mock_robot_init = Inr robot" and "mock_ok robot" and "mock_owns robot = {}"
proof -
  obtain g where "mock_robot_init = Inr (initial_robot [g])" "wf_group g" "mg_stored g = None"
    by (simp add: mock_robot_init_def mock_robot_init_multi_def init_group_def zero_group_def wf_group_def Let_def)
  moreover from this have "mock_ok (initial_robot [g])" "mock_owns (initial_robot [g]) = {}"
    by (auto simp: initial_robot_def mock_ok_def mock_owns_def stored_blocks_def stored_block_def wf_group_def zero_group_def)
  ultimately show thesis using that by blast
qed

lemma setUp_granted:
  assumes "granting 8 w" and "heap_ok w"
  obtains ctx w1 where "fault_setUp server w = Inr (Some ctx, w1)"
    and "\<forall>rules. server_inv faulty_owns faulty_ok (with_rules rules ctx) (set (w_heap w1)) (with_rules rules ctx) w1"
    and "callbacks (config ctx) = fault_callbacks server" and "client ctx = zero_client"
    and "set (w_heap w1) = {ctx_addr ctx, the (client_mutex ctx)} \<union> set (w_heap w)"
    and "set (w_fds w1) = {tcp_socket ctx, udp_socket ctx} \<union> set (w_fds w)"
proof -
  obtain robot where robot: "mock_robot_init = Inr robot" "mock_ok robot" "mock_owns robot = {}"
    by (rule mock_init_ok)
  let ?cfg = "\<lparr>tcp_port = 27654, udp_port = 27655, connection_timeout_ms = 2000, callbacks = fault_callbacks server\<rparr>"
  let ?a = "w_next w" and ?fc = "fault_inject_init False"
  let ?new = "fresh_ctx ?cfg (robot, ?fc) ?a (Suc ?a)"
  let ?ctx = "?new\<lparr>user_data := (robot, ?fc\<lparr>fi_server := True\<rparr>)\<rparr>"
  obtain w1 where c: "robot_protocol_create ?cfg (robot, ?fc) w = Inr (Some ?new, w1)"
    "w_heap w1 = Suc ?a # ?a # w_heap w" "w_fds w1 = w_fds w" "w_sems w1 = (w_sems w)(Suc ?a := Some 1)"
    "w_env w1 = w_env w" "w_next w1 = Suc (Suc ?a)" "granting (5 + 0) w1"
    by (rule create_granted [of 5 w]) (use assms in simp_all)
  from start_granted [OF c(7), of ?ctx] obtain w2 t1 t2 where st: "robot_protocol_start (Some ?ctx) w1 =
      (0, Some (started_ctx ?ctx (first_free (w_fds w)) (first_free (first_free (w_fds w) # w_fds w)) t1 t2), w2)"
    "w_heap w2 = w_heap w1" "w_fds w2 = first_free (first_free (w_fds w) # w_fds w) # first_free (w_fds w) # w_fds w"
    "w_sems w2 = w_sems w1" "w_env w2 = w_env w" "w_next w2 = w_next w1"
    unfolding c(3,5) by blast
  let ?run = "started_ctx ?ctx (first_free (w_fds w)) (first_free (first_free (w_fds w) # w_fds w)) t1 t2"
    and ?w = "platform_usleep 100000 w2"
  have run: "user_data ?run = (robot, ?fc\<lparr>fi_server := True\<rparr>)" "config ?run = ?cfg" "client ?run = zero_client"
    "client_mutex ?run = Some (Suc ?a)" "tcp_socket ?run = first_free (w_fds w)"
    "udp_socket ?run = first_free (first_free (w_fds w) # w_fds w)" "ctx_addr ?run = ?a"
    by (simp_all add: started_ctx_def fresh_ctx_def)
  have "user_data ?new = (robot, ?fc)" by (simp add: fresh_ctx_def)
  then have up: "fault_setUp server w = Inr (Some ?run, ?w)"
    by (simp add: fault_setUp_def robot(1) c(1) st(1) Let_def)
  have same: "w_heap ?w = w_heap w2" "w_fds ?w = w_fds w2" "w_sems ?w = w_sems w2" "w_env ?w = w_env w2"
    "w_next ?w = w_next w2"
    by (simp_all add: platform_usleep_def)
  have "heap_ok ?w" using assms(2) st(2,6) c(2,6) same by (auto simp: heap_ok_def)
  moreover have "fault_ok (?fc\<lparr>fi_server := True\<rparr>)" by (simp add: fault_ok_def fault_inject_init_def)
  ultimately have user: "user_inv faulty_owns faulty_ok (set (w_heap ?w)) (user_data (with_rules rules ?run)) ?w" for rules
    using robot with_rules_ok [of ?run rules] by (auto simp: user_inv_def faulty_owns_def faulty_ok_def run)
  have inv: "server_inv faulty_owns faulty_ok (with_rules rules ?run) (set (w_heap ?w)) (with_rules rules ?run) ?w" for rules
    using user [of rules] assms(1) st(3-5) c(4) same
    by (simp add: server_inv_def lock_held_def granting_def client_inv_def client_rec_inv_def run)
  show thesis
  proof (rule that [OF up])
    show "\<forall>rules. server_inv faulty_owns faulty_ok (with_rules rules ?run) (set (w_heap ?w)) (with_rules rules ?run) ?w"
      using inv by blast
  qed (auto simp: run same st(2,3) c(2))
qed

text \<open>C4. Faults do not harm the server. Set up as the tests set it up, on an operating system that grants
  the eight requests of the set-up, and with any rules, the server stays in order in every
  interleaving of its threads - although the handler sleeps, answers nothing, or shuts down the
  very connection it serves, reading the record of the client without the mutex and finding
  whatever is there, and whatever the operating system refuses after the set-up. The step of the
  TCP thread that comes next returns, or its fault is one that \<open>may_fault\<close> lists, among them none of
  a block freed twice or used after; the steps of the timeout thread return. The heap holds what it
  held plus what the robot and the TCP thread have in hand; the open descriptors are those of the
  set-up, and the sockets of the session and of the visitor; and the sockets are closed as the
  machine of sessions says, each once.\<close>

theorem fault_server_safe:
  assumes "granting 8 w" and "heap_ok w"
  shows "\<exists>ctx w1. fault_setUp server w = Inr (Some ctx, w1) \<and>
    set (w_heap w1) = {ctx_addr ctx, the (client_mutex ctx)} \<union> set (w_heap w) \<and>
    set (w_fds w1) = {tcp_socket ctx, udp_socket ctx} \<union> set (w_fds w) \<and>
    (\<forall>rules pc p c v. (race_step policy)\<^sup>*\<^sup>* (Top, False, with_rules rules ctx, w1) (pc, p, c, v) \<longrightarrow>
      (case tcp_step policy pc c v of Inl e \<Rightarrow> may_fault pc c v e | Inr s \<Rightarrow> True) \<and>
      (\<exists>x. timeout_check c v = Inr x) \<and> (\<exists>x. remove_client c v = Inr x) \<and> faulty_ok (user_data c) \<and>
      faulty_owns (user_data c) \<subseteq> set (w_heap v) \<and>
      set (w_heap v) - faulty_owns (user_data c) = set (w_heap w1) \<union> pc_blocks pc \<and>
      set (w_fds v) = set (w_fds w1) \<union> session_sockets (session_of c, visitor_of pc) \<and>
      set (w_fds w1) \<inter> session_sockets (session_of c, visitor_of pc) = {} \<and>
      (\<exists>es os. spec_run session_next session_closes (None, None) es = Some ((session_of c, visitor_of pc), os) \<and>
         closes v = closes w1 @ os))"
proof -
  obtain ctx w1 where up: "fault_setUp server w = Inr (Some ctx, w1)"
    "\<forall>rules. server_inv faulty_owns faulty_ok (with_rules rules ctx) (set (w_heap w1)) (with_rules rules ctx) w1"
    "callbacks (config ctx) = fault_callbacks server" "client ctx = zero_client"
    "set (w_heap w1) = {ctx_addr ctx, the (client_mutex ctx)} \<union> set (w_heap w)"
    "set (w_fds w1) = {tcp_socket ctx, udp_socket ctx} \<union> set (w_fds w)"
    by (rule setUp_granted [OF assms, of server])
  have ch: "command_handler (callbacks (config (with_rules rules ctx))) faulty_owns faulty_ok" for rules
    using faulty.command_handler_axioms up(3) by simp
  have none: "session_of (with_rules rules ctx) = None" for rules using up(4) by (simp add: session_of_def)
  have all: "(case tcp_step policy pc c v of Inl e \<Rightarrow> may_fault pc c v e | Inr s \<Rightarrow> True) \<and>
      (\<exists>x. timeout_check c v = Inr x) \<and> (\<exists>x. remove_client c v = Inr x) \<and> faulty_ok (user_data c) \<and>
      faulty_owns (user_data c) \<subseteq> set (w_heap v) \<and>
      set (w_heap v) - faulty_owns (user_data c) = set (w_heap w1) \<union> pc_blocks pc \<and>
      set (w_fds v) = set (w_fds w1) \<union> session_sockets (session_of c, visitor_of pc) \<and>
      set (w_fds w1) \<inter> session_sockets (session_of c, visitor_of pc) = {} \<and>
      (\<exists>es os. spec_run session_next session_closes (None, None) es = Some ((session_of c, visitor_of pc), os) \<and>
         closes v = closes w1 @ os)"
    if run: "(race_step policy)\<^sup>*\<^sup>* (Top, False, with_rules rules ctx, w1) (pc, p, c, v)" for rules pc p c v
  proof -
    note start = race_ok_start [OF ch up(2) [rule_format]]
    have now: "race_ok faulty_owns faulty_ok (with_rules rules ctx) (set (w_heap w1)) (set (w_fds w1)) (pc, p, c, v)"
      using races.inv_run [OF run start] by (simp add: none)
    then obtain r where "race_inv faulty_owns faulty_ok ((with_rules rules ctx)\<lparr>running := r\<rparr>) (set (w_heap w1)) pc c v"
      by (auto simp: race_ok_def)
    then have "faulty_ok (user_data c)" "faulty_owns (user_data c) \<subseteq> set (w_heap v)"
      "set (w_heap v) - faulty_owns (user_data c) = set (w_heap w1) \<union> pc_blocks pc"
      by (simp_all add: race_inv_def shared_inv_def server_inv_def user_inv_def)
    moreover have "case tcp_step policy pc c v of Inl e \<Rightarrow> may_fault pc c v e | Inr s \<Rightarrow> True"
      using race_ok_holds(1) [OF now, of policy] by (simp add: holds_def split: sum.splits)
    moreover have "\<exists>x. timeout_check c v = Inr x" "\<exists>x. remove_client c v = Inr x"
      using race_ok_holds(2,3) [OF now] by (auto elim: returnsE)
    moreover have "\<exists>es os. spec_run session_next session_closes (None, None) es = Some ((session_of c, visitor_of pc), os) \<and>
         closes v = closes w1 @ os"
      using races.refines [OF run start] by (simp add: none)
    ultimately show ?thesis using race_ok_holds(5,6) [OF now] by (intro conjI)
  qed
  show ?thesis
    by (intro exI [of _ ctx] exI [of _ w1] conjI up(1,5,6)) (intro allI impI, rule all, assumption)
qed

text \<open>What the injector finds in the structure of the server, for examples: a client on descriptor 5.\<close>

definition ex_seen :: "faulty robot_server_ctx" where
  "ex_seen = \<lparr>tcp_socket = 3, udp_socket = 4, running = 1, tcp_thread = 1, timeout_thread = 2, client_mutex = Some 1,
     config = \<lparr>tcp_port = 27654, udp_port = 27655, connection_timeout_ms = 2000, callbacks =
       \<lparr>on_connection = None, on_disconnection = None, handle_command = None, get_error_info = None\<rparr>\<rparr>,
     client = ex_client, user_data = (initial_robot [zero_group], fault_inject_init True), ctx_addr = 0\<rparr>"

theorem fault_server_safe_witness:
  "\<exists>ctx w1. fault_setUp (\<lambda>_ _. ex_seen) ok_world = Inr (Some ctx, w1) \<and>
    (\<forall>pc p c v. (race_step 1)\<^sup>*\<^sup>* (Top, False, with_rules [disconnect_rule 3] ctx, w1) (pc, p, c, v) \<longrightarrow>
      (case tcp_step 1 pc c v of Inl e \<Rightarrow> may_fault pc c v e | Inr s \<Rightarrow> True) \<and>
      set (w_fds v) = set (w_fds w1) \<union> session_sockets (session_of c, visitor_of pc))"
proof -
  have "granting 8 ok_world" "heap_ok ok_world" by (simp_all add: granting_def heap_ok_def)
  from fault_server_safe [OF this, of "\<lambda>_ _. ex_seen" 1] show ?thesis
    by (elim exE conjE, intro exI conjI) (assumption, intro allI impI conjI, (elim allE, drule mp, assumption, elim conjE, assumption)+)
qed

section \<open>A connection shut down under the server\<close>

lemma removes_client:
  assumes inv: "server_inv faulty_owns faulty_ok ctx0 R ctx w" and con: "connected (client ctx)"
    and cbs: "callbacks (config ctx) = fault_callbacks server" "callbacks (config ctx0) = fault_callbacks server"
  obtains ctx1 w1 where "remove_client ctx w = Inr (ctx1, w1)" and "client ctx1 = zero_client"
    and "w_trace w1 = w_trace w @ [EvClose (client_socket (client ctx))]"
proof -
  have l: "lock_held 1 ctx w" and robot: "mock_ok (fst (user_data ctx))"
    using inv by (simp_all add: server_inv_def user_inv_def faulty_ok_def)
  obtain w1 where t: "lock_take (client_mutex ctx) w = Inr (0, w1)" "lock_held 0 ctx w1" by (rule lock_take_inv [OF l])
  let ?w1 = "pr_info ''Client disconnected'' w1" and ?u = "user_data ctx"
    and ?r = "(fst (user_data ctx))\<lparr>mr_disconnection_count := mr_disconnection_count (fst (user_data ctx)) + 1\<rparr>"
  have r: "mock_ok ?r" using robot by (simp add: mock_ok_def)
  obtain b r1 w2 where s: "mock_robot_stop_motion ?r ?w1 = (b, r1, w2)" by (cases "mock_robot_stop_motion ?r ?w1")
  obtain lv x where w2: "w2 = pr lv x ?w1" using stop_motion_keeps(3) [OF r s] by blast
  let ?w2 = "pr_info ''[SERVER] Client disconnected'' w2"
  have call: "call_connection (on_disconnection (callbacks (config ctx))) ip port ?u ?w1 = Inr ((r1, snd ?u), ?w2)" for ip port
    by (simp add: cbs(1) fault_callbacks_def call_connection_def on_robot_def mock_robot_on_disconnection_def s)
  obtain n w3 where c: "platform_close (client_socket (client ctx)) ?w2 = (n, w3)" "w_sems w3 = w_sems ?w2" "w_env w3 = w_env ?w2"
    by (cases "platform_close (client_socket (client ctx)) ?w2") (use close_sel [of "client_socket (client ctx)" ?w2] in auto)
  have "lock_held 0 ctx w3" using t(2) by (rule lock_held_frame) (simp_all add: c w2)
  then obtain w4 where "lock_give (client_mutex ctx) w3 = Inr (0, w4)" by (rule lock_give_inv)
  then have "remove_client ctx w = Inr (ctx\<lparr>client := zero_client, user_data := (r1, snd ?u)\<rparr>, w4)"
    using con by (simp add: remove_client_def t(1) call c(1))
  then show thesis
    using safe_InrD [OF faulty.remove_client_safe [OF inv cbs(2), of "{}"]] con by (intro that) auto
qed

lemma respond_err_int_plenty:
  assumes "heap_ok w" and "plenty w"
  obtains r w' type body where "respond fd (MSG_ERR_RESPONSE_INT v) w = Inr (r, w')" and "response_done fd w type body r w'"
proof -
  have "error_int_body v \<noteq> []" "length (error_int_body v) \<le> MAX_PAYLOAD_SIZE" by (simp_all add: error_int_body_def)
  then show thesis
    using respond_plenty [OF assms, of "MSG_ERR_RESPONSE (error_int_body v)" fd] that
    unfolding err_int_is_err by blast
qed

text \<open>C31. The fault as the tests want it. A message triggers a disconnect or a close, and nobody else is at
  work: the handler shuts the client's connection down and closes nothing; the server - whose handler
  gave it no response - still makes an error response and tries to send it, on that connection only;
  then the stream of the client ends, and unless \<open>errno\<close> holds \<open>EAGAIN\<close> the next time the server looks
  at the socket it removes the client and closes the socket, the one time it is closed.\<close>

theorem fault_disconnect_ends_session:
  fixes ctx :: "faulty robot_server_ctx"
  defines "s \<equiv> client_socket (client ctx)"
  assumes inv: "server_inv faulty_owns faulty_ok ctx0 (insert p R) ctx w" and p: "p \<notin> R"
    and cbs: "callbacks (config ctx0) = fault_callbacks server" and con: "connected (client ctx)"
    and view: "\<forall>k i. client (server k i) = client ctx" and set: "fi_server (snd (user_data ctx))"
    and check: "fst (fault_inject_check (snd (user_data ctx)) h w) \<in> {FAULT_DISCONNECT, FAULT_CLOSE_CONNECTION}"
    and msg: "message_type h \<noteq> msg_num MSG_REGISTER_UDP_PORT" "message_type h \<noteq> msg_num MSG_GET_ERROR_INFO"
    and mem: "plenty w" and empty: "w_inq w s = []"
  shows "\<exists>ctx1 w1 evs. dispatch policy ctx h p payload w = Inr (False, ctx1, w1) \<and>
    client ctx1 = client ctx \<and> w_trace w1 = w_trace w @ EvShutdown s # evs \<and>
    (\<forall>ev \<in> set evs. \<exists>bs. ev = EvSend s bs) \<and> w_inq w1 s = [Eof] \<and>
    (w_errno w1 \<noteq> EAGAIN \<longrightarrow>
       (\<exists>ctx2 w2. serve_client policy ctx1 w1 = Inr (ctx2, w2) \<and> client ctx2 = zero_client \<and>
          w_trace w2 = w_trace w1 @ [EvClose s]))"
proof -
  obtain robot fc where u: "user_data ctx = (robot, fc)" by (cases "user_data ctx")
  obtain fault fc1 w1 where c: "fault_inject_check fc h w = (fault, fc1, w1)" by (metis prod_cases3)
  have fault: "fault = FAULT_DISCONNECT \<or> fault = FAULT_CLOSE_CONNECTION" using check c u by simp
  have ok: "fault_ok fc" and heap: "heap_ok w" using inv by (simp_all add: server_inv_def user_inv_def faulty_ok_def u)
  note ck = check_keeps [OF c ok]
  obtain x y where e: "fault_inject_execute (server (w_calls w)) fc1 fault w1 =
      (0, platform_shutdown s (pr_info x (pr_info y w)))"
    using fault ck(2,3) set u c view con
    by (auto simp: fault_inject_execute_def shutdown_client_def s_def fault_inject_check_def split: prod.splits if_splits)
  let ?w2 = "platform_shutdown s (pr_info x (pr_info y w))" and ?ctx = "ctx\<lparr>user_data := (robot, fc1)\<rparr>"
  have hc: "handle_command (callbacks (config ctx)) = Some (fault_injecting_handle_command server)"
    and cb: "callbacks (config ctx) = fault_callbacks server"
    using inv cbs by (auto simp: server_inv_def fault_callbacks_def dest: fixed_partD(2))
  have h: "fault_injecting_handle_command server h payload (user_data ctx) w = Inr (None, (robot, fc1), ?w2)"
    using fault by (auto simp: fault_injecting_handle_command_def u c e)
  have "heap_ok ?w2" "plenty ?w2" using heap mem by (simp_all add: heap_ok_def plenty_def)
  then obtain r w3 ty body where rsp: "respond s (MSG_ERR_RESPONSE_INT (-1)) ?w2 = Inr (r, w3)"
    "response_done s ?w2 ty body r w3" by (rule respond_err_int_plenty)
  then obtain evs where evs: "w_trace w3 = w_trace ?w2 @ evs" "\<forall>ev \<in> set evs. \<exists>bs. ev = EvSend s bs"
    and io: "same_io ?w2 w3" by (auto simp: response_done_def)
  have d: "dispatch policy ctx h p payload w = Inr (False, ?ctx, w3)"
    using msg rsp(1) by (simp add: dispatch_def hc h answer_def reply_def s_def)
  have q: "w_inq w3 s = [Eof]" using io empty by (simp add: same_io_def platform_shutdown_def)
  have inv3: "server_inv faulty_owns faulty_ok ctx0 (insert p R) ?ctx w3"
    using safe_InrD [OF faulty.dispatch_safe [OF inv p cbs con] d] by simp
  have "\<exists>ctx2 w2. serve_client policy ?ctx w3 = Inr (ctx2, w2) \<and> client ctx2 = zero_client \<and>
      w_trace w2 = w_trace w3 @ [EvClose s]" if errno: "w_errno w3 \<noteq> EAGAIN"
  proof -
    have fd: "s \<in> set (w_fds w3)" using inv3 con by (simp add: server_inv_def client_inv_def client_rec_inv_def s_def)
    obtain ctx2 w2 where rm: "remove_client ?ctx w3 = Inr (ctx2, w2)" "client ctx2 = zero_client"
      "w_trace w2 = w_trace w3 @ [EvClose (client_socket (client ?ctx))]"
      by (rule removes_client [OF inv3, of server]) (use con cb cbs in simp_all)
    then show ?thesis
      using read_header_eof [OF fd q] errno by (simp add: serve_client_def s_def)
  qed
  then show ?thesis using d evs q by (intro exI [of _ ?ctx] exI [of _ w3] exI [of _ evs]) simp
qed

text \<open>A server of the tests with a client on descriptor 5, and a rule that is due on the first message.\<close>

definition ex_faulty :: "faulty robot_server_ctx" where
  "ex_faulty = ex_seen\<lparr>config := (config ex_seen)\<lparr>callbacks := fault_callbacks (\<lambda>_ _. ex_seen)\<rparr>,
     user_data := (initial_robot [zero_group], once (disconnect_rule 1) 0 False True)\<rparr>"

definition ex_heartbeat :: protocol_header where
  "ex_heartbeat = \<lparr>magic_number = PROTOCOL_MAGIC_NUMBER, version = PROTOCOL_VERSION,
     message_type = msg_num MSG_HEARTBEAT, timestamp_ms = 0, payload_length = 0\<rparr>"

lemma ex_faulty_sel [simp]:
  "client ex_faulty = ex_client" "client ex_seen = ex_client" "callbacks (config ex_faulty) = fault_callbacks (\<lambda>_ _. ex_seen)"
  "user_data ex_faulty = (initial_robot [zero_group], once (disconnect_rule 1) 0 False True)"
  "client_mutex ex_faulty = Some 1" "tcp_socket ex_faulty = 3"
  by (simp_all add: ex_faulty_def ex_seen_def)

theorem fault_disconnect_ends_session_witness:
  "\<exists>ctx1 w1 evs ctx2 w2. dispatch 1 ex_faulty ex_heartbeat 2 [] (ex_net []\<lparr>w_heap := [2, 1, 0], w_next := 3\<rparr>) =
       Inr (False, ctx1, w1) \<and> w_trace w1 = EvShutdown 5 # evs \<and>
     (w_errno w1 \<noteq> EAGAIN \<longrightarrow> serve_client 1 ctx1 w1 = Inr (ctx2, w2) \<and> w_trace w2 = w_trace w1 @ [EvClose 5])"
proof -
  let ?w = "ex_net []\<lparr>w_heap := [2, 1, 0], w_next := 3\<rparr>" and ?fc = "once (disconnect_rule 1) 0 False True"
  have fc: "fault_ok ?fc" "fi_server ?fc" by (simp_all add: fault_ok_def once_def)
  have "heap_ok ?w" by (auto simp: heap_ok_def)
  then have user: "user_inv faulty_owns faulty_ok (insert 2 {0, 1}) (user_data ex_faulty) ?w"
    using fc(1) by (auto simp: user_inv_def faulty_owns_def faulty_ok_def)
  have "client_inv ex_faulty ?w" by (simp add: client_inv_def client_rec_inv_def) (simp add: ex_client_def zero_client_def)
  then have inv: "server_inv faulty_owns faulty_ok ex_faulty (insert 2 {0, 1}) ex_faulty ?w"
    using user by (simp add: server_inv_def lock_held_def fixed_part_def)
  have check: "fst (fault_inject_check ?fc ex_heartbeat ?w) = FAULT_DISCONNECT"
    by (rule check_once [of 1 0 False True ex_heartbeat ?w]) simp
  have "plenty ?w" by (simp add: plenty_def)
  from fault_disconnect_ends_session [OF inv, of "\<lambda>_ _. ex_seen" ex_heartbeat 1 "[]"] this check fc(2)
  show ?thesis by (simp add: ex_heartbeat_def) blast
qed

section \<open>A thread that does not respond\<close>

text \<open>C37. The unresponsive fault ends, and it is answered: the handler sleeps for 50 milliseconds at most a
  hundred times, and no longer once it finds the server stopping; then it returns an OK response,
  which the server sends - not, as the header of the module says, none.\<close>

theorem unresponsive_blocks_then_answers:
  assumes "fault_inject_check fc h w = (FAULT_UNRESPONSIVE, fc1, w1)" and "fi_server fc" and "fault_ok fc"
    and "heap_ok w" and "plenty w"
  shows "\<exists>m c w2. fault_injecting_handle_command server h payload (robot, fc) w = Inr (Some c, (robot, fc1), w2) \<and>
    m \<le> 100 \<and> (\<forall>i < m. running (server (w_calls w) i) \<noteq> 0) \<and>
    (m = 100 \<or> running (server (w_calls w) m) = 0) \<and>
    MSG_OK_RESPONSE ((platform_usleep 50000 ^^ m) (pr_info ''[FAULT] Executing UNRESPONSIVE'' w1)) = Inr (Some c, w2) \<and>
    message_type (crc_header c) = msg_num MSG_OK \<and> crc_payload c = None \<and> w_trace w2 = w_trace w"
proof -
  note ck = check_keeps [OF assms(1,3)]
  let ?v = "pr_info ''[FAULT] Executing UNRESPONSIVE'' w1"
  obtain m where m: "unresponsive_loop 0 (server (w_calls w)) 0 ?v = (platform_usleep 50000 ^^ m) ?v" "m \<le> 100"
    "\<forall>i < m. running (server (w_calls w) i) \<noteq> 0" "m = 100 \<or> running (server (w_calls w) m) = 0"
    using unresponsive_sleeps [of 0 "server (w_calls w)" 0 ?v] by auto
  let ?w2 = "(platform_usleep 50000 ^^ m) ?v"
  have same: "w_heap ?w2 = w_heap w" "w_next ?w2 = w_next w" "w_env ?w2 = w_env w" "w_trace ?w2 = w_trace w"
    using ck(3) by auto
  have ok: "heap_ok ?w2" "plenty ?w2" using assms(4,5) same by (simp_all add: heap_ok_def plenty_def)
  obtain c w3 where a: "MSG_OK_RESPONSE ?w2 = Inr (Some c, w3)" "message_type (crc_header c) = msg_num MSG_OK"
    "crc_payload c = None" "w_trace w3 = w_trace ?w2"
  proof (cases rule: allocate_spec [OF ok(1), of 0 "msg_num MSG_OK"])
    case (1 w')
    then show thesis using allocate_plenty [OF ok(2), of 0] by simp
  next
    case (2 c w')
    then show thesis by (intro that [of c w']) (simp_all add: MSG_OK_RESPONSE_def)
  qed
  have "fault_injecting_handle_command server h payload (robot, fc) w = Inr (Some c, (robot, fc1), w3)"
    using ck(2) assms(2) by (simp add: fault_injecting_handle_command_def assms(1) fault_inject_execute_def m(1) a(1))
  then show ?thesis using m(2-4) a same(4) by (intro exI [of _ m] exI [of _ c] exI [of _ w3]) simp
qed

definition ex_hang :: fault_inject_ctx where
  "ex_hang = snd (fault_inject_unresponsive_on (fault_inject_init True) (msg_num MSG_HEARTBEAT))"

theorem unresponsive_blocks_then_answers_witness:
  "\<exists>c fc1 w2. fault_injecting_handle_command (\<lambda>_ _. ex_seen) ex_heartbeat [] (initial_robot [zero_group], ex_hang) ok_world =
     Inr (Some c, (initial_robot [zero_group], fc1), w2) \<and> message_type (crc_header c) = msg_num MSG_OK"
proof -
  have ok: "fault_ok ex_hang" unfolding ex_hang_def fault_inject_unresponsive_on_def by (rule add_rule_ok) simp
  have rules: "fi_rules ex_hang ! 0 = \<lparr>fr_fault = FAULT_UNRESPONSIVE, fr_trigger = TRIGGER_ON_MESSAGE_TYPE,
      fr_trigger_message_type = msg_num MSG_HEARTBEAT, fr_trigger_count = 0, fr_one_shot = False, fr_current_count = 0\<rparr>"
    "fi_server ex_hang"
    by (simp_all add: ex_hang_def fault_inject_unresponsive_on_def fault_inject_add_rule_def fault_inject_init_def
        slots8 zero_rule_def numeral_eq_Suc)
  then have "fst (fault_inject_check ex_hang ex_heartbeat ok_world) = FAULT_UNRESPONSIVE"
    by (simp add: fault_inject_check_def slots8 rule_trigger_def ex_heartbeat_def Let_def split_def)
  then obtain fc1 w1 where c: "fault_inject_check ex_hang ex_heartbeat ok_world = (FAULT_UNRESPONSIVE, fc1, w1)"
    by (metis prod.collapse)
  have "heap_ok ok_world" "plenty ok_world" by (simp_all add: heap_ok_def plenty_def)
  from unresponsive_blocks_then_answers [OF c rules(2) ok this, of "\<lambda>_ _. ex_seen" "[]" "initial_robot [zero_group]"]
  show ?thesis by blast
qed

section \<open>Properties of the rules\<close>

text \<open>C30. The first rule that is due decides, and hides the message from all later ones: the fault is that
  of the first slot whose rule is active, not spent and triggered by this message; rules up to and
  including that slot have seen the message, so those that count messages of a type have counted
  it, and later rules have not, even when they count messages of its type; only the rule that fired
  is marked as spent, if it fires once.\<close>

theorem fault_check_first_match:
  assumes "fault_ok ctx" and "fault_inject_check ctx h w = (fault, ctx', w')"
  defines "now \<equiv> ctx\<lparr>fi_total_message_count := fi_total_message_count ctx + 1\<rparr>"
  shows "(case find (slot_due now h) [0..<FAULT_MAX_RULES] of
      None \<Rightarrow> fault = FAULT_NONE \<and> fi_rule_fired ctx' = fi_rule_fired ctx
    | Some j \<Rightarrow> fault = fr_fault (fi_rules ctx ! j) \<and> fault \<noteq> FAULT_NONE \<and>
        fi_rule_fired ctx' = (fi_rule_fired ctx)[j := fi_rule_fired ctx ! j \<or> fr_one_shot (fi_rules ctx ! j)]) \<and>
    (\<forall>i < FAULT_MAX_RULES. fi_rules ctx' ! i =
       (if \<exists>j < i. slot_due now h j then fi_rules ctx ! i else slot_seen now h i)) \<and>
    fi_total_message_count ctx' = fi_total_message_count ctx + 1"
proof -
  have len: "length (fi_rules now) = FAULT_MAX_RULES" "length (fi_rule_fired now) = FAULT_MAX_RULES"
    using assms(1) by (simp_all add: fault_ok_def now_def)
  have scan: "first_match 0 FAULT_MAX_RULES now h = (fault, ctx')"
    using assms(2) fault_scan_first_match [OF le0 len, of h]
    by (auto simp: fault_inject_check_def now_def split: prod.splits)
  have same: "fi_rules now = fi_rules ctx" "fi_rule_fired now = fi_rule_fired ctx"
    "fi_total_message_count now = fi_total_message_count ctx + 1" by (simp_all add: now_def)
  show ?thesis
  proof (cases "find (slot_due now h) [0..<FAULT_MAX_RULES]")
    case None
    then have "\<not> slot_due now h j" if "j < FAULT_MAX_RULES" for j using that by (auto simp: find_None_iff)
    then show ?thesis using scan None same by (auto simp: first_match_def simp del: upt_Suc)
  next
    case (Some j)
    then have j: "j < FAULT_MAX_RULES" "slot_due now h j" "\<forall>i < j. \<not> slot_due now h i"
      by (auto simp: find_Some_iff nth_append simp del: upt_Suc)
    have "(\<exists>k < i. slot_due now h k) \<longleftrightarrow> \<not> i \<le> j" for i
      using j(2,3) by (meson le_less_linear less_le_trans not_le)
    moreover have "fr_fault (fi_rules ctx ! j) \<noteq> FAULT_NONE" using j(2) by (simp add: slot_due_def slot_live_def same)
    moreover have "\<not> fi_rule_fired ctx ! j" if "fr_one_shot (fi_rules ctx ! j)"
      using j(2) that by (simp add: slot_due_def slot_live_def same)
    ultimately show ?thesis
      using scan Some same by (auto simp: first_match_def Let_def simp del: upt_Suc)
  qed
qed

text \<open>The rule in slot 1 counts heartbeats, but never sees the one that the rule in slot 0 takes.\<close>

definition ex_shadow :: fault_inject_ctx where
  "ex_shadow = ex_hang\<lparr>fi_rules := (fi_rules ex_hang)[1 := (disconnect_rule 1)
     \<lparr>fr_trigger := TRIGGER_AFTER_N_OF_TYPE, fr_trigger_message_type := msg_num MSG_HEARTBEAT\<rparr>]\<rparr>"

theorem fault_check_first_match_witness:
  "\<exists>ctx' w'. fault_inject_check ex_shadow ex_heartbeat ok_world = (FAULT_UNRESPONSIVE, ctx', w') \<and>
     fi_rules ctx' ! 1 = fi_rules ex_shadow ! 1 \<and> fi_total_message_count ctx' = 1"
proof -
  have ok: "fault_ok ex_shadow"
    using add_rule_ok [OF init_fault_ok]
    by (simp add: ex_shadow_def ex_hang_def fault_inject_unresponsive_on_def fault_ok_def)
  have rules: "fi_rules ex_shadow ! 0 = \<lparr>fr_fault = FAULT_UNRESPONSIVE, fr_trigger = TRIGGER_ON_MESSAGE_TYPE,
      fr_trigger_message_type = msg_num MSG_HEARTBEAT, fr_trigger_count = 0, fr_one_shot = False, fr_current_count = 0\<rparr>"
    "fi_total_message_count ex_shadow = 0"
    by (simp_all add: ex_shadow_def ex_hang_def fault_inject_unresponsive_on_def fault_inject_add_rule_def
        fault_inject_init_def slots8 zero_rule_def numeral_eq_Suc)
  obtain fault ctx' w' where c: "fault_inject_check ex_shadow ex_heartbeat ok_world = (fault, ctx', w')"
    by (metis prod_cases3)
  have due: "slot_due (ex_shadow\<lparr>fi_total_message_count := 1\<rparr>) ex_heartbeat 0"
    by (simp add: slot_due_def slot_live_def rules rule_trigger_def ex_heartbeat_def)
  then have "\<exists>j < 1. slot_due (ex_shadow\<lparr>fi_total_message_count := 1\<rparr>) ex_heartbeat j" by auto
  with fault_check_first_match [OF ok c] due show ?thesis
    by (auto simp: rules slots8 c)
qed

text \<open>\<open>fault_inject_disconnect_after\<close>: of any sequence of messages, of whatever types, that is not as long
  as the counter of messages is wide, exactly the message with the given number triggers the fault.\<close>

theorem disconnect_after_fires_once:
  assumes "0 < n" and "length hs < 2 ^ 32"
  shows "fst (fault_inject_disconnect_after (fault_inject_init server) n) = 0 \<and>
    fst (fault_checks hs (snd (fault_inject_disconnect_after (fault_inject_init server) n)) w) =
      map (\<lambda>i. if Suc i = unat n then FAULT_DISCONNECT else FAULT_NONE) [0..<length hs]"
  using checks_once [of 0 hs False n server w] assms by (simp add: add_disconnect word_gt_0_no unat_gt_0)

theorem disconnect_after_fires_once_witness:
  "fst (fault_checks (replicate 4 ex_heartbeat) (snd (fault_inject_disconnect_after (fault_inject_init True) 3)) ok_world) =
     [FAULT_NONE, FAULT_NONE, FAULT_DISCONNECT, FAULT_NONE]"
  using disconnect_after_fires_once [of 3 "replicate 4 ex_heartbeat" True ok_world] by (simp add: upt_conv_Cons)

end
