(* ===== verification/Spec2Isabelle.thy ===== *)
theory Spec2Isabelle
  imports RingThreads UdpBroadcast ExampleServer FaultInject
begin

text \<open>
  \<^bold>\<open>The program.\<close> The repository is the communication library of a robot controller, in C: a TCP
  server for one client with a binary protocol, status datagrams over UDP, and a logger whose lines
  go through a ring buffer to UDP broadcasts. This development models its POSIX build, the mock
  robot that its tests put behind the server, the fault injector that other tests put between the two,
  and the example program that runs server and robot. Paths are below \<open>src/\<close>.

  \<^bold>\<open>How the parts meet.\<close> Every component runs on the platform layer. The TCP thread
  (\<open>tcp_thread_func\<close> in \<open>robot_protocol.c\<close>) admits a client, reads a header, receives the payload,
  and either registers a UDP port itself or hands the command to a callback, which allocates a
  response that the server sends and frees. The timeout thread (\<open>timeout_thread_func\<close>) disconnects a
  client that has been silent too long; both threads share the client record under a mutex. The
  owner of the server sends status datagrams to the port the client registered. All of them log
  with \<open>write_log_message\<close>, which appends to the ring buffer; \<open>process_log_message\<close> takes bytes from
  it and broadcasts them - and logs its own failures into the same buffer.

  \<^bold>\<open>Theories, in the order of their imports.\<close>
  \<^item> \<open>Prelude\<close>: integers as words of their width, the result type \<open>fault + 'a\<close> (a fault is an
    undefined or endless operation of C: NULL, double or late free, an access out of bounds, a
    division by zero, a wait that nobody ends), little-endian layout, bounds-checked copies.
  \<^item> \<open>Platform\<close>: \<open>platform_api_posix.c\<close> and \<open>lock_api_posix.c\<close>, one definition per function, over
    a \<open>world\<close> (live heap blocks, semaphores as counters, open descriptors, the bytes and errors
    waiting on each socket, the output so far). Everything the operating system decides is an
    answer of the environment \<open>w_env\<close>, asked with the number of the call, so a statement about
    all worlds is one about every pattern of failures, short sends and fragmentation. Shutting a
    socket down ends its stream and leaves its descriptor open. A send to a peer that has gone is
    an error, which is so only while \<open>SIGPIPE\<close> is ignored.
  \<^item> \<open>Circular\<close>, \<open>Channel\<close>: lists read and written modulo a size; the locale \<open>byte_channel\<close>, what
    a client of a bounded byte queue relies on, and the theorem that every history is first in
    first out, proved once from those laws.
  \<^item> \<open>RingBuffer\<close>: \<open>logging/src/ring_buffer.c\<close> with \<open>size_t\<close> as 64-bit words. \<open>rb_inv\<close> is the
    invariant of the structure, \<open>rb_contents\<close> its abstraction to the queue of unread bytes; writes
    and reads refine appending to and taking from that queue. The locale is interpreted here, on
    the code's own operations (\<open>ring\<close>).
  \<^item> \<open>RingThreads\<close>: the same functions cut between their accesses of the shared structure, for any
    number of writers and one reader, as a reachability relation with the invariant of all
    interleavings.
  \<^item> \<open>Logging\<close>: \<open>logging/src/logging.c\<close>, and the macros of \<open>logging.h\<close>. Levels are a \<open>linorder\<close>.
  \<^item> \<open>LogPrinter\<close>: the logger of the example program and its printing thread, with the contract of the
    channel from messages to output (\<open>log_spec\<close>), which any order of messages and turns refines.
  \<^item> \<open>UdpBroadcast\<close>: \<open>logging/src/udp_broadcast.c\<close>, from the list that \<open>getifaddrs\<close> answers to the
    datagrams sent, and the feedback of its own error messages.
  \<^item> \<open>Wire\<close>, \<open>Payloads\<close>: \<open>protocol.h\<close>, each packed struct as a record with its encoder and decoder.
  \<^item> \<open>MoveGoal\<close>: \<open>move_goal_from_payload\<close>, \<open>move_goal_deep_copy\<close> and the access macros, with 64-bit
    \<open>sizeof\<close> arithmetic stored into 32 bits as on the POSIX build.
  \<^item> \<open>Response\<close>: allocation, sending and freeing of responses; \<open>heap_ok\<close>, \<open>rsp_ok\<close> and \<open>rsp_blocks\<close>
    say who owns which block.
  \<^item> \<open>ReadHeader\<close>: \<open>read_header\<close>, with the pointer arithmetic of \<open>header + offset\<close> in whole headers.
  \<^item> \<open>Server\<close>: the client record and every branch of the two thread functions, as one turn of
    each loop (\<open>tcp_turn\<close>, \<open>timeout_turn\<close>). The version policy, a macro, is an argument.
  \<^item> \<open>ServerInv\<close>: the locale \<open>command_handler\<close>, what the server relies on from its callbacks (they
    keep the blocks of others, and hand over the blocks of a response); the invariant \<open>server_inv\<close>
    and, one lemma per operation, its preservation. \<open>safe\<close> is the outcome logic of these proofs.
  \<^item> \<open>ServerProps\<close>: what the server does: all schedules of turns, delivery of a command under every
    fragmentation, exclusive control, registration, timeout, and the ways a client or its bytes
    are lost.
  \<^item> \<open>MockRobot\<close>: \<open>tests/protocol/mock_robot.c\<close>, every function; the interpretation \<open>mock\<close> of
    \<open>command_handler\<close> proves that its callbacks keep the laws of the server.
  \<^item> \<open>ServerThreads\<close>: the timeout thread cut at the point where it gives up the mutex, as a step
    relation with its own invariant, for the server in general and with the mock robot behind it.
  \<^item> \<open>Lifecycle\<close>: \<open>robot_protocol_create\<close>, \<open>_start\<close>, \<open>_stop\<close>, \<open>_destroy\<close>, \<open>_is_running\<close> and the two
    functions that send datagrams.
  \<^item> \<open>ServerSteps\<close>: \<open>tcp_thread_func\<close> cut wherever it calls the operating system, takes the mutex or
    reads the shared client record again. A \<open>tcp_pc\<close> is a point of the function with its local
    variables; \<open>tcp_step\<close> is one step. Uninterrupted, the steps are the turn of \<open>Server\<close>.
  \<^item> \<open>Simulation\<close>: the locale \<open>simulation\<close> - an invariant, an abstract machine of events with
    outputs, and what one concrete step owes it - and, once, that runs refine runs.
  \<^item> \<open>ServerRaces\<close>: \<open>race_step\<close>, the interleaving of the steps of the TCP thread, the critical
    sections of the timeout thread, the status datagrams, the request to stop and the arrival of
    bytes; \<open>race_inv\<close>, one preservation lemma per step; the machine of sessions; the interpretation
    \<open>races\<close> of \<open>simulation\<close>.
  \<^item> \<open>MockGoals\<close>: the machine of goals and its interpretation \<open>goals\<close> for the operations of the mock
    robot; the round trip of a goal through \<open>MSG_MOVE_GOAL\<close> and \<open>MSG_ECHO_TRAJECTORY\<close>.
  \<^item> \<open>ExampleServer\<close>: \<open>tests/protocol/robot_server_example.c\<close>; here the invariant of the threads,
    the mock robot and the start of the server are put together (interpretation \<open>example\<close>).
    \<open>example_main\<close> is \<open>main\<close> from \<open>mock_robot_init\<close> to the exit code, \<open>example_program\<close> all of it.
  \<^item> \<open>FaultInject\<close>: \<open>tests/protocol/fault_inject.c\<close>, and the handler and \<open>setUp\<close> of
    \<open>test_fault_injection.c\<close>. The handler interferes with the connection it is called for, and still
    is a \<open>command_handler\<close> (interpretation \<open>faulty\<close>): what holds of the server holds under faults.
  \<^item> this theory: \<open>version.c\<close>.

  \<^bold>\<open>What the lemmas show.\<close> C1 to C8 are about the running server: the invariant and the refinement of
  sessions over all interleavings (C1, C2), for the whole example program (C3) and for the server of
  the fault injection tests (C4), delivery of commands (C5), the steps against the turn (C6),
  registration (C7) and timeout (C8). C9 to C12 are about the ring buffer, C13 to C15 about move
  goals, C16 to C18 about responses, the header reader and the wire format, C19 to C22 about the life
  of the server, of the whole program, and its status datagrams, C23 to C25 about the mock robot, C26
  to C29 about the logger, its output and its broadcasts, C30 and C31 about fault injection. C32 to
  C40 state what goes wrong in the code as it is, or otherwise than its documentation says: each is a
  theorem about the same definitions as the properties that hold, under the conditions it names.
  Theorems without a number are facts that the numbered ones rest on, generalise or follow on: the
  invariant over all schedules of whole turns, the history of the ring buffer, the empty read by
  itself, the client that the timeout thread confuses with another, error replies without memory,
  the connection whose end is not noticed, the rule that fires on exactly one message.
  \<^bold>\<open>Loops.\<close> \<open>receive_payload\<close> and \<open>read_header_loop\<close> are functions with a termination proof: each
  turn that does not leave the loop takes bytes that wait on the socket, which are finitely many.
  The loops of the two threads, which the program ends only by clearing \<open>running\<close>, are a turn
  repeated a given number of times, or a list of turns in any order; the number is arbitrary in
  every theorem, so nothing depends on a bound. The same holds for \<open>status_loop\<close> of the example
  program, whose bound is the turn in which the signal arrives, and for \<open>fn_print_log_thread\<close>. The loop of
  an unresponsive handler (\<open>unresponsive_loop\<close>) has a termination proof: it sleeps at most a hundred
  times. \<open>draw_goal_id\<close> repeats \<open>rand\<close> until it is not 0 and
  is a partial function: an endless draw is the fault \<open>Blocked\<close>.

  \<^bold>\<open>Conventions.\<close> A pointer to a structure is an option, or an address into a store where two
  parties hold it. \<open>errno\<close> is part of the world and keeps its value over calls that succeed, as in C.
  Diagnostics of \<open>robot_protocol.c\<close> and most of those of the mock robot are recorded, with their
  level and an abridged text, in \<open>w_log\<close>, which no result depends on; \<open>Logging\<close> and \<open>UdpBroadcast\<close> model \<open>write_log_message\<close> itself. A
  \<open>double\<close> is its 64 bits; where the mock robot multiplies or divides one, the rounded result is an
  argument.

  \<^bold>\<open>Not modelled.\<close> \<open>printf\<close> diagnostics of \<open>udp_broadcast.c\<close>; the effect of
  \<open>platform_setsockopt\<close> and \<open>platform_usleep\<close> beyond their result; data races between two accesses
  that the models take as one (within a step of \<open>ServerSteps\<close>, a callback of the mock robot or a
  step of its simulation, the words of the ring buffer below the steps of \<open>RingThreads\<close>), since C
  gives them no meaning; the loops of the timeout thread and of the owner as threads of their own
  in \<open>race_step\<close>, where their actions may come at any time and any number of times instead; the
  printing thread of the example program between the steps of the server (\<open>LogPrinter\<close> runs it
  against the messages, on the ring buffer that only the two share); signal handlers, where the
  number of the turn in which the signal arrives stands for \<open>signal_handler\<close>; the VxWorks
  variants, of which the repository holds no code; the test programs, which call the library with
  fixed inputs, and the build files. Of the headers the comments, include guards and prototypes
  define nothing.
\<close>

section \<open>Version\<close>

text \<open>\<open>version.c\<close>: the commit is a compile-time definition of the build, if it has one.\<close>

definition comms_version_string :: string where
  "comms_version_string = ''1.0.0''"

definition comms_git_commit :: "string option \<Rightarrow> string" where
  "comms_git_commit COMMS_GIT_COMMIT_SHORT =
     (case COMMS_GIT_COMMIT_SHORT of None \<Rightarrow> ''unknown'' | Some c \<Rightarrow> c)"

end
